(* ===== verification/Dtn_Prelude.thy ===== *)
theory Dtn_Prelude
  imports Main "HOL-Library.Word"
begin

text \<open>
  Shared vocabulary of the development: the names of the C++ integer types, the
  \<open>outcome\<close> type that makes a failed \<open>ASSERT\<close>, \<open>PANIC\<close> or \<open>NOTREACHED\<close> of the
  source a value, the interface every wire format of the daemon satisfies (an encoder
  whose output the decoder reads back from the front of a longer buffer), and the
  generic lemmas on bytes, words and lists the components share.
\<close>

unbundle bit_operations_syntax

section \<open>Types\<close>

type_synonym byte = "8 word"
type_synonym u16 = "16 word"
type_synonym u32 = "32 word"
type_synonym u64 = "64 word"

text \<open>
  The daemon aborts on a failed assertion. An operation that contains one returns
  \<open>Panic\<close> on that branch, so that a theorem can say the branch is not taken.
\<close>

datatype 'a outcome = Done 'a | Panic

fun bind_outcome :: "'a outcome \<Rightarrow> ('a \<Rightarrow> 'b outcome) \<Rightarrow> 'b outcome" where
  "bind_outcome (Done x) f = f x"
| "bind_outcome Panic f = Panic"

definition assert_that :: "bool \<Rightarrow> 'a outcome \<Rightarrow> 'a outcome" where
  "assert_that b k = (if b then k else Panic)"

lemma assert_that_simps [simp]:
  "assert_that True k = k"
  "assert_that False k = Panic"
  by (simp_all add: assert_that_def)

lemma bind_outcome_Done [simp]: "bind_outcome m Done = m"
  by (cases m) simp_all

lemma bind_outcome_assoc: "bind_outcome (bind_outcome m f) g = bind_outcome m (\<lambda>x. bind_outcome (f x) g)"
  by (cases m) simp_all

lemma bind_outcome_Done_iff:
  "bind_outcome m f = Done y \<longleftrightarrow> (\<exists>x. m = Done x \<and> f x = Done y)"
  by (cases m) auto

lemma bind_eq_Panic: "bind_outcome m f = Panic \<longleftrightarrow> m = Panic \<or> (\<exists>x. m = Done x \<and> f x = Panic)"
  by (cases m) simp_all

text \<open>
  What holds of the result when no assertion fails, with rules that follow the structure of
  the operation.
\<close>

named_theorems if_done_intro

definition if_done :: "('a \<Rightarrow> bool) \<Rightarrow> 'a outcome \<Rightarrow> bool" where
  "if_done P m = (case m of Done x \<Rightarrow> P x | Panic \<Rightarrow> True)"

lemma if_done_simps [simp]: "if_done P (Done x) = P x" "if_done P Panic"
  by (simp_all add: if_done_def)

lemma if_done_assert_simp [simp]: "if_done P (assert_that c m) \<longleftrightarrow> (c \<longrightarrow> if_done P m)"
  by (cases c) simp_all

lemma if_doneD: "if_done P m \<Longrightarrow> m = Done x \<Longrightarrow> P x"
  by simp

lemma if_doneI: "(\<And>x. m = Done x \<Longrightarrow> P x) \<Longrightarrow> if_done P m"
  by (cases m) simp_all

lemma if_done_bind [if_done_intro]: "(\<And>x. m = Done x \<Longrightarrow> if_done P (f x)) \<Longrightarrow> if_done P (bind_outcome m f)"
  by (cases m) simp_all

lemma if_done_assert [if_done_intro]: "(c \<Longrightarrow> if_done P m) \<Longrightarrow> if_done P (assert_that c m)"
  by (cases c) simp_all

lemma if_done_if [if_done_intro]:
  "(c \<Longrightarrow> if_done P m) \<Longrightarrow> (\<not> c \<Longrightarrow> if_done P n) \<Longrightarrow> if_done P (if c then m else n)"
  by simp

lemma if_done_Let [if_done_intro]: "(\<And>x. x = t \<Longrightarrow> if_done P (f x)) \<Longrightarrow> if_done P (Let t f)"
  by simp

text \<open>Forgetting what a local variable stands for keeps the goals small.\<close>

lemma if_done_Let_any: "(\<And>x. if_done P (f x)) \<Longrightarrow> if_done P (Let t f)"
  by simp

lemma if_done_Let_result: "if_done P m \<Longrightarrow> (\<And>x. if_done P x \<Longrightarrow> if_done P (f x)) \<Longrightarrow> if_done P (Let m f)"
  by simp

lemma if_done_prod [if_done_intro]: "(\<And>x y. p = (x, y) \<Longrightarrow> if_done P (f x y)) \<Longrightarrow> if_done P (case p of (x, y) \<Rightarrow> f x y)"
  by (cases p) simp

lemma if_done_option [if_done_intro]:
  "(z = None \<Longrightarrow> if_done P m) \<Longrightarrow> (\<And>x. z = Some x \<Longrightarrow> if_done P (f x)) \<Longrightarrow> if_done P (case z of None \<Rightarrow> m | Some x \<Rightarrow> f x)"
  by (cases z) simp_all

text \<open>A loop that performs an operation for each element.\<close>

fun fold_outcome :: "('a \<Rightarrow> 'b \<Rightarrow> 'b outcome) \<Rightarrow> 'a list \<Rightarrow> 'b \<Rightarrow> 'b outcome" where
  "fold_outcome f [] s = Done s"
| "fold_outcome f (x # xs) s = bind_outcome (f x s) (fold_outcome f xs)"

lemma fold_outcome_Nil [simp]: "fold_outcome f [] = Done"
  by (rule ext) simp

lemma fold_outcome_append:
  "fold_outcome f (xs @ ys) s = bind_outcome (fold_outcome f xs s) (fold_outcome f ys)"
proof (induction xs arbitrary: s)
  case (Cons x xs)
  then show ?case by (cases "f x s") auto
qed simp

section \<open>Wire formats\<close>

text \<open>
  A sequence of items is written one after another, and read back by a loop that knows
  how many there are.
\<close>

fun take_items :: "(byte list \<Rightarrow> ('a \<times> byte list) option) \<Rightarrow> nat \<Rightarrow> byte list
    \<Rightarrow> ('a list \<times> byte list) option" where
  "take_items dec 0 bs = Some ([], bs)"
| "take_items dec (Suc n) bs =
     (case dec bs of None \<Rightarrow> None
      | Some (x, r) \<Rightarrow> (case take_items dec n r of None \<Rightarrow> None
                     | Some (xs, r') \<Rightarrow> Some (x # xs, r')))"

text \<open>
  The contract between an encoder and its decoder. \<open>ok\<close> says which values the encoder
  can represent.
\<close>

locale wire_format =
  fixes ok :: "'a \<Rightarrow> bool"
    and enc :: "'a \<Rightarrow> byte list"
    and dec :: "byte list \<Rightarrow> ('a \<times> byte list) option"
  assumes dec_enc: "ok x \<Longrightarrow> dec (enc x @ r) = Some (x, r)"
begin

lemma dec_enc_exact: "ok x \<Longrightarrow> dec (enc x) = Some (x, [])"
  using dec_enc [of x "[]"] by simp

lemma enc_inject: "ok x \<Longrightarrow> ok y \<Longrightarrow> enc x = enc y \<longleftrightarrow> x = y"
  using dec_enc_exact [of x] dec_enc_exact [of y] by (metis option.inject prod.inject)

text \<open>No encoding is a proper prefix of another: items need no separator.\<close>

lemma enc_prefix_free: "ok x \<Longrightarrow> ok y \<Longrightarrow> enc x @ r = enc y @ s \<Longrightarrow> x = y \<and> r = s"
  using dec_enc [of x r] dec_enc [of y s] by (metis option.inject prod.inject)

lemma take_items_enc:
  "list_all ok xs \<Longrightarrow> take_items dec (length xs) (concat (map enc xs) @ r) = Some (xs, r)"
  by (induction xs) (auto simp: dec_enc)

end

section \<open>Bytes and words\<close>

named_theorems word_conv \<open>from words to naturals\<close>

lemma and_7f_eq_take_bit: "(w :: 'a::len word) AND 0x7f = take_bit 7 w"
proof -
  have "(0x7f :: 'a word) = mask 7" by (simp add: mask_eq_exp_minus_1)
  then show ?thesis by (simp add: take_bit_eq_mask)
qed

lemma unat_take_bit: "unat (take_bit n (w :: 'a::len word)) = unat w mod 2 ^ n"
  by (simp only: unsigned_take_bit_eq take_bit_eq_mod [of n "unat w"])

lemma unat_and_7f [word_conv]: "unat ((w :: 'a::len word) AND 0x7f) = unat w mod 128"
  by (simp only: and_7f_eq_take_bit unat_take_bit) simp

lemma unat_shiftr_7 [word_conv]: "unat (drop_bit 7 (w :: 'a::len word)) = unat w div 128"
  by (simp only: unat_drop_bit_eq drop_bit_eq_div [of 7 "unat w"]) simp

lemma shiftr_7_eq_0_iff: "drop_bit 7 (w :: 'a::len word) = 0 \<longleftrightarrow> unat w < 128"
  by (simp only: unat_0_iff [symmetric] unat_shiftr_7) linarith

text \<open>Shifting in seven bits is Horner's step, modulo the width.\<close>

lemma unat_shift_in_7 [word_conv]:
  "unat (push_bit 7 (v :: u64) OR ucast ((b :: byte) AND 0x7f))
     = (unat v * 128 + unat b mod 128) mod 2 ^ 64"
proof -
  have low: "unat (ucast (b AND 0x7f) :: u64) = unat b mod 128"
    by (simp only: unsigned_ucast_eq unat_and_7f) (simp add: take_bit_eq_mod)
  have high: "unat (push_bit 7 v) = (unat v * 128) mod 2 ^ 64"
    by (simp add: push_bit_eq_mult unat_word_ariths mult.commute)
  have "push_bit 7 v OR ucast (b AND 0x7f) = push_bit 7 v + ucast (b AND 0x7f)"
    unfolding and_7f_eq_take_bit
    by (rule disjunctive_add [symmetric]) (auto simp: bit_push_bit_iff bit_unsigned_iff bit_take_bit_iff)
  then show ?thesis
    by (simp only: unat_word_ariths low high) (simp add: mod_simps)
qed

lemma odd_div_128_iff: "(n :: nat) < 256 \<Longrightarrow> odd (n div 128) \<longleftrightarrow> 128 \<le> n"
proof (cases "n < 128")
  case False
  moreover assume "n < 256"
  ultimately have "n div 128 = 1" by linarith
  with False show ?thesis by simp
qed simp

lemma and_80_eq_0_iff: "(b :: byte) AND 0x80 = 0 \<longleftrightarrow> unat b < 128"
proof -
  have "b AND 0x80 = 0 \<longleftrightarrow> \<not> bit b 7"
    using and_exp_eq_0_iff_not_bit [of b 7] by simp
  also have "bit b 7 \<longleftrightarrow> bit (unat b) 7"
    by (simp add: bit_unsigned_iff)
  also have "\<dots> \<longleftrightarrow> odd (unat b div 128)"
    by (simp add: bit_iff_odd)
  also have "\<dots> \<longleftrightarrow> 128 \<le> unat b"
    using unsigned_less [of b] by (intro odd_div_128_iff) simp
  finally show ?thesis by (simp add: not_le)
qed

end
