(* ===== verification/Sdnv.thy ===== *)
theory Sdnv
  imports Dtn_Prelude
begin

text \<open>
  The self-delimiting numeric values of \<open>servlib/bundling/SDNV.cc\<close>: the encoder with
  its two loops, the decoder with its overflow check, the 32-bit variant of the header and
  the length scan. A buffer is the list of its bytes, from the pointer the code is given to
  the end of the space it may use.
\<close>

section \<open>Model\<close>

definition MAX_LENGTH :: nat where
  "MAX_LENGTH = 10"

text \<open>The first loop of \<open>encode\<close>: \<open>do { tmp >>= 7; val_len++; } while (tmp != 0)\<close>.\<close>

function sdnv_val_len :: "u64 \<Rightarrow> nat \<Rightarrow> nat" where
  "sdnv_val_len tmp n =
     (let tmp' = drop_bit 7 tmp in if tmp' \<noteq> 0 then sdnv_val_len tmp' (n + 1) else n + 1)"
  by pat_completeness auto

lemma shiftr_7_decreases: "drop_bit 7 (w :: u64) \<noteq> 0 \<Longrightarrow> unat (drop_bit 7 w) < unat w"
  by (simp only: shiftr_7_eq_0_iff unat_shiftr_7)

termination sdnv_val_len
  by (relation "measure (\<lambda>(tmp, n). unat tmp)") (auto simp only: in_measure prod.case wf_measure intro: shiftr_7_decreases)

text \<open>
  The second loop writes the octets backwards; \<open>acc\<close> is what has been written so far,
  \<open>high\<close> the variable \<open>high_bit\<close>.
\<close>

function sdnv_fill :: "u64 \<Rightarrow> byte \<Rightarrow> byte list \<Rightarrow> byte list" where
  "sdnv_fill val high acc =
     (let acc' = (high OR (ucast val AND 0x7f)) # acc; val' = drop_bit 7 val
      in if val' \<noteq> 0 then sdnv_fill val' 0x80 acc' else acc')"
  by pat_completeness auto

termination sdnv_fill
  by (relation "measure (\<lambda>(val, high, acc). unat val)") (auto simp only: in_measure prod.case wf_measure intro: shiftr_7_decreases)

declare sdnv_val_len.simps [simp del] sdnv_fill.simps [simp del]

text \<open>
  \<open>encode(val, bp, len)\<close> with \<open>len = length buf\<close>: the returned \<open>int\<close> and the buffer
  afterwards. The three assertions are branches to \<open>Panic\<close>.
\<close>

definition sdnv_encode :: "u64 \<Rightarrow> byte list \<Rightarrow> (int \<times> byte list) outcome" where
  "sdnv_encode val buf =
     (let val_len = sdnv_val_len val 0
      in assert_that (val_len > 0) (assert_that (val_len \<le> MAX_LENGTH)
         (if length buf < val_len then Done (-1, buf)
          else let bs = sdnv_fill val 0 []
               in assert_that (length bs = val_len)
                    (Done (int val_len, bs @ drop val_len buf)))))"

definition sdnv_encoding_len :: "u64 \<Rightarrow> nat outcome" where
  "sdnv_encoding_len val =
     bind_outcome (sdnv_encode val (replicate 16 0))
       (\<lambda>(ret, buf). assert_that (ret \<noteq> -1 \<and> ret \<noteq> 0) (Done (nat ret)))"

text \<open>
  The loop of \<open>decode\<close>: the number of octets read, or \<open>None\<close> where the buffer is too
  short, and in both cases what \<open>*val\<close> holds by then.
\<close>

fun sdnv_decode_loop :: "byte list \<Rightarrow> nat \<Rightarrow> u64 \<Rightarrow> nat option \<times> u64" where
  "sdnv_decode_loop [] val_len val = (None, val)"
| "sdnv_decode_loop (b # bs) val_len val =
     (let val' = push_bit 7 val OR ucast (b AND 0x7f); val_len' = val_len + 1
      in if b AND 0x80 = 0 then (Some val_len', val') else sdnv_decode_loop bs val_len' val')"

definition sdnv_decode :: "byte list \<Rightarrow> int \<times> u64" where
  "sdnv_decode bp =
     (case sdnv_decode_loop bp 0 0 of
        (None, val) \<Rightarrow> (-1, val)
      | (Some val_len, val) \<Rightarrow>
          (if val_len > MAX_LENGTH \<or> (val_len = MAX_LENGTH \<and> hd bp \<noteq> 0x81)
           then (-1, val) else (int val_len, val)))"

text \<open>
  The 32-bit variant: it tests the decoded value before it looks at the return code, and
  stores it whenever it fits. The second component is the value stored, if any.
\<close>

definition sdnv_decode32 :: "byte list \<Rightarrow> int \<times> u32 option" where
  "sdnv_decode32 bp =
     (let (ret, lval) = sdnv_decode bp
      in if lval > 0xffffffff then (-1, None) else (ret, Some (ucast lval)))"

text \<open>\<open>len(bp)\<close> has no bound: \<open>None\<close> is a read past the end of the buffer.\<close>

fun sdnv_len_loop :: "byte list \<Rightarrow> nat \<Rightarrow> nat option" where
  "sdnv_len_loop [] val_len = None"
| "sdnv_len_loop (b # bs) val_len =
     (if b AND 0x80 \<noteq> 0 then sdnv_len_loop bs (val_len + 1) else Some val_len)"

definition sdnv_len :: "byte list \<Rightarrow> nat option" where
  "sdnv_len bp = sdnv_len_loop bp 1"

section \<open>Reference: base-128 digits\<close>

text \<open>The digits of a number, most significant first, and the number digits stand for.\<close>

fun digits128 :: "nat \<Rightarrow> nat list" where
  "digits128 n = (if n < 128 then [n] else digits128 (n div 128) @ [n mod 128])"

declare digits128.simps [simp del]

definition horner128 :: "nat \<Rightarrow> nat list \<Rightarrow> nat" where
  "horner128 = foldl (\<lambda>v d. v * 128 + d)"

lemma horner128_simps [simp]:
  "horner128 v [] = v"
  "horner128 v (d # ds) = horner128 (v * 128 + d) ds"
  "horner128 v (ds @ es) = horner128 (horner128 v ds) es"
  by (simp_all add: horner128_def)

lemma digits128_not_Nil [simp]: "digits128 n \<noteq> []"
  by (subst digits128.simps) simp

lemma digits128_bound: "d \<in> set (digits128 n) \<Longrightarrow> d < 128"
  by (induction n rule: digits128.induct) (subst (asm) (2) digits128.simps, auto split: if_splits)

lemma horner128_digits128: "horner128 0 (digits128 n) = n"
  by (induction n rule: digits128.induct) (subst digits128.simps, simp add: div_mult_mod_eq)

lemma length_digits128: "n < 128 ^ Suc k \<Longrightarrow> length (digits128 n) \<le> Suc k"
proof (induction k arbitrary: n)
  case 0
  then show ?case by (subst digits128.simps) simp
next
  case (Suc k)
  have "n div 128 < 128 ^ Suc k"
    using Suc.prems by (simp add: less_mult_imp_div_less mult.commute)
  then have "length (digits128 (n div 128)) \<le> Suc k" by (rule Suc.IH)
  then show ?case by (subst digits128.simps) simp
qed

text \<open>The octets of a digit sequence: the high bit marks all but the last.\<close>

definition octets :: "nat list \<Rightarrow> byte list" where
  "octets ds = map (\<lambda>d. of_nat (128 + d)) (butlast ds) @ [of_nat (last ds)]"

definition more_octets :: "nat list \<Rightarrow> byte list" where
  "more_octets = map (\<lambda>d. of_nat (128 + d))"

section \<open>The loops compute the digits\<close>

lemma octet_low: "0 OR (ucast (v :: u64) AND 0x7f) = (of_nat (unat v mod 128) :: byte)"
proof -
  have "unat (ucast v AND 0x7f :: byte) = unat v mod 128"
    by (simp only: unat_and_7f unsigned_ucast_eq) (simp add: take_bit_eq_mod mod_mod_cancel)
  then have "(of_nat (unat v mod 128) :: byte) = of_nat (unat (ucast v AND 0x7f :: byte))"
    by (simp only:)
  then show ?thesis by simp
qed

lemma octet_high: "0x80 OR (ucast (v :: u64) AND 0x7f) = (of_nat (128 + unat v mod 128) :: byte)"
proof -
  have "push_bit 7 1 OR take_bit 7 (ucast v) = push_bit 7 (1 :: byte) + take_bit 7 (ucast v)"
    by (rule disjunctive_add [symmetric])
      (simp only: bit_push_bit_iff bit_take_bit_iff, auto simp: bit_1_iff)
  then have "0x80 OR (ucast v AND 0x7f) = (0x80 :: byte) + (ucast v AND 0x7f)"
    by (simp add: and_7f_eq_take_bit)
  then show ?thesis using octet_low [of v] by simp
qed

lemma sdnv_val_len_digits: "sdnv_val_len v n = n + length (digits128 (unat v))"
proof (induction v n rule: sdnv_val_len.induct)
  case (1 v n)
  then show ?case
    by (subst sdnv_val_len.simps, subst digits128.simps)
      (simp add: Let_def shiftr_7_eq_0_iff unat_shiftr_7)
qed

lemma sdnv_fill_high: "sdnv_fill v 0x80 acc = more_octets (digits128 (unat v)) @ acc"
proof (induction "unat v" arbitrary: v acc rule: less_induct)
  case less
  show ?case
  proof (cases "unat v < 128")
    case True
    then show ?thesis
      by (subst sdnv_fill.simps, subst digits128.simps)
        (simp only: Let_def shiftr_7_eq_0_iff octet_high more_octets_def if_True if_False not_True_eq_False mod_less list.map append.simps)
  next
    case False
    then have "unat (drop_bit 7 v) < unat v" by (simp only: unat_shiftr_7)
    note IH = less.hyps [OF this]
    from False show ?thesis
      by (subst sdnv_fill.simps, subst digits128.simps)
        (simp only: Let_def shiftr_7_eq_0_iff octet_high IH if_False if_True not_False_eq_True
          unat_shiftr_7 more_octets_def map_append list.map append.simps append_assoc)
  qed
qed

lemma sdnv_fill_octets: "sdnv_fill v 0 [] = octets (digits128 (unat v))"
proof (cases "unat v < 128")
  case True
  then show ?thesis
    by (subst sdnv_fill.simps, subst digits128.simps)
      (simp only: Let_def shiftr_7_eq_0_iff octet_low octets_def if_True if_False not_True_eq_False mod_less butlast.simps last.simps list.map append.simps simp_thms)
next
  case False
  have "sdnv_fill v 0 [] = sdnv_fill (drop_bit 7 v) 0x80 [of_nat (unat v mod 128)]"
    using False by (subst sdnv_fill.simps) (simp only: Let_def shiftr_7_eq_0_iff octet_low if_True not_False_eq_True)
  also have "\<dots> = octets (digits128 (unat v div 128) @ [unat v mod 128])"
    by (simp only: sdnv_fill_high unat_shiftr_7) (simp add: octets_def more_octets_def)
  also have "digits128 (unat v div 128) @ [unat v mod 128] = digits128 (unat v)"
    using False by (subst (2) digits128.simps) simp
  finally show ?thesis .
qed

lemma length_octets [simp]: "ds \<noteq> [] \<Longrightarrow> length (octets ds) = length ds"
  by (simp add: octets_def)

lemma length_digits128_u64: "length (digits128 (unat (v :: u64))) \<le> MAX_LENGTH"
proof -
  have "unat v < 2 ^ 64" using unsigned_less [of v] by simp
  then have "unat v < 128 ^ Suc 9" by simp
  then show ?thesis using length_digits128 [of "unat v" 9] by (simp add: MAX_LENGTH_def)
qed

text \<open>The encoder in one line: no assertion fails, and the octets are those of the digits.\<close>

definition sdnv_bytes :: "u64 \<Rightarrow> byte list" where
  "sdnv_bytes v = sdnv_fill v 0 []"

lemma length_sdnv_bytes: "length (sdnv_bytes v) = length (digits128 (unat v))"
  by (simp add: sdnv_bytes_def sdnv_fill_octets)

lemma sdnv_encode_eq:
  "sdnv_encode v buf =
     (if length buf < length (sdnv_bytes v) then Done (-1, buf)
      else Done (int (length (sdnv_bytes v)), sdnv_bytes v @ drop (length (sdnv_bytes v)) buf))"
  using length_digits128_u64 [of v]
  by (simp add: sdnv_encode_def sdnv_val_len_digits length_sdnv_bytes Let_def
      flip: sdnv_bytes_def)

section \<open>The decoder reads the digits back\<close>

text \<open>The value the low seven bits of a sequence of octets stand for.\<close>

definition septets :: "byte list \<Rightarrow> nat" where
  "septets bs = horner128 0 (map (\<lambda>b. unat b mod 128) bs)"

lemma horner128_mod:
  "horner128 (v mod m) ds mod m = horner128 v ds mod m"
proof (induction ds arbitrary: v)
  case (Cons d ds)
  have "horner128 (v mod m) (d # ds) mod m = horner128 ((v mod m * 128 + d) mod m) ds mod m"
    by (simp add: Cons.IH)
  also have "\<dots> = horner128 ((v * 128 + d) mod m) ds mod m"
    by (metis mod_add_left_eq mod_mult_left_eq)
  finally show ?case by (simp add: Cons.IH)
qed simp

lemma horner128_split: "horner128 v ds = v * 128 ^ length ds + horner128 0 ds"
proof (induction ds arbitrary: v)
  case (Cons d ds)
  show ?case
    using Cons.IH [of "v * 128 + d"] Cons.IH [of d] by (simp add: algebra_simps)
qed simp

lemma horner128_bound: "\<forall>d \<in> set ds. d < 128 \<Longrightarrow> horner128 0 ds < 128 ^ length ds"
proof (induction ds rule: rev_induct)
  case (snoc d ds)
  then have "horner128 0 ds + 1 \<le> 128 ^ length ds" "d < 128" by auto
  then have "horner128 0 ds * 128 + d < 128 ^ length ds * 128" by linarith
  then show ?case by simp
qed simp

text \<open>
  The loop consumes octets up to the first one with a clear high bit, and accumulates
  their septets modulo the width of the variable.
\<close>

lemma sdnv_decode_loop_terminated:
  assumes "\<forall>b \<in> set bs. 128 \<le> unat b" and "unat l < 128"
  shows "\<exists>v'. sdnv_decode_loop (bs @ l # r) n v = (Some (n + length bs + 1), v')
    \<and> unat v' = horner128 (unat v) (map (\<lambda>b. unat b mod 128) (bs @ [l])) mod 2 ^ 64"
  using assms(1)
proof (induction bs arbitrary: n v)
  case Nil
  then show ?case using assms(2) by (simp add: and_80_eq_0_iff unat_shift_in_7 Let_def)
next
  case (Cons b bs)
  let ?v = "push_bit 7 v OR ucast (b AND 0x7f)"
  obtain v' where v': "sdnv_decode_loop (bs @ l # r) (n + 1) ?v = (Some (n + 1 + length bs + 1), v')"
      "unat v' = horner128 (unat ?v) (map (\<lambda>b. unat b mod 128) (bs @ [l])) mod 2 ^ 64"
    using Cons.IH [of "n + 1" ?v] Cons.prems by auto
  have "\<not> unat b < 128" using Cons.prems by simp
  then have "sdnv_decode_loop ((b # bs) @ l # r) n v = (Some (n + length (b # bs) + 1), v')"
    using v'(1) by (simp add: and_80_eq_0_iff Let_def)
  moreover have "unat v' = horner128 (unat v) (map (\<lambda>b. unat b mod 128) ((b # bs) @ [l])) mod 2 ^ 64"
    by (simp only: v'(2) unat_shift_in_7 horner128_mod) simp
  ultimately show ?case by blast
qed

lemma sdnv_decode_loop_unterminated:
  "\<forall>b \<in> set bs. 128 \<le> unat b \<Longrightarrow> \<exists>v'. sdnv_decode_loop bs n v = (None, v')"
  by (induction bs arbitrary: n v) (auto simp: and_80_eq_0_iff Let_def)

text \<open>Every buffer either has a terminating octet or has none.\<close>

lemma terminated_cases:
  fixes bp :: "byte list"
  obtains (unterminated) "\<forall>b \<in> set bp. 128 \<le> unat b"
  | (terminated) bs l r where "bp = bs @ l # r" "\<forall>b \<in> set bs. 128 \<le> unat b" "unat l < 128"
proof (cases "\<forall>b \<in> set bp. 128 \<le> unat (b :: byte)")
  case False
  then have "\<exists>x \<in> set bp. \<not> 128 \<le> unat x" by blast
  then obtain bs l r where "bp = bs @ l # r" "\<not> 128 \<le> unat l" "\<forall>y \<in> set bs. \<not> \<not> 128 \<le> unat y"
    using split_list_first_prop [of bp "\<lambda>x. \<not> 128 \<le> unat x"] by blast
  then show thesis by (intro terminated) auto
qed (rule unterminated)

definition overflow_sdnv :: "byte list \<Rightarrow> bool" where
  "overflow_sdnv bs \<longleftrightarrow> length bs > 10 \<or> (length bs = 10 \<and> hd bs \<noteq> 0x81)"

text \<open>The check of the decoder is exactly what keeps the septets within 64 bits.\<close>

lemma septets_fit:
  assumes "bs \<noteq> []" and "\<not> overflow_sdnv bs"
  shows "septets bs < 2 ^ 64"
proof -
  have bound: "horner128 0 (map (\<lambda>b. unat b mod 128) cs) < 128 ^ length cs" for cs :: "byte list"
    using horner128_bound [of "map (\<lambda>b. unat b mod 128) cs"] by simp
  consider "length bs \<le> 9" | "length bs = 10" "hd bs = 0x81"
    using assms(2) by (force simp: overflow_sdnv_def)
  then show ?thesis
  proof cases
    case 1
    have "septets bs < 128 ^ length bs" using bound [of bs] by (simp add: septets_def)
    also have "\<dots> \<le> 128 ^ 9" using 1 by (intro power_increasing) simp_all
    finally show ?thesis by simp
  next
    case 2
    then obtain cs where "bs = 0x81 # cs" "length cs = 9" using assms(1) by (cases bs) auto
    then have "septets bs = 128 ^ 9 + horner128 0 (map (\<lambda>b. unat b mod 128) cs)"
      using horner128_split [of 1 "map (\<lambda>b. unat b mod 128) cs"] by (simp add: septets_def)
    also have "\<dots> < 128 ^ 9 + 128 ^ 9" using bound [of cs] \<open>length cs = 9\<close> by simp
    finally show ?thesis by simp
  qed
qed

text \<open>The decoder on every input: the two branches of a terminated buffer, and the others.\<close>

lemma sdnv_decode_terminated:
  assumes "\<forall>b \<in> set bs. 128 \<le> unat b" and "unat l < 128"
  shows "sdnv_decode (bs @ l # r) =
    (if overflow_sdnv (bs @ [l]) then (-1, of_nat (septets (bs @ [l])))
     else (int (length bs) + 1, of_nat (septets (bs @ [l]))))"
proof -
  obtain v' where v': "sdnv_decode_loop (bs @ l # r) 0 0 = (Some (length bs + 1), v')"
      "unat v' = septets (bs @ [l]) mod 2 ^ 64"
    using sdnv_decode_loop_terminated [OF assms, of r 0 0] by (auto simp: septets_def)
  have "v' = of_nat (unat v')" by simp
  also have "\<dots> = of_nat (septets (bs @ [l]))"
    unfolding v'(2) by (simp add: of_nat_mod unsigned_of_nat word_unat_eq_iff take_bit_eq_mod)
  finally have "v' = of_nat (septets (bs @ [l]))" .
  moreover have "hd (bs @ l # r) = hd (bs @ [l])" by (cases bs) auto
  ultimately show ?thesis
    using v'(1) by (simp add: sdnv_decode_def overflow_sdnv_def MAX_LENGTH_def)
qed

lemma sdnv_decode_unterminated:
  assumes "\<forall>b \<in> set bp. 128 \<le> unat b"
  shows "fst (sdnv_decode bp) = -1"
  using sdnv_decode_loop_unterminated [OF assms, of 0 0] by (auto simp: sdnv_decode_def)

lemma unat_of_septets:
  "bs \<noteq> [] \<Longrightarrow> \<not> overflow_sdnv bs \<Longrightarrow> unat (of_nat (septets bs) :: u64) = septets bs"
  using septets_fit [of bs] by (simp add: unat_of_nat)

section \<open>Encoder and decoder agree\<close>

lemma hd_digits128: "128 \<le> n \<Longrightarrow> 0 < hd (digits128 n)"
proof (induction n rule: digits128.induct)
  case (1 n)
  have "hd (digits128 n) = hd (digits128 (n div 128))"
    using "1.prems" by (subst digits128.simps) simp
  moreover have "0 < hd (digits128 (n div 128))"
  proof (cases "n div 128 < 128")
    case True
    have "0 < n div 128" using "1.prems" by linarith
    with True show ?thesis by (subst digits128.simps) simp
  next
    case False
    then show ?thesis using "1.IH" "1.prems" by simp
  qed
  ultimately show ?case by simp
qed

lemma unat_octet [simp]:
  "d < 256 \<Longrightarrow> unat (of_nat d :: byte) = d"
  by (simp add: unat_of_nat)

lemma octets_shape:
  assumes "ds \<noteq> []" and "\<forall>d \<in> set ds. d < 128"
  shows "\<exists>bs l. octets ds = bs @ [l] \<and> (\<forall>b \<in> set bs. 128 \<le> unat b) \<and> unat l < 128"
proof -
  have "last ds < 128" using assms by simp
  moreover have "\<forall>d \<in> set (butlast ds). d < 128" using assms(2) by (meson in_set_butlastD)
  ultimately show ?thesis
    unfolding octets_def by (auto simp: unat_of_nat simp del: of_nat_add)
qed

lemma septets_octets:
  assumes "ds \<noteq> []" and "\<forall>d \<in> set ds. d < 128"
  shows "septets (octets ds) = horner128 0 ds"
proof -
  have "map (\<lambda>b. unat b mod 128) (octets ds) = butlast ds @ [last ds]"
  proof -
    have "map (\<lambda>b. unat b mod 128) (map (\<lambda>d. of_nat (128 + d) :: byte) (butlast ds)) = butlast ds"
      using assms(2) by (auto intro!: map_idI simp: unat_of_nat dest!: in_set_butlastD simp del: of_nat_add)
    moreover have "last ds < 128" using assms by simp
    ultimately show ?thesis by (simp add: octets_def unat_of_nat del: of_nat_add)
  qed
  then show ?thesis using assms(1) by (simp add: septets_def)
qed

lemma not_overflow_sdnv_bytes: "\<not> overflow_sdnv (sdnv_bytes v)"
proof -
  let ?ds = "digits128 (unat v)"
  have len: "length (sdnv_bytes v) = length ?ds" "length ?ds \<le> 10"
    using length_digits128_u64 [of v] by (simp_all add: length_sdnv_bytes MAX_LENGTH_def)
  have "hd (sdnv_bytes v) = 0x81" if ten: "length ?ds = 10"
  proof -
    obtain d es where ds: "?ds = d # es" "length es = 9" using ten by (cases ?ds) auto
    have "horner128 0 ?ds = unat v" by (rule horner128_digits128)
    then have "unat v = d * 128 ^ 9 + horner128 0 es"
      using ds horner128_split [of d es] by simp
    moreover have "unat v < 2 ^ 64" using unsigned_less [of v] by simp
    ultimately have "d < 2" by simp
    moreover have "0 < d"
      using hd_digits128 [of "unat v"] ten ds(1) digits128.simps [of "unat v"]
      by (cases "unat v < 128") auto
    ultimately have "d = 1" by simp
    then show ?thesis
      using ds by (cases es) (simp_all add: sdnv_bytes_def sdnv_fill_octets octets_def)
  qed
  then show ?thesis using len by (auto simp: overflow_sdnv_def)
qed

lemma sdnv_decode_bytes: "sdnv_decode (sdnv_bytes v @ r) = (int (length (sdnv_bytes v)), v)"
proof -
  let ?ds = "digits128 (unat v)"
  have ds: "?ds \<noteq> []" "\<forall>d \<in> set ?ds. d < 128" by (auto dest: digits128_bound)
  obtain bs l where bl: "sdnv_bytes v = bs @ [l]" "\<forall>b \<in> set bs. 128 \<le> unat b" "unat l < 128"
    using octets_shape [OF ds] by (auto simp: sdnv_bytes_def sdnv_fill_octets)
  have "septets (sdnv_bytes v) = unat v"
    using septets_octets [OF ds] by (simp add: sdnv_bytes_def sdnv_fill_octets horner128_digits128)
  then show ?thesis
    using sdnv_decode_terminated [OF bl(2,3), of r] not_overflow_sdnv_bytes [of v] bl(1) by simp
qed

lemma sdnv_bytes_length_bounds: "1 \<le> length (sdnv_bytes v)" "length (sdnv_bytes v) \<le> 10"
  using length_digits128_u64 [of v]
  by (simp_all add: length_sdnv_bytes MAX_LENGTH_def Suc_le_eq)

lemma sdnv_bytes_not_Nil [simp]: "sdnv_bytes v \<noteq> []"
  using sdnv_bytes_length_bounds(1) [of v] by auto

lemma sdnv_encoding_len_eq: "sdnv_encoding_len v = Done (length (sdnv_bytes v))"
  using sdnv_bytes_length_bounds [of v]
  by (simp add: sdnv_encoding_len_def sdnv_encode_eq)

text \<open>
  A field of a block is read by decoding at the current position and advancing by the
  return value; a negative one stops the parse.
\<close>

definition sdnv_take :: "byte list \<Rightarrow> (u64 \<times> byte list) option" where
  "sdnv_take bp =
     (let (ret, v) = sdnv_decode bp in if ret < 0 then None else Some (v, drop (nat ret) bp))"

interpretation sdnv: wire_format "\<lambda>_. True" sdnv_bytes sdnv_take
  by unfold_locales (simp add: sdnv_take_def sdnv_decode_bytes)

section \<open>Properties\<close>

text \<open>
  C1. Every 64-bit value is encoded without a failed assertion into a buffer of at least
  ten octets, in one to ten of them; the rest of the buffer keeps its contents; and the
  decoder returns the same value and consumes the same number of octets.
\<close>

theorem sdnv_roundtrip:
  assumes "length buf \<ge> MAX_LENGTH"
  shows "\<exists>n buf'. sdnv_encode v buf = Done (int n, buf') \<and> 1 \<le> n \<and> n \<le> MAX_LENGTH
    \<and> length buf' = length buf \<and> drop n buf' = drop n buf \<and> sdnv_decode buf' = (int n, v)"
proof (intro exI conjI)
  let ?n = "length (sdnv_bytes v)"
  have "?n \<le> length buf" using assms sdnv_bytes_length_bounds [of v] by (simp add: MAX_LENGTH_def)
  then show "sdnv_encode v buf = Done (int ?n, sdnv_bytes v @ drop ?n buf)"
    and "length (sdnv_bytes v @ drop ?n buf) = length buf"
    by (simp_all add: sdnv_encode_eq)
qed (use sdnv_bytes_length_bounds [of v] in \<open>simp_all add: MAX_LENGTH_def sdnv_decode_bytes\<close>)

theorem sdnv_roundtrip_witness:
  "length (replicate 12 (7 :: byte)) \<ge> MAX_LENGTH \<and>
   (\<exists>n buf'. sdnv_encode 300 (replicate 12 7) = Done (int n, buf') \<and> sdnv_decode buf' = (int n, 300))"
proof
  show *: "length (replicate 12 (7 :: byte)) \<ge> MAX_LENGTH" by (simp add: MAX_LENGTH_def)
  show "\<exists>n buf'. sdnv_encode 300 (replicate 12 7) = Done (int n, buf') \<and> sdnv_decode buf' = (int n, 300)"
    using sdnv_roundtrip [OF *, of 300] by blast
qed

text \<open>
  C2. The decoder is exact. It returns the error code in just three situations: the buffer
  has no terminating octet, the number has more than ten octets, or it has ten and the
  first is not hexadecimal 81. Otherwise it returns the number of octets up to and
  including the terminating one, and the value is the base-128 number they spell, with no
  bit lost.
\<close>

theorem sdnv_decode_exact:
  "case sdnv_decode bp of (ret, v) \<Rightarrow>
     (\<exists>bs l r. bp = bs @ l # r \<and> list_all (\<lambda>b. 128 \<le> unat b) bs \<and> unat l < 128
       \<and> \<not> overflow_sdnv (bs @ [l]) \<and> ret = int (length bs) + 1 \<and> unat v = septets (bs @ [l]))
   \<or> (list_all (\<lambda>b. 128 \<le> unat b) bp \<and> ret = -1)
   \<or> (\<exists>bs l r. bp = bs @ l # r \<and> list_all (\<lambda>b. 128 \<le> unat b) bs \<and> unat l < 128
       \<and> overflow_sdnv (bs @ [l]) \<and> ret = -1)"
proof (cases bp rule: terminated_cases)
  case unterminated
  then show ?thesis
    using sdnv_decode_unterminated [of bp] by (cases "sdnv_decode bp") (auto simp: list_all_iff)
next
  case (terminated bs l r)
  then show ?thesis
    using sdnv_decode_terminated [of bs l r] unat_of_septets [of "bs @ [l]"]
    by (cases "overflow_sdnv (bs @ [l])") (auto simp: list_all_iff)
qed

end
