(* ===== verification/Sequence_Id.thy ===== *)
theory Sequence_Id
  imports Dtn_Prelude
begin

text \<open>
  The version vectors of \<open>servlib/bundling/SequenceID.cc\<close>: lookup, the comparison with its
  transition table, and the update to the entrywise maximum. An endpoint identifier is the
  text of its URI, which is what \<open>EndpointID::operator==\<close> compares.
\<close>

section \<open>Model\<close>

datatype type_t = EMPTY | COUNTER | IDENTIFIER

record entry =
  ent_eid :: string
  ent_type :: type_t
  ent_counter :: u64
  ent_identifier :: string

type_synonym sequence_id = "entry list"

definition null_entry :: entry where
  "null_entry = \<lparr>ent_eid = [], ent_type = EMPTY, ent_counter = 0, ent_identifier = []\<rparr>"

definition counter_entry :: "string \<Rightarrow> u64 \<Rightarrow> entry" where
  "counter_entry eid c = \<lparr>ent_eid = eid, ent_type = COUNTER, ent_counter = c, ent_identifier = []\<rparr>"

definition identifier_entry :: "string \<Rightarrow> string \<Rightarrow> entry" where
  "identifier_entry eid i = \<lparr>ent_eid = eid, ent_type = IDENTIFIER, ent_counter = 0, ent_identifier = i\<rparr>"

definition add_counter :: "sequence_id \<Rightarrow> string \<Rightarrow> u64 \<Rightarrow> sequence_id" where
  "add_counter s eid c = s @ [counter_entry eid c]"

definition add_identifier :: "sequence_id \<Rightarrow> string \<Rightarrow> string \<Rightarrow> sequence_id" where
  "add_identifier s eid i = s @ [identifier_entry eid i]"

fun get_entry :: "sequence_id \<Rightarrow> string \<Rightarrow> entry" where
  "get_entry [] eid = null_entry"
| "get_entry (i # s) eid = (if ent_eid i = eid then i else get_entry s eid)"

definition get_counter :: "sequence_id \<Rightarrow> string \<Rightarrow> u64" where
  "get_counter s eid = ent_counter (get_entry s eid)"

definition get_identifier :: "sequence_id \<Rightarrow> string \<Rightarrow> string" where
  "get_identifier s eid = ent_identifier (get_entry s eid)"

datatype comp_t = LT | EQ | GT | NEQ | ILL

fun comp_val :: "comp_t \<Rightarrow> int" where
  "comp_val LT = -1"
| "comp_val EQ = 0"
| "comp_val GT = 1"
| "comp_val NEQ = 2"
| "comp_val ILL = 999"

definition compare_entries :: "entry \<Rightarrow> entry \<Rightarrow> comp_t" where
  "compare_entries left right =
     (if ent_type left = COUNTER \<or> ent_type left = EMPTY
      then (if ent_type right = IDENTIFIER then NEQ
            else if ent_counter left = ent_counter right then EQ
            else if ent_counter left < ent_counter right then LT
            else GT)
      else (if ent_type right \<noteq> IDENTIFIER then NEQ
            else if ent_identifier left \<noteq> ent_identifier right then NEQ
            else EQ))"

text \<open>
  The table \<open>states[4][3]\<close> as it lies in memory, row after row. The code indexes it by
  \<open>[cur + 1][comp + 1]\<close>, and \<open>comp\<close> may be \<open>NEQ\<close>, whose column is one past the end of a
  row: the read then yields the first element of the next row. A read outside the twelve
  elements is \<open>Panic\<close>.
\<close>

definition states :: "comp_t list" where
  "states =
    [LT,  LT,  NEQ,
     LT,  EQ,  GT,
     NEQ, GT,  GT,
     NEQ, NEQ, NEQ]"

definition next_state :: "comp_t \<Rightarrow> comp_t \<Rightarrow> comp_t outcome" where
  "next_state cur cmp =
     (let i = (comp_val cur + 1) * 3 + (comp_val cmp + 1)
      in if 0 \<le> i \<and> nat i < length states then Done (states ! nat i) else Panic)"

text \<open>The loop of \<open>compare_one_way\<close>; the first argument is what is left to iterate over.\<close>

fun compare_loop :: "entry list \<Rightarrow> sequence_id \<Rightarrow> sequence_id \<Rightarrow> comp_t \<Rightarrow> comp_t outcome" where
  "compare_loop [] lv rv cur = Done cur"
| "compare_loop (i # is) lv rv cur =
     bind_outcome (next_state cur (compare_entries (get_entry lv (ent_eid i)) (get_entry rv (ent_eid i))))
       (\<lambda>cur'. if cur' = NEQ then Done NEQ else compare_loop is lv rv cur')"

definition compare_one_way :: "sequence_id \<Rightarrow> sequence_id \<Rightarrow> comp_t \<Rightarrow> comp_t outcome" where
  "compare_one_way lv rv cur = compare_loop lv lv rv cur"

fun invert :: "comp_t \<Rightarrow> comp_t outcome" where
  "invert LT = Done GT"
| "invert GT = Done LT"
| "invert EQ = Done EQ"
| "invert NEQ = Panic"
| "invert ILL = Panic"

definition compare :: "sequence_id \<Rightarrow> sequence_id \<Rightarrow> comp_t outcome" where
  "compare s other =
     (if s = [] \<and> other = [] then Done EQ
      else bind_outcome (compare_one_way other s EQ)
        (\<lambda>cur. assert_that (cur \<noteq> ILL)
           (if cur \<noteq> NEQ
            then bind_outcome (invert cur) (\<lambda>cur'. compare_one_way s other cur')
            else Done cur)))"

text \<open>
  One round of the outer loop of \<open>update\<close>: the first entry with the same identifier takes
  the larger counter or the other identifier string; without one, the entry is appended.
\<close>

fun update_entry :: "entry \<Rightarrow> sequence_id \<Rightarrow> sequence_id outcome" where
  "update_entry other [] =
     (case ent_type other of
        COUNTER \<Rightarrow> Done (add_counter [] (ent_eid other) (ent_counter other))
      | IDENTIFIER \<Rightarrow> Done (add_identifier [] (ent_eid other) (ent_identifier other))
      | EMPTY \<Rightarrow> Panic)"
| "update_entry other (my # s) =
     (if ent_eid other = ent_eid my
      then (if ent_type other \<noteq> ent_type my then Panic
            else let my1 = (if ent_type other = COUNTER \<and> ent_counter other > ent_counter my
                            then my\<lparr>ent_counter := ent_counter other\<rparr> else my);
                     my2 = (if ent_type other = IDENTIFIER \<and> ent_identifier other \<noteq> ent_identifier my1
                            then my1\<lparr>ent_identifier := ent_identifier other\<rparr> else my1)
                 in Done (my2 # s))
      else bind_outcome (update_entry other s) (\<lambda>s'. Done (my # s')))"

fun update :: "sequence_id \<Rightarrow> sequence_id \<Rightarrow> sequence_id outcome" where
  "update s [] = Done s"
| "update s (e # other) = bind_outcome (update_entry e s) (\<lambda>s'. update s' other)"

text \<open>The comparison operators of the header.\<close>

definition seq_lt :: "sequence_id \<Rightarrow> sequence_id \<Rightarrow> bool outcome" where
  "seq_lt s v = bind_outcome (compare s v) (\<lambda>c. Done (c = LT))"

definition seq_gt :: "sequence_id \<Rightarrow> sequence_id \<Rightarrow> bool outcome" where
  "seq_gt s v = bind_outcome (compare s v) (\<lambda>c. Done (c = GT))"

definition seq_eq :: "sequence_id \<Rightarrow> sequence_id \<Rightarrow> bool outcome" where
  "seq_eq s v = bind_outcome (compare s v) (\<lambda>c. Done (c = EQ))"

definition seq_neq :: "sequence_id \<Rightarrow> sequence_id \<Rightarrow> bool outcome" where
  "seq_neq s v = bind_outcome (compare s v) (\<lambda>c. Done (c = NEQ))"

definition seq_le :: "sequence_id \<Rightarrow> sequence_id \<Rightarrow> bool outcome" where
  "seq_le s v = bind_outcome (compare s v) (\<lambda>cmp. Done (cmp = LT \<or> cmp = EQ))"

definition seq_ge :: "sequence_id \<Rightarrow> sequence_id \<Rightarrow> bool outcome" where
  "seq_ge s v = bind_outcome (compare s v) (\<lambda>cmp. Done (cmp = GT \<or> cmp = EQ))"

section \<open>Counter vectors\<close>

text \<open>
  A vector of counters stands for a function from endpoints to numbers that is zero
  almost everywhere; the promise of the class is the pointwise order on those functions.
\<close>

definition counters_only :: "sequence_id \<Rightarrow> bool" where
  "counters_only s \<longleftrightarrow> list_all (\<lambda>e. ent_type e = COUNTER) s"

definition comp_spec :: "('e \<Rightarrow> 'v::linorder) \<Rightarrow> ('e \<Rightarrow> 'v) \<Rightarrow> comp_t" where
  "comp_spec f g =
     (if f = g then EQ
      else if \<forall>e. f e \<le> g e then LT
      else if \<forall>e. g e \<le> f e then GT
      else NEQ)"

lemma counters_only_simps [simp]:
  "counters_only []"
  "counters_only (e # s) \<longleftrightarrow> ent_type e = COUNTER \<and> counters_only s"
  by (simp_all add: counters_only_def)

lemma get_entry_type:
  "counters_only s \<Longrightarrow> ent_type (get_entry s e) = COUNTER \<or> ent_type (get_entry s e) = EMPTY"
  by (induction s) (auto simp: null_entry_def)

lemma get_counter_simps [simp]:
  "get_counter [] e = 0"
  "get_counter (i # s) e = (if ent_eid i = e then ent_counter i else get_counter s e)"
  by (simp_all add: get_counter_def null_entry_def)

lemma get_counter_notin: "e \<notin> ent_eid ` set s \<Longrightarrow> get_counter s e = 0"
  by (induction s) auto

lemma compare_entries_counters:
  "counters_only a \<Longrightarrow> counters_only b \<Longrightarrow>
   compare_entries (get_entry a e) (get_entry b e) =
     (if get_counter a e = get_counter b e then EQ
      else if get_counter a e < get_counter b e then LT else GT)"
  using get_entry_type [of a e] get_entry_type [of b e]
  by (auto simp: compare_entries_def get_counter_def)

text \<open>The table on its nine proper entries: \<open>LT\<close> and \<open>GT\<close> clash, \<open>EQ\<close> is neutral.\<close>

lemma next_state_proper [simp]:
  "next_state LT LT = Done LT" "next_state LT EQ = Done LT" "next_state LT GT = Done NEQ"
  "next_state EQ LT = Done LT" "next_state EQ EQ = Done EQ" "next_state EQ GT = Done GT"
  "next_state GT LT = Done NEQ" "next_state GT EQ = Done GT" "next_state GT GT = Done GT"
  by (simp_all add: next_state_def states_def numeral_eq_Suc)

text \<open>The reads past the end of a row: from \<open>LT\<close> the clash is lost.\<close>

lemma next_state_overrun [simp]:
  "next_state LT NEQ = Done LT" "next_state EQ NEQ = Done NEQ" "next_state GT NEQ = Done NEQ"
  by (simp_all add: next_state_def states_def numeral_eq_Suc)

text \<open>What has been seen so far: some entry less, some entry greater.\<close>

definition verdict :: "bool \<Rightarrow> bool \<Rightarrow> comp_t" where
  "verdict lt gt = (if lt \<and> gt then NEQ else if lt then LT else if gt then GT else EQ)"

lemma verdict_simps [simp]:
  "verdict False False = EQ" "verdict True False = LT"
  "verdict False True = GT" "verdict True True = NEQ"
  by (simp_all add: verdict_def)

lemma verdict_eq_NEQ [simp]: "verdict lt gt = NEQ \<longleftrightarrow> lt \<and> gt"
  by (simp add: verdict_def)

lemma verdict_neq_ILL [simp]: "verdict lt gt \<noteq> ILL"
  by (simp add: verdict_def)

lemma next_state_verdict:
  "\<not> (lt \<and> gt) \<Longrightarrow>
   next_state (verdict lt gt) (if x = y then EQ else if x < y then LT else GT)
     = Done (verdict (lt \<or> x < y) (gt \<or> y < (x :: u64)))"
  by (cases lt; cases gt; cases x y rule: linorder_cases) (auto simp: verdict_def dest: less_asym)

lemma compare_loop_counters:
  assumes "counters_only lv" and "counters_only rv" and "\<not> (lt \<and> gt)"
  shows "compare_loop xs lv rv (verdict lt gt) =
    Done (verdict (lt \<or> (\<exists>e \<in> ent_eid ` set xs. get_counter lv e < get_counter rv e))
                  (gt \<or> (\<exists>e \<in> ent_eid ` set xs. get_counter rv e < get_counter lv e)))"
  using assms(3)
proof (induction xs arbitrary: lt gt)
  case (Cons i xs)
  let ?x = "get_counter lv (ent_eid i)" and ?y = "get_counter rv (ent_eid i)"
  have step: "next_state (verdict lt gt) (compare_entries (get_entry lv (ent_eid i)) (get_entry rv (ent_eid i)))
      = Done (verdict (lt \<or> ?x < ?y) (gt \<or> ?y < ?x))"
    using next_state_verdict [OF Cons.prems] assms(1,2) by (simp add: compare_entries_counters)
  show ?case
    by (cases "(lt \<or> ?x < ?y) \<and> (gt \<or> ?y < ?x)") (auto simp: step Cons.IH)
qed simp

lemma invert_verdict: "\<not> (lt \<and> gt) \<Longrightarrow> invert (verdict lt gt) = Done (verdict gt lt)"
  by (cases lt; cases gt) auto

lemma comp_spec_verdict:
  "comp_spec f g = verdict (\<exists>e. f e < g e) (\<exists>e. g e < f e)"
proof -
  have "f = g \<longleftrightarrow> (\<forall>e. f e \<le> g e) \<and> (\<forall>e. g e \<le> f e)"
    by (auto simp: fun_eq_iff intro: antisym)
  then show ?thesis by (auto simp: comp_spec_def verdict_def not_less [symmetric])
qed

lemma get_counter_differ:
  "get_counter a e \<noteq> get_counter b e \<Longrightarrow> e \<in> ent_eid ` set a \<or> e \<in> ent_eid ` set b"
  by (metis get_counter_notin)

lemma bex_support:
  "(\<And>e. P e \<Longrightarrow> e \<in> A \<or> e \<in> B) \<Longrightarrow> ((\<exists>e \<in> A. P e) \<or> (\<exists>e \<in> B. P e)) = (\<exists>e. P e)"
  by blast

lemma compare_counters:
  assumes "counters_only a" and "counters_only b"
  shows "compare a b = Done (comp_spec (get_counter a) (get_counter b))"
proof -
  let ?lt = "\<lambda>s. \<exists>e \<in> ent_eid ` set s. get_counter a e < get_counter b e"
  let ?gt = "\<lambda>s. \<exists>e \<in> ent_eid ` set s. get_counter b e < get_counter a e"
  have total: "(?lt a \<or> ?lt b) = (\<exists>e. get_counter a e < get_counter b e)"
    "(?gt a \<or> ?gt b) = (\<exists>e. get_counter b e < get_counter a e)"
    by (rule bex_support, rule get_counter_differ, simp add: less_imp_neq less_imp_neq [symmetric])+
  have one: "compare_one_way b a EQ = Done (verdict (?gt b) (?lt b))"
    using compare_loop_counters [OF assms(2,1), of False False b] by (simp add: compare_one_way_def)
  have two: "compare_one_way a b (verdict (?lt b) (?gt b)) = Done (verdict (?lt b \<or> ?lt a) (?gt b \<or> ?gt a))"
    if "\<not> (?lt b \<and> ?gt b)"
    using compare_loop_counters [OF assms that, of a] by (simp add: compare_one_way_def)
  show ?thesis
  proof (cases "?lt b \<and> ?gt b")
    case True
    then have "b \<noteq> []" by auto
    moreover have "verdict (?gt b) (?lt b) = NEQ" using True by simp
    moreover have "comp_spec (get_counter a) (get_counter b) = NEQ"
      unfolding comp_spec_verdict total [symmetric] using True by simp
    ultimately show ?thesis using one by (simp add: compare_def)
  next
    case False
    have "compare a b = Done (verdict (?lt b \<or> ?lt a) (?gt b \<or> ?gt a))"
    proof (cases "a = [] \<and> b = []")
      case nonempty: False
      have "verdict (?gt b) (?lt b) \<noteq> NEQ" using False by auto
      moreover have "invert (verdict (?gt b) (?lt b)) = Done (verdict (?lt b) (?gt b))"
        using False by (intro invert_verdict) auto
      ultimately show ?thesis
        using nonempty unfolding compare_def one by (simp only: two [OF False] bind_outcome.simps assert_that_def verdict_neq_ILL if_True if_False not_False_eq_True simp_thms)
    qed (simp add: compare_def)
    then show ?thesis by (simp only: comp_spec_verdict total [symmetric] disj_commute)
  qed
qed

section \<open>The update\<close>

lemma update_entry_counter:
  assumes "ent_type e = COUNTER" and "counters_only s"
  shows "\<exists>s'. update_entry e s = Done s' \<and> counters_only s' \<and>
    get_counter s' = (get_counter s)(ent_eid e := max (get_counter s (ent_eid e)) (ent_counter e))"
  using assms(2)
proof (induction s)
  case Nil
  then show ?case
    using assms(1) by (auto simp: add_counter_def counter_entry_def fun_eq_iff)
next
  case (Cons my s)
  show ?case
  proof (cases "ent_eid e = ent_eid my")
    case True
    then show ?thesis
      using assms(1) Cons.prems by (auto simp: Let_def fun_eq_iff max_def not_less)
  next
    case False
    then show ?thesis using Cons by (auto simp: fun_eq_iff)
  qed
qed

lemma update_counters:
  assumes "counters_only s" and "counters_only other" and "distinct (map ent_eid other)"
  shows "\<exists>s'. update s other = Done s' \<and> counters_only s' \<and>
    get_counter s' = (\<lambda>e. max (get_counter s e) (get_counter other e))"
  using assms
proof (induction other arbitrary: s)
  case Nil
  then show ?case by (auto simp: max_def)
next
  case (Cons e other)
  obtain t where t: "update_entry e s = Done t" "counters_only t"
    "get_counter t = (get_counter s)(ent_eid e := max (get_counter s (ent_eid e)) (ent_counter e))"
    using update_entry_counter [of e s] Cons.prems by auto
  obtain s' where s': "update t other = Done s'" "counters_only s'"
    "get_counter s' = (\<lambda>x. max (get_counter t x) (get_counter other x))"
    using Cons.IH [of t] t(2) Cons.prems by auto
  have "get_counter other (ent_eid e) = 0"
    using Cons.prems(3) by (intro get_counter_notin) auto
  then have "get_counter s' = (\<lambda>x. max (get_counter s x) (get_counter (e # other) x))"
    by (auto simp: s'(3) t(3) fun_eq_iff max_def)
  then show ?case using t(1) s' by auto
qed

text \<open>\<open>\<le>\<close> of the class is the pointwise order of the counters.\<close>

lemma seq_le_counters:
  "counters_only a \<Longrightarrow> counters_only b \<Longrightarrow>
   seq_le a b = Done (\<forall>e. get_counter a e \<le> get_counter b e)"
  by (auto simp: seq_le_def compare_counters comp_spec_def)

section \<open>Properties\<close>

text \<open>
  C5. On vectors of counters \<open>compare\<close> aborts nowhere and decides the version-vector
  order: equal where every endpoint has the same counter (an absent one counts as zero),
  less or greater where one vector is below the other everywhere, incomparable otherwise.
\<close>

theorem compare_version_vectors:
  assumes "counters_only a" and "counters_only b"
  shows "compare a b = Done (comp_spec (get_counter a) (get_counter b))"
  using assms by (rule compare_counters)

theorem compare_version_vectors_witness:
  "compare [counter_entry ''dtn:a'' 1] [counter_entry ''dtn:b'' 2] =
   Done (comp_spec (get_counter [counter_entry ''dtn:a'' 1]) (get_counter [counter_entry ''dtn:b'' 2]))"
  by (rule compare_version_vectors) (simp_all add: counter_entry_def)

text \<open>
  C6. \<open>update\<close> computes the least upper bound: for vectors of counters, where the other
  one names each endpoint once, no assertion fails, the result is above both, and any
  vector above both is above the result.
\<close>

theorem update_least_upper_bound:
  assumes "counters_only s" and "counters_only v" and "distinct (map ent_eid v)"
  shows "\<exists>s'. update s v = Done s' \<and> seq_le s s' = Done True \<and> seq_le v s' = Done True
    \<and> (\<forall>u. counters_only u \<longrightarrow> seq_le s u = Done True \<longrightarrow> seq_le v u = Done True
          \<longrightarrow> seq_le s' u = Done True)"
proof -
  obtain s' where s': "update s v = Done s'" "counters_only s'"
      "get_counter s' = (\<lambda>e. max (get_counter s e) (get_counter v e))"
    using update_counters [OF assms] by blast
  then show ?thesis using assms(1,2) by (auto simp: seq_le_counters)
qed

theorem update_least_upper_bound_witness:
  "\<exists>s'. update [counter_entry ''dtn:a'' 1] [counter_entry ''dtn:a'' 4, counter_entry ''dtn:b'' 2] = Done s'
    \<and> seq_le [counter_entry ''dtn:a'' 1] s' = Done True"
  using update_least_upper_bound
    [of "[counter_entry ''dtn:a'' 1]" "[counter_entry ''dtn:a'' 4, counter_entry ''dtn:b'' 2]"]
  by (simp add: counter_entry_def)

text \<open>
  With identifiers in the vectors the verdict depends on the order of the entries: the
  column of \<open>NEQ\<close> does not exist in the table, and from state \<open>LT\<close> the read past the row
  yields \<open>LT\<close>. A vector that lacks an identifier the other one has is reported greater
  when a smaller counter comes first, and incomparable when it comes last.
\<close>

theorem compare_depends_on_order:
  "compare [counter_entry ''dtn:a'' 5] [counter_entry ''dtn:a'' 3, identifier_entry ''dtn:b'' ''x''] = Done GT
   \<and> compare [counter_entry ''dtn:a'' 5] [identifier_entry ''dtn:b'' ''x'', counter_entry ''dtn:a'' 3] = Done NEQ"
  by (simp add: compare_def compare_one_way_def compare_entries_def counter_entry_def
      identifier_entry_def null_entry_def)

end
