(* ===== verification/Oasys_Uri.thy ===== *)
theory Oasys_Uri
  imports Dtn_Prelude
begin

text \<open>
  The URI class of \<open>oasys/util/URI.cc\<close> that endpoint identifiers are made of: a string with
  an offset and a length for each component, the parser that sets them, the validation of
  each component and the normalisation, which rewrites the string through the setters.
  Offsets, lengths and the \<open>int\<close> differences of the setters are unbounded numbers: the
  strings are far shorter than the 32-bit range. \<open>std::string\<close> is \<open>string\<close>.
\<close>

section \<open>Characters and string operations\<close>

definition ord :: "char \<Rightarrow> nat" where
  "ord c = of_char c"

definition isdigit :: "char \<Rightarrow> bool" where
  "isdigit c \<longleftrightarrow> 48 \<le> ord c \<and> ord c \<le> 57"

definition isupper :: "char \<Rightarrow> bool" where
  "isupper c \<longleftrightarrow> 65 \<le> ord c \<and> ord c \<le> 90"

definition islower :: "char \<Rightarrow> bool" where
  "islower c \<longleftrightarrow> 97 \<le> ord c \<and> ord c \<le> 122"

definition isalpha :: "char \<Rightarrow> bool" where
  "isalpha c \<longleftrightarrow> isupper c \<or> islower c"

definition isalnum :: "char \<Rightarrow> bool" where
  "isalnum c \<longleftrightarrow> isalpha c \<or> isdigit c"

definition isspace :: "char \<Rightarrow> bool" where
  "isspace c \<longleftrightarrow> ord c = 32 \<or> (9 \<le> ord c \<and> ord c \<le> 13)"

definition tolower :: "char \<Rightarrow> char" where
  "tolower c = (if isupper c then char_of (ord c + 32) else c)"

definition toupper :: "char \<Rightarrow> char" where
  "toupper c = (if islower c then char_of (ord c - 32) else c)"

definition is_unreserved :: "char \<Rightarrow> bool" where
  "is_unreserved c \<longleftrightarrow> isalnum c \<or> c = CHR ''-'' \<or> c = CHR ''.'' \<or> c = CHR ''_'' \<or> c = CHR ''~''"

definition is_sub_delim :: "char \<Rightarrow> bool" where
  "is_sub_delim c \<longleftrightarrow> c = CHR ''!'' \<or> c = CHR ''$'' \<or> c = CHR ''&'' \<or> c = CHR 0x27
     \<or> c = CHR ''('' \<or> c = CHR '')'' \<or> c = CHR ''*'' \<or> c = CHR ''+'' \<or> c = CHR '',''
     \<or> c = CHR '';'' \<or> c = CHR ''=''"

definition is_hexdig :: "char \<Rightarrow> bool" where
  "is_hexdig c \<longleftrightarrow> isdigit c
     \<or> c = CHR ''a'' \<or> c = CHR ''A'' \<or> c = CHR ''b'' \<or> c = CHR ''B'' \<or> c = CHR ''c'' \<or> c = CHR ''C''
     \<or> c = CHR ''d'' \<or> c = CHR ''D'' \<or> c = CHR ''e'' \<or> c = CHR ''E'' \<or> c = CHR ''f'' \<or> c = CHR ''F''"

text \<open>\<open>substr\<close>, \<open>replace\<close>, and the searches from a position.\<close>

definition substr :: "string \<Rightarrow> nat \<Rightarrow> nat \<Rightarrow> string" where
  "substr s off len = take len (drop off s)"

definition replace :: "string \<Rightarrow> nat \<Rightarrow> nat \<Rightarrow> string \<Rightarrow> string" where
  "replace s off len t = take off s @ t @ drop (off + len) s"

fun find_index :: "(char \<Rightarrow> bool) \<Rightarrow> string \<Rightarrow> nat option" where
  "find_index P [] = None"
| "find_index P (c # s) = (if P c then Some 0 else map_option Suc (find_index P s))"

definition find_from :: "(char \<Rightarrow> bool) \<Rightarrow> string \<Rightarrow> nat \<Rightarrow> nat option" where
  "find_from P s pos = map_option (\<lambda>i. pos + i) (find_index P (drop pos s))"

definition end_or :: "nat option \<Rightarrow> nat \<Rightarrow> nat" where
  "end_or r n = (case r of None \<Rightarrow> n | Some i \<Rightarrow> i)"

text \<open>
  The decimal value of a leading run of digits, and \<open>atoi\<close>: leading white space, a sign,
  and as many digits as there are.
\<close>

fun digits_val :: "nat \<Rightarrow> string \<Rightarrow> nat" where
  "digits_val acc [] = acc"
| "digits_val acc (c # s) = (if isdigit c then digits_val (acc * 10 + (ord c - 48)) s else acc)"

definition atoi :: "string \<Rightarrow> int" where
  "atoi s =
     (case dropWhile isspace s of
        [] \<Rightarrow> 0
      | c # r \<Rightarrow> (if c = CHR ''-'' then - int (digits_val 0 r)
                  else if c = CHR ''+'' then int (digits_val 0 r)
                  else int (digits_val 0 (c # r))))"

section \<open>The URI object\<close>

datatype uri_parse_err =
    URI_PARSE_OK | URI_PARSE_NO_URI | URI_PARSE_NO_SEP | URI_PARSE_BAD_PERCENT
  | URI_PARSE_BAD_IP_LITERAL | URI_PARSE_BAD_IPV6 | URI_PARSE_BAD_SCHEME
  | URI_PARSE_BAD_USERINFO | URI_PARSE_BAD_HOST | URI_PARSE_BAD_PORT | URI_PARSE_BAD_PATH
  | URI_PARSE_BAD_QUERY | URI_PARSE_BAD_FRAGMENT | URI_PARSE_NO_PARAM_VAL

record component =
  c_offset :: nat
  c_length :: nat

definition no_component :: component where
  "no_component = \<lparr>c_offset = 0, c_length = 0\<rparr>"

record uri =
  uri_str :: string
  scheme_c :: component
  ssp_c :: component
  authority_c :: component
  path_c :: component
  query_c :: component
  fragment_c :: component
  userinfo_c :: component
  host_c :: component
  port_c :: component
  port_num :: u32
  parse_err :: uri_parse_err
  validate_flag :: bool
  normalize_flag :: bool

definition new_uri :: "string \<Rightarrow> bool \<Rightarrow> bool \<Rightarrow> uri" where
  "new_uri s v n = \<lparr>uri_str = s, scheme_c = no_component, ssp_c = no_component,
     authority_c = no_component, path_c = no_component, query_c = no_component,
     fragment_c = no_component, userinfo_c = no_component, host_c = no_component,
     port_c = no_component, port_num = 0, parse_err = URI_PARSE_NO_URI,
     validate_flag = v, normalize_flag = n\<rparr>"

definition uri_clear :: "uri \<Rightarrow> uri" where
  "uri_clear u = new_uri (uri_str u) (validate_flag u) (normalize_flag u)"

definition uri_valid :: "uri \<Rightarrow> bool" where
  "uri_valid u \<longleftrightarrow> parse_err u = URI_PARSE_OK"

definition get_component :: "uri \<Rightarrow> component \<Rightarrow> string" where
  "get_component u c = substr (uri_str u) (c_offset c) (c_length c)"

definition uri_scheme :: "uri \<Rightarrow> string" where "uri_scheme u = get_component u (scheme_c u)"
definition uri_ssp :: "uri \<Rightarrow> string" where "uri_ssp u = get_component u (ssp_c u)"
definition uri_authority :: "uri \<Rightarrow> string" where "uri_authority u = get_component u (authority_c u)"
definition uri_userinfo :: "uri \<Rightarrow> string" where "uri_userinfo u = get_component u (userinfo_c u)"
definition uri_host :: "uri \<Rightarrow> string" where "uri_host u = get_component u (host_c u)"
definition uri_port :: "uri \<Rightarrow> string" where "uri_port u = get_component u (port_c u)"
definition uri_path :: "uri \<Rightarrow> string" where "uri_path u = get_component u (path_c u)"
definition uri_query :: "uri \<Rightarrow> string" where "uri_query u = get_component u (query_c u)"
definition uri_fragment :: "uri \<Rightarrow> string" where "uri_fragment u = get_component u (fragment_c u)"

section \<open>Parsing\<close>

definition parse_generic_ssp :: "uri \<Rightarrow> uri outcome" where
  "parse_generic_ssp u =
     (if c_length (ssp_c u) = 0
      then Done (u\<lparr>authority_c := ssp_c u, path_c := ssp_c u, query_c := ssp_c u,
                   fragment_c := ssp_c u, userinfo_c := ssp_c u, host_c := ssp_c u, port_c := ssp_c u\<rparr>)
      else
        let s = uri_str u; n = length s; pos0 = c_offset (ssp_c u);
            has_authority = (c_length (ssp_c u) \<ge> 2 \<and> s ! pos0 = CHR ''/'' \<and> s ! (pos0 + 1) = CHR ''/'');
            authority_end = (if has_authority
              then end_or (find_from (\<lambda>c. c \<in> set ''/?#'') s (pos0 + 2)) n else pos0);
            pos1 = authority_end;
            path_end = (if pos1 \<noteq> n then end_or (find_from (\<lambda>c. c \<in> set ''?#'') s pos1) n else pos1);
            pos2 = path_end;
            has_query = (pos2 \<noteq> n \<and> s ! pos2 = CHR ''?'');
            query_end = (if has_query then end_or (find_from (\<lambda>c. c = CHR ''#'') s pos2) n else pos2);
            pos3 = query_end;
            has_fragment = (pos3 \<noteq> n \<and> s ! pos3 = CHR ''#'');
            pos4 = (if has_fragment then n else pos3)
        in assert_that (has_authority \<longrightarrow> authority_end - pos0 > 0)
          (assert_that (has_query \<longrightarrow> query_end - pos2 > 0)
          (assert_that (has_fragment \<longrightarrow> n - pos3 > 0)
          (assert_that (pos4 = n)
            (Done (u\<lparr>authority_c := \<lparr>c_offset = pos0, c_length = authority_end - pos0\<rparr>,
                     path_c := \<lparr>c_offset = pos1, c_length = path_end - pos1\<rparr>,
                     query_c := \<lparr>c_offset = pos2, c_length = query_end - pos2\<rparr>,
                     fragment_c := \<lparr>c_offset = pos3, c_length = pos4 - pos3\<rparr>\<rparr>))))))"

definition parse_authority :: "uri \<Rightarrow> (uri_parse_err \<times> uri) outcome" where
  "parse_authority u =
     (if c_length (authority_c u) = 0
      then Done (URI_PARSE_OK, u\<lparr>userinfo_c := authority_c u, host_c := authority_c u, port_c := authority_c u\<rparr>)
      else
        let a = uri_authority u; n = length a; off = c_offset (authority_c u) in
        assert_that (n \<ge> 2) (assert_that (take 2 a = ''//'')
         (let userinfo_end = find_from (\<lambda>c. c = CHR ''@'') a 2;
              userinfo_len = (case userinfo_end of None \<Rightarrow> 0 | Some e \<Rightarrow> (e + 1) - 2);
              pos1 = 2 + userinfo_len;
              u1 = u\<lparr>userinfo_c := \<lparr>c_offset = off + 2, c_length = userinfo_len\<rparr>\<rparr>;
              host_end = (if pos1 = n then Some n
                          else if a ! pos1 = CHR ''[''
                          then map_option Suc (find_from (\<lambda>c. c = CHR '']'') a pos1)
                          else Some (end_or (find_from (\<lambda>c. c = CHR '':'') a pos1) n))
          in case host_end of
               None \<Rightarrow> Done (URI_PARSE_BAD_IP_LITERAL, u1)
             | Some pos2 \<Rightarrow>
                 let u2 = u1\<lparr>host_c := \<lparr>c_offset = off + pos1, c_length = pos2 - pos1\<rparr>\<rparr>
                 in if pos2 \<noteq> n
                    then (if a ! pos2 \<noteq> CHR '':'' then Done (URI_PARSE_BAD_PORT, u2)
                          else let port_start = pos2 + 1; port_len = n - port_start;
                                   u3 = u2\<lparr>port_c := \<lparr>c_offset = off + port_start, c_length = port_len\<rparr>\<rparr>
                               in Done (URI_PARSE_OK,
                                    if port_len > 0 then u3\<lparr>port_num := of_int (atoi (uri_port u3))\<rparr> else u3))
                    else Done (URI_PARSE_OK, u2\<lparr>port_c := \<lparr>c_offset = off + pos2, c_length = 0\<rparr>\<rparr>))))"

section \<open>Validation\<close>

text \<open>
  The character loop shared by the validators: allowed characters pass, a percent sign must
  be followed by two hexadecimal digits, anything else is the component's error.
\<close>

fun check_chars :: "(char \<Rightarrow> bool) \<Rightarrow> uri_parse_err \<Rightarrow> string \<Rightarrow> uri_parse_err" where
  "check_chars allowed err [] = URI_PARSE_OK"
| "check_chars allowed err (c # s) =
     (if allowed c then check_chars allowed err s
      else if c = CHR ''%''
      then (case s of
              a # b # r \<Rightarrow> (if \<not> is_hexdig a \<or> \<not> is_hexdig b then URI_PARSE_BAD_PERCENT
                           else check_chars allowed err r)
            | _ \<Rightarrow> URI_PARSE_BAD_PERCENT)
      else err)"

definition userinfo_char :: "char \<Rightarrow> bool" where
  "userinfo_char c \<longleftrightarrow> is_unreserved c \<or> is_sub_delim c \<or> c = CHR '':''"

definition host_char :: "char \<Rightarrow> bool" where
  "host_char c \<longleftrightarrow> is_unreserved c \<or> is_sub_delim c"

definition path_char :: "char \<Rightarrow> bool" where
  "path_char c \<longleftrightarrow> is_unreserved c \<or> is_sub_delim c \<or> c = CHR ''/'' \<or> c = CHR '':'' \<or> c = CHR ''@''"

definition query_char :: "char \<Rightarrow> bool" where
  "query_char c \<longleftrightarrow> is_unreserved c \<or> is_sub_delim c \<or> c = CHR '':'' \<or> c = CHR ''@''
     \<or> c = CHR ''/'' \<or> c = CHR ''?''"

definition validate_scheme_name :: "uri \<Rightarrow> uri_parse_err" where
  "validate_scheme_name u =
     (case uri_scheme u of
        [] \<Rightarrow> URI_PARSE_BAD_SCHEME
      | c # s \<Rightarrow>
          (if \<not> isalpha c then URI_PARSE_BAD_SCHEME
           else if list_all (\<lambda>c. isalnum c \<or> c = CHR ''+'' \<or> c = CHR ''-'' \<or> c = CHR ''.'') s
           then URI_PARSE_OK else URI_PARSE_BAD_SCHEME))"

definition validate_userinfo :: "uri \<Rightarrow> uri_parse_err outcome" where
  "validate_userinfo u =
     (if c_length (userinfo_c u) = 0 then Done URI_PARSE_OK
      else let s = uri_userinfo u
           in assert_that (s \<noteq> [] \<and> last s = CHR ''@'')
                (Done (check_chars userinfo_char URI_PARSE_BAD_USERINFO (butlast s))))"

text \<open>The bracketed host: an address of a future version, or an IPv6 address.\<close>

definition validate_ipvfuture :: "string \<Rightarrow> uri_parse_err" where
  "validate_ipvfuture s =
     (case s of
        [] \<Rightarrow> URI_PARSE_BAD_IP_LITERAL
      | h # r \<Rightarrow>
          (if \<not> is_hexdig h then URI_PARSE_BAD_IP_LITERAL
           else (case dropWhile is_hexdig r of
                   [] \<Rightarrow> URI_PARSE_BAD_IP_LITERAL
                 | d # r' \<Rightarrow>
                     (if d \<noteq> CHR ''.'' then URI_PARSE_BAD_IP_LITERAL
                      else if r' = [] then URI_PARSE_BAD_IP_LITERAL
                      else if list_all userinfo_char r' then URI_PARSE_OK
                      else URI_PARSE_BAD_IP_LITERAL))))"

fun count_prefix :: "(char \<Rightarrow> bool) \<Rightarrow> nat \<Rightarrow> string \<Rightarrow> nat" where
  "count_prefix P 0 s = 0"
| "count_prefix P (Suc n) [] = 0"
| "count_prefix P (Suc n) (c # s) = (if P c then Suc (count_prefix P n s) else 0)"

text \<open>
  The loop over the hexadecimal pieces. \<open>rest\<close> starts at the current position; the result
  is what remains, the start of the last piece, the number of pieces and whether a double
  colon was seen.
\<close>

function ipv6_pieces :: "string \<Rightarrow> int \<Rightarrow> bool \<Rightarrow> bool \<Rightarrow> (string \<times> string \<times> int \<times> bool) option" where
  "ipv6_pieces rest pieces double_colon prev_double_colon =
     (let num = count_prefix is_hexdig 4 rest; r = drop num rest; pieces1 = pieces + 1
      in case r of
           [] \<Rightarrow>
             (if num = 0
              then (if \<not> prev_double_colon then None else Some ([], rest, pieces1 - 1, double_colon))
              else Some ([], rest, pieces1, double_colon))
         | c # r' \<Rightarrow>
             (if c = CHR '':''
              then (if num = 0
                    then (if pieces1 = 1
                          then (case r' of
                                  [] \<Rightarrow> None
                                | c2 # r2 \<Rightarrow>
                                    (if c2 \<noteq> CHR '':'' then None
                                     else if double_colon then None
                                     else ipv6_pieces r2 pieces1 True True))
                          else if double_colon then None
                          else ipv6_pieces r' pieces1 True True)
                    else ipv6_pieces r' pieces1 double_colon False)
              else if c = CHR ''.''
              then (if num = 0 then None else Some (r, rest, pieces1 - 1, double_colon))
              else None))"
  by pat_completeness auto

lemma drop_eq_Cons_length: "drop n s = c # r \<Longrightarrow> length r < length s"
  by (metis Suc_le_eq length_Cons length_drop diff_le_self)

termination ipv6_pieces
  by (relation "measure (\<lambda>(rest, p, d, q). length rest)")
    (auto dest!: drop_eq_Cons_length [OF sym] Suc_lessD)

declare ipv6_pieces.simps [simp del]

text \<open>The trailing IPv4 part: \<open>k\<close> octets are still to come.\<close>

fun ipv4_octets :: "nat \<Rightarrow> string \<Rightarrow> bool" where
  "ipv4_octets 0 rest = False"
| "ipv4_octets (Suc k) rest =
     (let num = count_prefix isdigit 3 rest; digit = take num rest; r = drop num rest
      in if num = 0 then False
         else if num > 1 \<and> hd digit = CHR ''0'' then False
         else if atoi digit < 0 \<or> atoi digit > 255 then False
         else if k = 0 then r = []
         else (case r of [] \<Rightarrow> False | c # r' \<Rightarrow> c = CHR ''.'' \<and> ipv4_octets k r'))"

definition validate_ip_literal :: "string \<Rightarrow> uri_parse_err" where
  "validate_ip_literal host =
     (case host of
        [] \<Rightarrow> URI_PARSE_BAD_IP_LITERAL
      | c # s \<Rightarrow>
          (if c = CHR ''v'' \<or> c = CHR ''V'' then validate_ipvfuture s
           else (case ipv6_pieces host 0 False False of
                   None \<Rightarrow> URI_PARSE_BAD_IPV6
                 | Some (remaining, decimal, pieces, double_colon) \<Rightarrow>
                     (if remaining \<noteq> []
                         \<and> (pieces \<le> 0 \<or> (double_colon \<and> pieces > 6) \<or> (\<not> double_colon \<and> pieces \<noteq> 6))
                      then URI_PARSE_BAD_IPV6
                      else if remaining \<noteq> [] \<and> \<not> ipv4_octets 4 decimal then URI_PARSE_BAD_IPV6
                      else let pieces' = (if remaining \<noteq> [] then pieces + 2 else pieces)
                           in if pieces' \<le> 0 \<or> (double_colon \<and> pieces' > 8) \<or> (\<not> double_colon \<and> pieces' \<noteq> 8)
                              then URI_PARSE_BAD_IPV6 else URI_PARSE_OK))))"

definition validate_host :: "uri \<Rightarrow> uri_parse_err outcome" where
  "validate_host u =
     (let host = uri_host u
      in if host = [] then Done URI_PARSE_OK
         else if hd host = CHR ''[''
         then assert_that (last host = CHR '']'') (Done (validate_ip_literal (butlast (tl host))))
         else Done (check_chars host_char URI_PARSE_BAD_HOST host))"

definition validate_port :: "uri \<Rightarrow> uri_parse_err" where
  "validate_port u =
     (if c_length (port_c u) = 0 then URI_PARSE_OK
      else if list_all isdigit (uri_port u) then URI_PARSE_OK else URI_PARSE_BAD_PORT)"

definition validate_path :: "uri \<Rightarrow> uri_parse_err outcome" where
  "validate_path u =
     (if c_length (path_c u) = 0 then Done URI_PARSE_OK
      else let path = uri_path u
           in assert_that (c_length (authority_c u) \<noteq> 0 \<longrightarrow> hd path = CHR ''/'')
             (assert_that (c_length (authority_c u) = 0 \<and> length path \<ge> 2 \<longrightarrow> take 2 path \<noteq> ''//'')
               (Done (check_chars path_char URI_PARSE_BAD_PATH path))))"

definition validate_query :: "uri \<Rightarrow> uri_parse_err outcome" where
  "validate_query u =
     (if c_length (query_c u) = 0 then Done URI_PARSE_OK
      else let query = uri_query u
           in assert_that (hd query = CHR ''?'')
                (Done (check_chars query_char URI_PARSE_BAD_QUERY (tl query))))"

definition validate_fragment :: "uri \<Rightarrow> uri_parse_err outcome" where
  "validate_fragment u =
     (if c_length (fragment_c u) = 0 then Done URI_PARSE_OK
      else let fragment = uri_fragment u
           in assert_that (hd fragment = CHR ''#'')
                (Done (check_chars query_char URI_PARSE_BAD_FRAGMENT (tl fragment))))"

text \<open>\<open>validate\<close> stops at the first validator that does not return \<open>URI_PARSE_OK\<close>.\<close>

definition and_then :: "uri_parse_err outcome \<Rightarrow> uri_parse_err outcome \<Rightarrow> uri_parse_err outcome" where
  "and_then m k = bind_outcome m (\<lambda>err. if err \<noteq> URI_PARSE_OK then Done err else k)"

definition validate :: "uri \<Rightarrow> uri_parse_err outcome" where
  "validate u =
     and_then (Done (validate_scheme_name u))
    (and_then (validate_userinfo u)
    (and_then (validate_host u)
    (and_then (Done (validate_port u))
    (and_then (validate_path u)
    (and_then (validate_query u)
              (validate_fragment u))))))"

section \<open>Setters\<close>

definition adjust_offset :: "int \<Rightarrow> component \<Rightarrow> component outcome" where
  "adjust_offset diff c =
     (if c_offset c = 0 then Done c
      else if diff > 0 then Done (c\<lparr>c_offset := c_offset c + nat diff\<rparr>)
      else assert_that (c_offset c \<ge> nat (- diff)) (Done (c\<lparr>c_offset := c_offset c - nat (- diff)\<rparr>)))"

definition adjust_length :: "int \<Rightarrow> component \<Rightarrow> component outcome" where
  "adjust_length diff c =
     (if diff > 0 then Done (c\<lparr>c_length := c_length c + nat diff\<rparr>)
      else assert_that (c_length c \<ge> nat (- diff)) (Done (c\<lparr>c_length := c_length c - nat (- diff)\<rparr>)))"

text \<open>One call of \<open>adjust_offset\<close> or \<open>adjust_length\<close> on a member of the object.\<close>

definition on_component ::
    "(component \<Rightarrow> component outcome) \<Rightarrow> (uri \<Rightarrow> component) \<Rightarrow> ((component \<Rightarrow> component) \<Rightarrow> uri \<Rightarrow> uri)
      \<Rightarrow> uri outcome \<Rightarrow> uri outcome" where
  "on_component f get upd m =
     bind_outcome m (\<lambda>u. bind_outcome (f (get u)) (\<lambda>c. Done (upd (\<lambda>_. c) u)))"

text \<open>The replacement of a component's text with which every setter starts.\<close>

definition replace_component :: "uri \<Rightarrow> component \<Rightarrow> string \<Rightarrow> uri" where
  "replace_component u c t = u\<lparr>uri_str := replace (uri_str u) (c_offset c) (c_length c) t\<rparr>"

definition length_diff :: "string \<Rightarrow> component \<Rightarrow> int" where
  "length_diff t c = int (length t) - int (c_length c)"

definition set_scheme :: "string \<Rightarrow> uri \<Rightarrow> uri outcome" where
  "set_scheme t u = assert_that (parse_err u = URI_PARSE_OK)
     (let d = length_diff t (scheme_c u); u1 = replace_component u (scheme_c u) t
      in if d = 0 then Done u1
         else on_component (adjust_offset d) fragment_c fragment_c_update
             (on_component (adjust_offset d) query_c query_c_update
             (on_component (adjust_offset d) path_c path_c_update
             (on_component (adjust_offset d) port_c port_c_update
             (on_component (adjust_offset d) host_c host_c_update
             (on_component (adjust_offset d) userinfo_c userinfo_c_update
             (on_component (adjust_offset d) authority_c authority_c_update
             (on_component (adjust_offset d) ssp_c ssp_c_update
             (on_component (adjust_length d) scheme_c scheme_c_update (Done u1))))))))))"

definition set_userinfo :: "string \<Rightarrow> uri \<Rightarrow> uri outcome" where
  "set_userinfo t u = assert_that (parse_err u = URI_PARSE_OK)
     (let d = length_diff t (userinfo_c u); u1 = replace_component u (userinfo_c u) t
      in if d = 0 then Done u1
         else on_component (adjust_offset d) fragment_c fragment_c_update
             (on_component (adjust_offset d) query_c query_c_update
             (on_component (adjust_offset d) path_c path_c_update
             (on_component (adjust_offset d) port_c port_c_update
             (on_component (adjust_offset d) host_c host_c_update
             (on_component (adjust_length d) userinfo_c userinfo_c_update
             (on_component (adjust_length d) authority_c authority_c_update
             (on_component (adjust_length d) ssp_c ssp_c_update (Done u1)))))))))"

definition set_host :: "string \<Rightarrow> uri \<Rightarrow> uri outcome" where
  "set_host t u = assert_that (parse_err u = URI_PARSE_OK)
     (let d = length_diff t (host_c u); u1 = replace_component u (host_c u) t
      in if d = 0 then Done u1
         else on_component (adjust_offset d) fragment_c fragment_c_update
             (on_component (adjust_offset d) query_c query_c_update
             (on_component (adjust_offset d) path_c path_c_update
             (on_component (adjust_offset d) port_c port_c_update
             (on_component (adjust_length d) host_c host_c_update
             (on_component (adjust_length d) authority_c authority_c_update
             (on_component (adjust_length d) ssp_c ssp_c_update (Done u1))))))))"

definition set_port :: "string \<Rightarrow> uri \<Rightarrow> uri outcome" where
  "set_port t u = assert_that (parse_err u = URI_PARSE_OK)
     (let d = length_diff t (port_c u); u1 = replace_component u (port_c u) t
      in bind_outcome
          (if d = 0 then Done u1
           else on_component (adjust_offset d) fragment_c fragment_c_update
               (on_component (adjust_offset d) query_c query_c_update
               (on_component (adjust_offset d) path_c path_c_update
               (on_component (adjust_length d) port_c port_c_update
               (on_component (adjust_length d) authority_c authority_c_update
               (on_component (adjust_length d) ssp_c ssp_c_update (Done u1)))))))
          (\<lambda>u2. Done (u2\<lparr>port_num := of_int (atoi t)\<rparr>)))"

definition set_path :: "string \<Rightarrow> uri \<Rightarrow> uri outcome" where
  "set_path t u = assert_that (parse_err u = URI_PARSE_OK)
     (let d = length_diff t (path_c u); u1 = replace_component u (path_c u) t
      in if d = 0 then Done u1
         else on_component (adjust_offset d) fragment_c fragment_c_update
             (on_component (adjust_offset d) query_c query_c_update
             (on_component (adjust_length d) path_c path_c_update
             (on_component (adjust_length d) ssp_c ssp_c_update (Done u1)))))"

definition set_query :: "string \<Rightarrow> uri \<Rightarrow> uri outcome" where
  "set_query t u = assert_that (parse_err u = URI_PARSE_OK)
     (let d = length_diff t (query_c u); u1 = replace_component u (query_c u) t
      in if d = 0 then Done u1
         else on_component (adjust_offset d) fragment_c fragment_c_update
             (on_component (adjust_length d) query_c query_c_update
             (on_component (adjust_length d) ssp_c ssp_c_update (Done u1))))"

definition set_fragment :: "string \<Rightarrow> uri \<Rightarrow> uri outcome" where
  "set_fragment t u = assert_that (parse_err u = URI_PARSE_OK)
     (let d = length_diff t (fragment_c u); u1 = replace_component u (fragment_c u) t
      in if d = 0 then Done u1
         else on_component (adjust_length d) fragment_c fragment_c_update
             (on_component (adjust_length d) ssp_c ssp_c_update (Done u1)))"

section \<open>Normalisation\<close>

definition hex_digit :: "char \<Rightarrow> nat" where
  "hex_digit c =
     (if isdigit c then ord c - 48 else if islower c then ord c - 87 else ord c - 55)"

text \<open>
  The decoding loop shared by the components: a percent-encoded character becomes the
  character itself where the component allows it, and otherwise keeps its encoding in upper
  case. The assertion that two characters follow, and a pair that is not hexadecimal (where
  \<open>sscanf\<close> leaves its variable unset), are \<open>Panic\<close>; both happen on strings that
  were not validated only.
\<close>

fun decode_chars :: "(char \<Rightarrow> bool) \<Rightarrow> string \<Rightarrow> string outcome" where
  "decode_chars allowed [] = Done []"
| "decode_chars allowed (c # s) =
     (if c = CHR ''%''
      then (case s of
              a # b # r \<Rightarrow>
                assert_that (is_hexdig a \<and> is_hexdig b)
                 (bind_outcome (decode_chars allowed r)
                   (\<lambda>t. let ch = char_of (hex_digit a * 16 + hex_digit b)
                        in Done (if allowed ch then ch # t
                                 else CHR ''%'' # toupper a # toupper b # t)))
            | _ \<Rightarrow> Panic)
      else bind_outcome (decode_chars allowed s) (\<lambda>t. Done (c # t)))"

text \<open>A component is only rewritten when it has a percent sign.\<close>

definition decode_component ::
    "(char \<Rightarrow> bool) \<Rightarrow> string \<Rightarrow> (string \<Rightarrow> uri \<Rightarrow> uri outcome) \<Rightarrow> uri \<Rightarrow> uri outcome" where
  "decode_component allowed s setter u =
     (if CHR ''%'' \<in> set s then bind_outcome (decode_chars allowed s) (\<lambda>t. setter t u) else Done u)"

definition pchar :: "char \<Rightarrow> bool" where
  "pchar c \<longleftrightarrow> is_unreserved c \<or> is_sub_delim c \<or> c = CHR '':'' \<or> c = CHR ''@''"

definition decode_authority :: "uri \<Rightarrow> uri outcome" where
  "decode_authority u =
     bind_outcome (decode_component userinfo_char (uri_userinfo u) set_userinfo u)
       (\<lambda>u1. decode_component host_char (uri_host u1) set_host u1)"

definition decode_path :: "uri \<Rightarrow> uri outcome" where
  "decode_path u = decode_component pchar (uri_path u) set_path u"

definition decode_query :: "uri \<Rightarrow> uri outcome" where
  "decode_query u = decode_component query_char (uri_query u) set_query u"

definition decode_fragment :: "uri \<Rightarrow> uri outcome" where
  "decode_fragment u = decode_component query_char (uri_fragment u) set_fragment u"

definition normalize_scheme :: "uri \<Rightarrow> uri" where
  "normalize_scheme u = replace_component u (scheme_c u) (map tolower (uri_scheme u))"

text \<open>The host is lower-cased except for the two characters after a percent sign.\<close>

fun lower_host :: "string \<Rightarrow> string" where
  "lower_host [] = []"
| "lower_host (c # s) =
     (if c = CHR ''%''
      then (case s of a # b # r \<Rightarrow> c # a # b # lower_host r | _ \<Rightarrow> c # s)
      else tolower c # lower_host s)"

definition normalize_authority :: "uri \<Rightarrow> uri outcome" where
  "normalize_authority u =
     bind_outcome (decode_authority u)
       (\<lambda>u1. Done (replace_component u1 (host_c u1) (lower_host (uri_host u1))))"

text \<open>\<open>find("./", pos)\<close>, \<open>find_last_of('/', pos)\<close> and \<open>erase(pos, len)\<close>.\<close>

fun find_dot_slash :: "string \<Rightarrow> nat option" where
  "find_dot_slash (a # b # s) =
     (if a = CHR ''.'' \<and> b = CHR ''/'' then Some 0 else map_option Suc (find_dot_slash (b # s)))"
| "find_dot_slash s = None"

fun find_last_slash :: "string \<Rightarrow> nat \<Rightarrow> nat option" where
  "find_last_slash s 0 = (if s \<noteq> [] \<and> s ! 0 = CHR ''/'' then Some 0 else None)"
| "find_last_slash s (Suc n) =
     (if Suc n < length s \<and> s ! Suc n = CHR ''/'' then Some (Suc n) else find_last_slash s n)"

definition erase :: "string \<Rightarrow> nat \<Rightarrow> nat \<Rightarrow> string" where
  "erase s pos len = take pos s @ drop (pos + len) s"

definition find_dot_from :: "string \<Rightarrow> nat \<Rightarrow> nat option" where
  "find_dot_from s pos = map_option (\<lambda>i. pos + i) (find_dot_slash (drop pos s))"

lemma find_dot_slash_Some: "find_dot_slash s = Some i \<Longrightarrow> i + 2 \<le> length s"
  by (induction s arbitrary: i rule: find_dot_slash.induct) (auto split: if_splits)

lemma find_dot_from_Some: "find_dot_from s pos = Some i \<Longrightarrow> pos \<le> i \<and> i + 2 \<le> length s"
  by (auto simp: find_dot_from_def dest: find_dot_slash_Some)

lemma find_last_slash_le: "find_last_slash s n = Some i \<Longrightarrow> i \<le> n"
  by (induction n) (auto split: if_splits)

lemma length_erase: "pos + len \<le> length s \<Longrightarrow> length (erase s pos len) = length s - len"
  by (simp add: erase_def)

text \<open>
  The loop of \<open>normalize_path\<close> that removes dot segments; the third argument is the flag
  \<open>modified\<close>.
\<close>

function dot_loop :: "string \<Rightarrow> nat \<Rightarrow> bool \<Rightarrow> string \<times> bool" where
  "dot_loop path checkpoint modified =
     (case find_dot_from path checkpoint of
        None \<Rightarrow> (path, modified)
      | Some dot \<Rightarrow>
          (if dot = 0 \<or> path ! (dot - 1) = CHR ''/'' then dot_loop (erase path dot 2) checkpoint True
           else if path ! (dot - 1) = CHR ''.'' \<and> dot = 1
           then dot_loop (erase path (dot - 1) 3) checkpoint True
           else if path ! (dot - 1) = CHR ''.'' \<and> path ! (dot - 2) = CHR ''/''
           then (if dot = 2 then dot_loop (erase path (dot - 1) 3) checkpoint True
                 else let prev = end_or (find_last_slash path (dot - 3)) 0
                      in dot_loop (erase path prev (dot + 1 - prev)) prev True)
           else dot_loop path (dot + 2) True))"
  by pat_completeness auto

lemma end_or_find_last_slash_le: "end_or (find_last_slash s n) 0 \<le> n"
  by (auto simp: end_or_def dest: find_last_slash_le split: option.splits)

lemma dot_erase_prev_length:
  assumes "find_dot_from path checkpoint = Some dot" and "3 \<le> dot"
  shows "length (erase path (end_or (find_last_slash path (dot - 3)) 0)
           (dot + 1 - end_or (find_last_slash path (dot - 3)) 0)) < length path"
proof -
  let ?prev = "end_or (find_last_slash path (dot - 3)) 0"
  have "?prev \<le> dot - 3" by (rule end_or_find_last_slash_le)
  moreover have "dot + 2 \<le> length path" using find_dot_from_Some [OF assms(1)] by simp
  ultimately show ?thesis using assms(2) by (subst length_erase) auto
qed

termination dot_loop
proof (relation "measures [\<lambda>(path, c, m). length path, \<lambda>(path, c, m). length path - c]", goal_cases)
  case 1
  show ?case by simp
next
  case (6 path checkpoint modified dot)
  then show ?case using find_dot_from_Some [OF 6(1)] by auto
next
  case (5 path checkpoint modified dot prev)
  then show ?case using dot_erase_prev_length [OF 5(1)] by (auto simp: numeral_eq_Suc)
qed (auto simp: length_erase dest!: find_dot_from_Some)

declare dot_loop.simps [simp del]

definition normalize_path :: "uri \<Rightarrow> uri outcome" where
  "normalize_path u =
     bind_outcome (decode_path u)
       (\<lambda>u1. let (path, modified) = dot_loop (uri_path u1) 0 False;
                n = length path;
                (path', modified') =
                  (if path = ''.'' then ([], True)
                   else if path = ''..'' then ([], True)
                   else if n \<ge> 2 \<and> drop (n - 2) path = ''/.'' then (erase path (n - 1) 1, True)
                   else if n \<ge> 3 \<and> drop (n - 3) path = ''/..''
                   then (if n = 3 then (erase path (n - 2) 2, True)
                         else let prev = end_or (find_last_slash path (n - 4)) 0
                              in (erase path prev (n - prev) @ ''/'', True))
                   else (path, modified))
            in if modified' then set_path path' u1 else Done u1)"

definition normalize :: "uri \<Rightarrow> uri outcome" where
  "normalize u =
     bind_outcome (normalize_authority (normalize_scheme u))
       (\<lambda>u1. bind_outcome (normalize_path u1)
       (\<lambda>u2. bind_outcome (decode_query u2)
       (\<lambda>u3. decode_fragment u3)))"

definition uri_parse :: "uri \<Rightarrow> uri outcome" where
  "uri_parse u =
     (let u0 = uri_clear u; s = uri_str u
      in if s = [] then Done (u0\<lparr>parse_err := URI_PARSE_NO_URI\<rparr>)
         else case find_from (\<lambda>c. c = CHR '':'') s 0 of
           None \<Rightarrow> Done (u0\<lparr>parse_err := URI_PARSE_NO_SEP\<rparr>)
         | Some scheme_len \<Rightarrow>
             if scheme_len = 0 then Done (u0\<lparr>parse_err := URI_PARSE_BAD_SCHEME\<rparr>)
             else
               bind_outcome (parse_generic_ssp
                   (u0\<lparr>scheme_c := \<lparr>c_offset = 0, c_length = scheme_len\<rparr>,
                       ssp_c := \<lparr>c_offset = scheme_len + 1, c_length = length s - (scheme_len + 1)\<rparr>\<rparr>))
               (\<lambda>u1. bind_outcome (parse_authority u1)
               (\<lambda>(err, u2). if err \<noteq> URI_PARSE_OK then Done (u2\<lparr>parse_err := err\<rparr>)
                 else let u3 = u2\<lparr>parse_err := URI_PARSE_OK\<rparr>
                      in bind_outcome (if validate_flag u3 then validate u3 else Done URI_PARSE_OK)
                         (\<lambda>err. if err \<noteq> URI_PARSE_OK then Done (u3\<lparr>parse_err := err\<rparr>)
                           else bind_outcome (if normalize_flag u3 then normalize u3 else Done u3)
                                (\<lambda>u4. Done (u4\<lparr>parse_err := URI_PARSE_OK\<rparr>))))))"

definition uri_assign :: "string \<Rightarrow> uri \<Rightarrow> uri outcome" where
  "uri_assign s u = uri_parse (u\<lparr>uri_str := s\<rparr>)"

definition set_ssp :: "string \<Rightarrow> uri \<Rightarrow> uri outcome" where
  "set_ssp t u = assert_that (parse_err u = URI_PARSE_OK) (uri_parse (replace_component u (ssp_c u) t))"

definition set_authority :: "string \<Rightarrow> uri \<Rightarrow> uri outcome" where
  "set_authority t u = assert_that (parse_err u = URI_PARSE_OK)
     (let d = length_diff t (authority_c u); u1 = replace_component u (authority_c u) t
      in bind_outcome
          (if d = 0 then Done u1
           else on_component (adjust_offset d) fragment_c fragment_c_update
               (on_component (adjust_offset d) query_c query_c_update
               (on_component (adjust_offset d) path_c path_c_update
               (on_component (adjust_length d) authority_c authority_c_update
               (on_component (adjust_length d) ssp_c ssp_c_update (Done u1))))))
          (\<lambda>u2. bind_outcome (parse_authority u2) (\<lambda>(err, u3). Done u3)))"

definition subsume :: "uri \<Rightarrow> uri \<Rightarrow> bool" where
  "subsume u other =
     (if \<not> uri_valid u \<or> \<not> uri_valid other then False
      else let s = uri_str u; t = uri_str other
           in if take (length t) s \<noteq> t then False
              else if length s > length t
              then s ! length t \<in> set ''/?#'' \<or> s ! (length t - 1) \<in> set ''/?#''
              else True)"

text \<open>
  \<open>query_value\<close>: the loop over the \<open>;\<close>-separated parameters. A parameter whose name does
  not match moves to the next semicolon anywhere in the string; \<open>fuel\<close> bounds the rounds.
\<close>

fun query_loop :: "nat \<Rightarrow> string \<Rightarrow> nat \<Rightarrow> string \<Rightarrow> nat option \<Rightarrow> string option" where
  "query_loop 0 s q_end param cur = None"
| "query_loop (Suc fuel) s q_end param cur =
     (case cur of
        None \<Rightarrow> Some []
      | Some pos \<Rightarrow>
          (if \<not> pos < q_end then Some []
           else case find_from (\<lambda>c. c = CHR ''='') s (pos + 1) of
               None \<Rightarrow> Some []
             | Some param_end \<Rightarrow>
                 (if param_end > q_end then Some []
                  else if substr s (pos + 1) (param_end - (pos + 1)) \<noteq> param
                  then query_loop fuel s q_end param (find_from (\<lambda>c. c = CHR '';'') s (pos + 1))
                  else let value_end = end_or (find_from (\<lambda>c. c \<in> set '';#'') s (param_end + 1)) (length s)
                       in Some (substr s (param_end + 1) (value_end - (param_end + 1))))))"

definition query_value :: "uri \<Rightarrow> string \<Rightarrow> string option outcome" where
  "query_value u param = assert_that (parse_err u = URI_PARSE_OK)
     (if c_length (query_c u) = 0 then Done (Some [])
      else assert_that (uri_str u ! c_offset (query_c u) = CHR ''?'')
        (Done (query_loop (length (uri_str u) + 1) (uri_str u)
                 (c_offset (query_c u) + c_length (query_c u)) param (Some (c_offset (query_c u))))))"

end
