(* ===== verification/Uri_Layout.thy ===== *)
theory Uri_Layout
  imports Oasys_Uri
begin

text \<open>
  The abstract view of a parsed URI, the texts of its parts, and the statement that the
  offsets and lengths of the object lay these parts out one after another in its string.
  Every setter is refined by the update of one part, and the parser establishes the layout.
\<close>

section \<open>Parts and layout\<close>

record uri_parts =
  p_scheme :: string
  p_authority :: "(string \<times> string \<times> string option) option"
  p_path :: string
  p_query :: string
  p_fragment :: string

fun port_text :: "string option \<Rightarrow> string" where
  "port_text None = []"
| "port_text (Some p) = CHR '':'' # p"

fun authority_text :: "(string \<times> string \<times> string option) option \<Rightarrow> string" where
  "authority_text None = []"
| "authority_text (Some (ui, h, po)) = ''//'' @ ui @ h @ port_text po"

definition ssp_text :: "uri_parts \<Rightarrow> string" where
  "ssp_text p = authority_text (p_authority p) @ p_path p @ p_query p @ p_fragment p"

definition uri_text :: "uri_parts \<Rightarrow> string" where
  "uri_text p = p_scheme p @ CHR '':'' # ssp_text p"

definition laid_authority :: "uri \<Rightarrow> nat \<Rightarrow> (string \<times> string \<times> string option) option \<Rightarrow> bool" where
  "laid_authority u off a \<longleftrightarrow>
     authority_c u = \<lparr>c_offset = off, c_length = length (authority_text a)\<rparr> \<and>
     (case a of
        None \<Rightarrow> userinfo_c u = \<lparr>c_offset = off, c_length = 0\<rparr> \<and> host_c u = \<lparr>c_offset = off, c_length = 0\<rparr>
          \<and> port_c u = \<lparr>c_offset = off, c_length = 0\<rparr>
      | Some (ui, h, po) \<Rightarrow>
          userinfo_c u = \<lparr>c_offset = off + 2, c_length = length ui\<rparr>
          \<and> host_c u = \<lparr>c_offset = off + 2 + length ui, c_length = length h\<rparr>
          \<and> port_c u = (case po of
               None \<Rightarrow> \<lparr>c_offset = off + 2 + length ui + length h, c_length = 0\<rparr>
             | Some t \<Rightarrow> \<lparr>c_offset = off + 3 + length ui + length h, c_length = length t\<rparr>))"

definition laid_out :: "uri \<Rightarrow> uri_parts \<Rightarrow> bool" where
  "laid_out u p \<longleftrightarrow>
     (let n = length (p_scheme p); a = length (authority_text (p_authority p))
      in uri_str u = uri_text p
       \<and> scheme_c u = \<lparr>c_offset = 0, c_length = n\<rparr>
       \<and> ssp_c u = \<lparr>c_offset = n + 1, c_length = length (ssp_text p)\<rparr>
       \<and> laid_authority u (n + 1) (p_authority p)
       \<and> path_c u = \<lparr>c_offset = n + 1 + a, c_length = length (p_path p)\<rparr>
       \<and> query_c u = \<lparr>c_offset = n + 1 + a + length (p_path p), c_length = length (p_query p)\<rparr>
       \<and> fragment_c u = \<lparr>c_offset = n + 1 + a + length (p_path p) + length (p_query p),
                         c_length = length (p_fragment p)\<rparr>)"

named_theorems layout \<open>unfolding the layout of a URI\<close>

lemmas layout_defs [layout] =
  laid_out_def laid_authority_def uri_text_def ssp_text_def Let_def

section \<open>Text operations\<close>

lemma substr_middle: "length a = n \<Longrightarrow> length b = m \<Longrightarrow> substr (a @ b @ c) n m = b"
  by (simp add: substr_def)

lemma replace_middle: "length a = n \<Longrightarrow> length b = m \<Longrightarrow> replace (a @ b @ c) n m t = a @ t @ c"
  by (simp add: replace_def)

lemma laid_out_accessors:
  assumes "laid_out u p"
  shows "uri_scheme u = p_scheme p" and "uri_ssp u = ssp_text p"
    and "uri_authority u = authority_text (p_authority p)"
    and "uri_path u = p_path p" and "uri_query u = p_query p" and "uri_fragment u = p_fragment p"
  using assms
  by (simp_all add: layout substr_def get_component_def uri_scheme_def uri_ssp_def uri_authority_def
      uri_path_def uri_query_def uri_fragment_def)

lemma laid_out_authority_accessors:
  assumes "laid_out u p"
  shows "uri_userinfo u = (case p_authority p of None \<Rightarrow> [] | Some (ui, h, po) \<Rightarrow> ui)"
    and "uri_host u = (case p_authority p of None \<Rightarrow> [] | Some (ui, h, po) \<Rightarrow> h)"
    and "uri_port u = (case p_authority p of Some (ui, h, Some t) \<Rightarrow> t | _ \<Rightarrow> [])"
  using assms
  by (auto simp: layout substr_def get_component_def uri_userinfo_def uri_host_def uri_port_def numeral_eq_Suc
      split: option.splits)

lemma adjust_offset_eq:
  "c_offset c \<noteq> 0 \<Longrightarrow> n \<le> c_offset c + m \<Longrightarrow>
   adjust_offset (int m - int n) c = Done (c\<lparr>c_offset := c_offset c + m - n\<rparr>)"
  by (auto simp: adjust_offset_def assert_that_def nat_diff_distrib)

lemma adjust_length_eq:
  "n \<le> c_length c + m \<Longrightarrow>
   adjust_length (int m - int n) c = Done (c\<lparr>c_length := c_length c + m - n\<rparr>)"
  by (auto simp: adjust_length_def assert_that_def nat_diff_distrib)

lemmas setter_simps = adjust_offset_eq adjust_length_eq on_component_def replace_component_def
  length_diff_def replace_def

section \<open>Setters refine updates of parts\<close>

definition refines_part :: "uri outcome \<Rightarrow> uri \<Rightarrow> uri_parts \<Rightarrow> bool" where
  "refines_part r u p \<longleftrightarrow>
     (case r of Panic \<Rightarrow> False
      | Done u' \<Rightarrow> laid_out u' p \<and> parse_err u' = URI_PARSE_OK
          \<and> normalize_flag u' = normalize_flag u \<and> validate_flag u' = validate_flag u)"

lemma set_path_layout:
  assumes "laid_out u p" and "parse_err u = URI_PARSE_OK"
  shows "refines_part (set_path t u) u (p\<lparr>p_path := t\<rparr>)"
  using assms
  by (auto simp: refines_part_def set_path_def setter_simps layout split: option.splits)

lemma set_query_layout:
  assumes "laid_out u p" and "parse_err u = URI_PARSE_OK"
  shows "refines_part (set_query t u) u (p\<lparr>p_query := t\<rparr>)"
  using assms
  by (auto simp: refines_part_def set_query_def setter_simps layout split: option.splits)

lemma set_fragment_layout:
  assumes "laid_out u p" and "parse_err u = URI_PARSE_OK"
  shows "refines_part (set_fragment t u) u (p\<lparr>p_fragment := t\<rparr>)"
  using assms
  by (auto simp: refines_part_def set_fragment_def setter_simps layout split: option.splits)

lemma set_scheme_layout:
  assumes "laid_out u p" and "parse_err u = URI_PARSE_OK"
  shows "refines_part (set_scheme t u) u (p\<lparr>p_scheme := t\<rparr>)"
  using assms
  by (auto simp: refines_part_def set_scheme_def setter_simps layout split: option.splits)

lemma set_userinfo_layout:
  assumes "laid_out u p" and "parse_err u = URI_PARSE_OK" and "p_authority p = Some (ui, h, po)"
  shows "refines_part (set_userinfo t u) u (p\<lparr>p_authority := Some (t, h, po)\<rparr>)"
  using assms
  by (auto simp: refines_part_def set_userinfo_def setter_simps layout numeral_eq_Suc Suc_diff_le split: option.splits)

lemma set_host_layout:
  assumes "laid_out u p" and "parse_err u = URI_PARSE_OK" and "p_authority p = Some (ui, h, po)"
  shows "refines_part (set_host t u) u (p\<lparr>p_authority := Some (ui, t, po)\<rparr>)"
  using assms
  by (auto simp: refines_part_def set_host_def setter_simps layout numeral_eq_Suc Suc_diff_le split: option.splits)

lemma set_port_layout:
  assumes "laid_out u p" and "parse_err u = URI_PARSE_OK" and "p_authority p = Some (ui, h, Some po)"
  shows "refines_part (set_port t u) u (p\<lparr>p_authority := Some (ui, h, Some t)\<rparr>)"
  using assms
  by (auto simp: refines_part_def set_port_def setter_simps layout numeral_eq_Suc Suc_diff_le split: option.splits)

section \<open>Searching\<close>

lemma find_index_eq:
  "find_index P s = (if list_ex P s then Some (length (takeWhile (\<lambda>c. \<not> P c) s)) else None)"
  by (induction s) auto

lemma find_from_eq:
  "find_from P s pos = (if list_ex P (drop pos s)
     then Some (pos + length (takeWhile (\<lambda>c. \<not> P c) (drop pos s))) else None)"
  by (simp add: find_from_def find_index_eq)

lemma takeWhile_eq_all: "\<not> list_ex P s \<Longrightarrow> takeWhile (\<lambda>c. \<not> P c) s = s"
  by (auto simp: list_ex_iff takeWhile_eq_all_conv)

lemma end_or_find_from:
  "pos \<le> length s \<Longrightarrow>
   end_or (find_from P s pos) (length s) = pos + length (takeWhile (\<lambda>c. \<not> P c) (drop pos s))"
  by (auto simp: find_from_eq end_or_def takeWhile_eq_all)

lemma list_ex_eq [simp]: "list_ex (\<lambda>c. c = x) s \<longleftrightarrow> x \<in> set s"
  by (auto simp: list_ex_iff)

lemma nth_length_takeWhile':
  "list_ex P s \<Longrightarrow> P (s ! length (takeWhile (\<lambda>c. \<not> P c) s))"
  by (induction s) auto

lemma length_takeWhile_lt: "list_ex P s \<Longrightarrow> length (takeWhile (\<lambda>c. \<not> P c) s) < length s"
  by (induction s) auto

section \<open>The reference split\<close>

text \<open>
  What the parser is meant to compute, on the text alone: each part is what stands before
  the first delimiter.
\<close>

definition split_port :: "string \<Rightarrow> string \<Rightarrow> string \<Rightarrow> (string \<times> string \<times> string option) option" where
  "split_port ui h t =
     (if t = [] then Some (ui, h, None)
      else if hd t = CHR '':'' then Some (ui, h, Some (tl t))
      else None)"

definition split_authority :: "string \<Rightarrow> (string \<times> string \<times> string option) option" where
  "split_authority a =
     (let ui = (if CHR ''@'' \<in> set a then takeWhile (\<lambda>c. c \<noteq> CHR ''@'') a @ ''@'' else []);
          r = drop (length ui) a
      in if r \<noteq> [] \<and> hd r = CHR ''[''
         then (if CHR '']'' \<in> set r
               then let h = takeWhile (\<lambda>c. c \<noteq> CHR '']'') r @ '']'' in split_port ui h (drop (length h) r)
               else None)
         else let h = takeWhile (\<lambda>c. c \<noteq> CHR '':'') r in split_port ui h (drop (length h) r))"

definition before :: "char list \<Rightarrow> string \<Rightarrow> string" where
  "before cs s = takeWhile (\<lambda>c. c \<notin> set cs) s"

definition split_tail :: "string \<Rightarrow> (string \<times> string \<times> string option) option \<Rightarrow> string \<Rightarrow> uri_parts" where
  "split_tail sch a r =
     (let pa = before ''?#'' r; r2 = drop (length pa) r;
          qu = (if r2 \<noteq> [] \<and> hd r2 = CHR ''?'' then before ''#'' r2 else [])
      in \<lparr>p_scheme = sch, p_authority = a, p_path = pa, p_query = qu, p_fragment = drop (length qu) r2\<rparr>)"

definition split_uri :: "string \<Rightarrow> uri_parts option" where
  "split_uri s =
     (let sch = before '':'' s; ssp = drop (length sch + 1) s
      in if sch = [] \<or> CHR '':'' \<notin> set s then None
         else if take 2 ssp = ''//''
         then let a = before ''/?#'' (drop 2 ssp)
              in map_option (\<lambda>x. split_tail sch (Some x) (drop (length a + 2) ssp)) (split_authority a)
         else Some (split_tail sch None ssp))"

section \<open>The authority\<close>

definition authority_at :: "nat \<Rightarrow> string \<times> string \<times> string option \<Rightarrow> u32 \<Rightarrow> uri \<Rightarrow> uri" where
  "authority_at off x pn u =
     (case x of (ui, h, po) \<Rightarrow>
        u\<lparr>userinfo_c := \<lparr>c_offset = off + 2, c_length = length ui\<rparr>,
          host_c := \<lparr>c_offset = off + 2 + length ui, c_length = length h\<rparr>,
          port_c := (case po of
               None \<Rightarrow> \<lparr>c_offset = off + 2 + length ui + length h, c_length = 0\<rparr>
             | Some t \<Rightarrow> \<lparr>c_offset = off + 3 + length ui + length h, c_length = length t\<rparr>),
          port_num := pn\<rparr>)"

lemma split_port_iff:
  "split_port ui h t = Some (ui', h', po) \<longleftrightarrow> ui' = ui \<and> h' = h \<and> t = port_text po"
  by (cases t; cases po) (auto simp: split_port_def)

lemma userinfo_takeWhile:
  "x \<in> set a \<Longrightarrow> \<exists>r. a = takeWhile (\<lambda>c. c \<noteq> x) a @ x # r"
  by (induction a) auto

lemma split_authority_userinfo:
  obtains ui r where "a = ui @ r" and "ui \<noteq> [] \<longrightarrow> last ui = CHR ''@''"
    and "(case find_from (\<lambda>c. c = CHR ''@'') (''//'' @ a) 2 of None \<Rightarrow> 0 | Some e \<Rightarrow> (e + 1) - 2) = length ui"
    and "split_authority a =
     (if r \<noteq> [] \<and> hd r = CHR ''[''
         then (if CHR '']'' \<in> set r
               then let h = takeWhile (\<lambda>c. c \<noteq> CHR '']'') r @ '']'' in split_port ui h (drop (length h) r)
               else None)
         else let h = takeWhile (\<lambda>c. c \<noteq> CHR '':'') r in split_port ui h (drop (length h) r))"
proof (cases "CHR ''@'' \<in> set a")
  case True
  let ?ui = "takeWhile (\<lambda>c. c \<noteq> CHR ''@'') a @ ''@''"
  obtain r where r: "a = ?ui @ r" using userinfo_takeWhile [OF True] by auto
  then have "drop (length ?ui) a = r" by (metis append_eq_conv_conj)
  then show thesis
    using r True that [of ?ui r] by (auto simp: find_from_eq split_authority_def Let_def)
next
  case False
  then show thesis using that [of "[]" a] by (simp add: find_from_eq split_authority_def Let_def)
qed

lemma length_takeWhile_neq_lt: "x \<in> set r \<Longrightarrow> length (takeWhile (\<lambda>c. c \<noteq> x) r) < length r"
  by (induction r) auto

lemma parse_authority_eq:
  assumes "uri_authority u = ''//'' @ a" and "authority_c u = \<lparr>c_offset = off, c_length = 2 + length a\<rparr>"
  shows "case split_authority a of
      None \<Rightarrow> \<exists>err u'. parse_authority u = Done (err, u') \<and> err \<noteq> URI_PARSE_OK
    | Some x \<Rightarrow> \<exists>pn. parse_authority u = Done (URI_PARSE_OK, authority_at off x pn u)"
proof -
  obtain ui r where a: "a = ui @ r"
    and ui: "(case find_from (\<lambda>c. c = CHR ''@'') (''//'' @ a) 2 of None \<Rightarrow> 0 | Some e \<Rightarrow> (e + 1) - 2) = length ui"
    and split: "split_authority a =
     (if r \<noteq> [] \<and> hd r = CHR ''[''
         then (if CHR '']'' \<in> set r
               then let h = takeWhile (\<lambda>c. c \<noteq> CHR '']'') r @ '']'' in split_port ui h (drop (length h) r)
               else None)
         else let h = takeWhile (\<lambda>c. c \<noteq> CHR '':'') r in split_port ui h (drop (length h) r))"
    by (rule split_authority_userinfo)
  let ?h = "if r \<noteq> [] \<and> hd r = CHR ''['' then takeWhile (\<lambda>c. c \<noteq> CHR '']'') r @ '']''
            else takeWhile (\<lambda>c. c \<noteq> CHR '':'') r"
  have at: "(''//'' @ a) ! (2 + length ui) = hd r" if "r \<noteq> []"
    using that by (simp add: a nth_append hd_conv_nth)
  have drop: "drop (2 + length ui) (''//'' @ a) = r" by (simp add: a)
  have colon: "end_or (find_from (\<lambda>c. c = CHR '':'') (''//'' @ a) (2 + length ui)) (length (''//'' @ a))
      = 2 + length ui + length (takeWhile (\<lambda>c. c \<noteq> CHR '':'') r)"
    using end_or_find_from [of "2 + length ui" "''//'' @ a" "\<lambda>c. c = CHR '':''"] unfolding drop by (simp add: a)
  have close: "find_from (\<lambda>c. c = CHR '']'') (''//'' @ a) (2 + length ui)
      = (if CHR '']'' \<in> set r then Some (2 + length ui + length (takeWhile (\<lambda>c. c \<noteq> CHR '']'') r)) else None)"
    by (simp only: find_from_eq drop) simp
  define he where "he = (if 2 + length ui = length (''//'' @ a) then Some (length (''//'' @ a))
      else if (''//'' @ a) ! (2 + length ui) = CHR ''[''
      then map_option Suc (find_from (\<lambda>c. c = CHR '']'') (''//'' @ a) (2 + length ui))
      else Some (end_or (find_from (\<lambda>c. c = CHR '':'') (''//'' @ a) (2 + length ui)) (length (''//'' @ a))))"
  have host: "(he = None \<and> split_authority a = None) \<or>
     (\<exists>h t. r = h @ t \<and> he = Some (2 + length ui + length h) \<and> split_authority a = split_port ui h t)"
  proof (cases "r = []")
    case True
    then show ?thesis using split by (simp add: he_def a Let_def)
  next
    case False
    show ?thesis
    proof (cases "hd r = CHR ''[''")
      case True
      show ?thesis
      proof (cases "CHR '']'' \<in> set r")
        case in_r: True
        let ?h = "takeWhile (\<lambda>c. c \<noteq> CHR '']'') r @ '']''"
        obtain t where t: "r = ?h @ t" using userinfo_takeWhile [OF in_r] by auto
        then have "drop (length ?h) r = t" by (metis append_eq_conv_conj)
        moreover have "he = Some (2 + length ui + length ?h)"
          using in_r False True at [OF False] unfolding he_def close by (simp add: a)
        ultimately show ?thesis using split t False True in_r by (metis (no_types, lifting))
      next
        case not_in: False
        then show ?thesis using split False True at [OF False] unfolding he_def close by (simp add: a)
      qed
    next
      case no_bracket: False
      have "he = Some (2 + length ui + length (takeWhile (\<lambda>c. c \<noteq> CHR '':'') r))"
        using False no_bracket at [OF False] unfolding he_def colon by (simp add: a)
      moreover have "r = takeWhile (\<lambda>c. c \<noteq> CHR '':'') r @ drop (length (takeWhile (\<lambda>c. c \<noteq> CHR '':'') r)) r"
        by (metis takeWhile_dropWhile_id dropWhile_eq_drop)
      ultimately show ?thesis using split no_bracket by (metis (no_types, lifting))
    qed
  qed
  have unfolded: "parse_authority u =
     (case he of
        None \<Rightarrow> Done (URI_PARSE_BAD_IP_LITERAL, u\<lparr>userinfo_c := \<lparr>c_offset = off + 2, c_length = length ui\<rparr>\<rparr>)
      | Some pos2 \<Rightarrow>
         let u2 = u\<lparr>userinfo_c := \<lparr>c_offset = off + 2, c_length = length ui\<rparr>,
                    host_c := \<lparr>c_offset = off + (2 + length ui), c_length = pos2 - (2 + length ui)\<rparr>\<rparr>
         in if pos2 \<noteq> length (''//'' @ a)
            then (if (''//'' @ a) ! pos2 \<noteq> CHR '':'' then Done (URI_PARSE_BAD_PORT, u2)
                  else let port_start = pos2 + 1; port_len = length (''//'' @ a) - port_start;
                           u3 = u2\<lparr>port_c := \<lparr>c_offset = off + port_start, c_length = port_len\<rparr>\<rparr>
                       in Done (URI_PARSE_OK,
                            if port_len > 0 then u3\<lparr>port_num := of_int (atoi (uri_port u3))\<rparr> else u3))
            else Done (URI_PARSE_OK, u2\<lparr>port_c := \<lparr>c_offset = off + pos2, c_length = 0\<rparr>\<rparr>))"
    unfolding parse_authority_def Let_def assms ui he_def [symmetric] by (cases he) simp_all
  show ?thesis
    using host
  proof (elim disjE exE conjE)
    assume "he = None" and "split_authority a = None"
    then show ?thesis by (simp add: unfolded)
  next
    fix h t
    assume r: "r = h @ t" and he: "he = Some (2 + length ui + length h)"
      and s: "split_authority a = split_port ui h t"
    show ?thesis
    proof (cases t)
      case Nil
      have "parse_authority u = Done (URI_PARSE_OK, authority_at off (ui, h, None) (port_num u) u)"
        using Nil r he by (simp add: unfolded authority_at_def a add.assoc)
      then show ?thesis using s Nil by (auto simp: split_port_def)
    next
      case (Cons c t')
      show ?thesis
      proof (cases "c = CHR '':''")
        case True
        have "\<exists>pn. parse_authority u = Done (URI_PARSE_OK, authority_at off (ui, h, Some t') pn u)"
          using Cons r he True
          by (cases "t' = []") (auto simp: unfolded authority_at_def a Let_def nth_append numeral_eq_Suc add.assoc
              intro: exI [of _ "port_num u"])
        then show ?thesis using s Cons True by (auto simp: split_port_def)
      next
        case False
        then show ?thesis using Cons r he s
          by (auto simp: unfolded split_port_def a nth_append)
      qed
    qed
  qed
qed

section \<open>The scheme-specific part\<close>

definition ssp_parts :: "nat \<Rightarrow> string \<Rightarrow> nat \<Rightarrow> uri \<Rightarrow> uri" where
  "ssp_parts off ssp al u =
     (let p = split_tail [] None (drop al ssp); n = length (p_path p); m = length (p_query p)
      in u\<lparr>authority_c := \<lparr>c_offset = off, c_length = al\<rparr>,
           path_c := \<lparr>c_offset = off + al, c_length = n\<rparr>,
           query_c := \<lparr>c_offset = off + al + n, c_length = m\<rparr>,
           fragment_c := \<lparr>c_offset = off + al + n + m, c_length = length (p_fragment p)\<rparr>\<rparr>)"

definition authority_len :: "string \<Rightarrow> nat" where
  "authority_len ssp = (if take 2 ssp = ''//'' then 2 + length (before ''/?#'' (drop 2 ssp)) else 0)"

lemma end_or_find_before:
  assumes "pos = length pre" and "s = pre @ r"
  shows "end_or (find_from (\<lambda>c. c \<in> set cs) s pos) (length s) = pos + length (before cs r)"
  using end_or_find_from [of pos s "\<lambda>c. c \<in> set cs"] assms by (simp add: before_def)

lemma before_hash: "end_or (find_from (\<lambda>c. c = CHR ''#'') s pos) n = end_or (find_from (\<lambda>c. c \<in> set ''#'') s pos) n"
  by simp

lemma length_before_le: "length (before cs r) \<le> length r"
  by (simp add: before_def length_takeWhile_le)

lemma drop_before_hd: "drop (length (before cs r)) r = [] \<or> hd (drop (length (before cs r)) r) \<in> set cs"
  unfolding before_def dropWhile_eq_drop [symmetric] using hd_dropWhile [of "\<lambda>c. c \<notin> set cs" r] by blast

lemma before_append: "before cs r @ drop (length (before cs r)) r = r"
  unfolding before_def dropWhile_eq_drop [symmetric] by simp

lemma authority_len_le: "authority_len ssp \<le> length ssp"
proof (cases "take 2 ssp = ''//''")
  case True
  then have "2 \<le> length ssp" by (metis length_take min.absorb_iff2 min.commute length_Cons list.size(3) One_nat_def Suc_1 min.cobounded2)
  then show ?thesis using length_before_le [of "''/?#''" "drop 2 ssp"] by (auto simp: authority_len_def)
qed (simp add: authority_len_def)

lemma nth_at_suffix:
  "s = a @ r \<Longrightarrow> pos = length a \<Longrightarrow> (pos \<noteq> length s \<and> s ! pos = c) = (r \<noteq> [] \<and> hd r = c)"
  by (auto simp: nth_append hd_conv_nth)

lemma parse_generic_ssp_positions:
  assumes "c_length (ssp_c u) \<noteq> 0" and "uri_str u = s" and "length s = n" and "c_offset (ssp_c u) = p0"
    and A: "(c_length (ssp_c u) \<ge> 2 \<and> s ! p0 = CHR ''/'' \<and> s ! (p0 + 1) = CHR ''/'') = A"
    and p1: "(if A then end_or (find_from (\<lambda>c. c \<in> set ''/?#'') s (p0 + 2)) n else p0) = p1"
    and p2: "(if p1 \<noteq> n then end_or (find_from (\<lambda>c. c \<in> set ''?#'') s p1) n else p1) = p2"
    and Q: "(p2 \<noteq> n \<and> s ! p2 = CHR ''?'') = Q"
    and p3: "(if Q then end_or (find_from (\<lambda>c. c = CHR ''#'') s p2) n else p2) = p3"
    and F: "(p3 \<noteq> n \<and> s ! p3 = CHR ''#'') = F"
    and ends: "(if F then n else p3) = n"
    and "A \<longrightarrow> p0 < p1" and "Q \<longrightarrow> p2 < p3" and "F \<longrightarrow> p3 < n"
  shows "parse_generic_ssp u = Done (u\<lparr>authority_c := \<lparr>c_offset = p0, c_length = p1 - p0\<rparr>,
                     path_c := \<lparr>c_offset = p1, c_length = p2 - p1\<rparr>,
                     query_c := \<lparr>c_offset = p2, c_length = p3 - p2\<rparr>,
                     fragment_c := \<lparr>c_offset = p3, c_length = n - p3\<rparr>\<rparr>)"
  unfolding parse_generic_ssp_def Let_def assms(2-4) A p1 p2 Q p3 F ends
  using assms(1,12,13,14) by (simp add: assert_that_def)

lemma parse_generic_ssp_eq:
  assumes s: "uri_str u = pre @ ssp" and c: "ssp_c u = \<lparr>c_offset = length pre, c_length = length ssp\<rparr>"
  shows "\<exists>x y z. parse_generic_ssp u =
    Done (ssp_parts (length pre) ssp (authority_len ssp) (u\<lparr>userinfo_c := x, host_c := y, port_c := z\<rparr>))"
proof (cases "ssp = []")
  case True
  then show ?thesis
    using c by (intro exI [of _ "ssp_c u"], cases u)
      (auto simp: parse_generic_ssp_def ssp_parts_def authority_len_def split_tail_def before_def Let_def)
next
  case False
  let ?off = "length pre" and ?n = "length (pre @ ssp)"
  let ?al = "authority_len ssp"
  let ?r = "drop ?al ssp"
  let ?pa = "before ''?#'' ?r"
  let ?r2 = "drop (length ?pa) ?r"
  let ?q = "?r2 \<noteq> [] \<and> hd ?r2 = CHR ''?''"
  let ?qu = "if ?q then before ''#'' ?r2 else []"
  let ?r3 = "drop (length ?qu) ?r2"
  have has: "(c_length (ssp_c u) \<ge> 2 \<and> (pre @ ssp) ! ?off = CHR ''/'' \<and> (pre @ ssp) ! (?off + 1) = CHR ''/'')
      = (take 2 ssp = ''//'')"
    using c s by (cases ssp; cases "tl ssp") (auto simp: nth_append)
  have auth: "(if take 2 ssp = ''//'' then end_or (find_from (\<lambda>c. c \<in> set ''/?#'') (pre @ ssp) (?off + 2)) ?n else ?off)
      = ?off + ?al"
  proof (cases "take 2 ssp = ''//''")
    case True
    then have "pre @ ssp = (pre @ ''//'') @ drop 2 ssp" by (metis append_take_drop_id append_assoc)
    then show ?thesis using end_or_find_before [of "?off + 2" "pre @ ''//''" "pre @ ssp" "drop 2 ssp" "''/?#''"] True
      by (simp add: authority_len_def)
  qed (simp add: authority_len_def)
  have split1: "pre @ ssp = (pre @ take ?al ssp) @ ?r" "?off + ?al = length (pre @ take ?al ssp)"
    using authority_len_le [of ssp] by simp_all
  have path: "(if ?off + ?al \<noteq> ?n then end_or (find_from (\<lambda>c. c \<in> set ''?#'') (pre @ ssp) (?off + ?al)) ?n else ?off + ?al)
      = ?off + ?al + length ?pa"
    using end_or_find_before [OF split1(2,1), of "''?#''"] by (auto simp: before_def)
  have split2: "pre @ ssp = (pre @ take ?al ssp @ ?pa) @ ?r2" "?off + ?al + length ?pa = length (pre @ take ?al ssp @ ?pa)"
    using authority_len_le [of ssp] before_append [of "''?#''" ?r] by simp_all
  have hasq: "(?off + ?al + length ?pa \<noteq> ?n \<and> (pre @ ssp) ! (?off + ?al + length ?pa) = CHR ''?'') = ?q"
    by (rule nth_at_suffix [OF split2])
  have query: "(if ?q then end_or (find_from (\<lambda>c. c = CHR ''#'') (pre @ ssp) (?off + ?al + length ?pa)) ?n
       else ?off + ?al + length ?pa) = ?off + ?al + length ?pa + length ?qu"
    unfolding before_hash end_or_find_before [OF split2(2,1)] by (cases ?q) (simp_all only: if_True if_False simp_thms list.size add_0_right)
  have split3: "pre @ ssp = (pre @ take ?al ssp @ ?pa @ ?qu) @ ?r3"
      "?off + ?al + length ?pa + length ?qu = length (pre @ take ?al ssp @ ?pa @ ?qu)"
    using authority_len_le [of ssp] before_append [of "''?#''" ?r] before_append [of "''#''" ?r2] by simp_all
  have r3: "?r3 = [] \<or> hd ?r3 = CHR ''#''"
    using drop_before_hd [of "''?#''" ?r] drop_before_hd [of "''#''" ?r2] by auto
  have hasf: "(?off + ?al + length ?pa + length ?qu \<noteq> ?n \<and> (pre @ ssp) ! (?off + ?al + length ?pa + length ?qu) = CHR ''#'')
      = (?r3 \<noteq> [])"
    unfolding nth_at_suffix [OF split3] using r3 by blast
  have total: "?off + ?al + length ?pa + length ?qu + length ?r3 = ?n"
    using split3 by (metis length_append)
  have nonempty: "c_length (ssp_c u) \<noteq> 0" and offset: "c_offset (ssp_c u) = ?off"
    using False c by simp_all
  have ends: "(if ?r3 \<noteq> [] then ?n else ?off + ?al + length ?pa + length ?qu) = ?n"
    using total by (cases "?r3 = []") (simp_all only: if_True if_False simp_thms list.size add_0_right)
  have pos1: "take 2 ssp = ''//'' \<longrightarrow> ?off < ?off + ?al"
    by (simp add: authority_len_def)
  have pos2: "?q \<longrightarrow> ?off + ?al + length ?pa < ?off + ?al + length ?pa + length ?qu"
  proof
    assume q: ?q
    then have "before ''#'' ?r2 \<noteq> []" by (cases ?r2) (auto simp: before_def)
    then show "?off + ?al + length ?pa < ?off + ?al + length ?pa + length ?qu" using q by (simp only: if_True) simp
  qed
  have pos3: "?r3 \<noteq> [] \<longrightarrow> ?off + ?al + length ?pa + length ?qu < ?n"
    using total by (metis length_greater_0_conv less_add_same_cancel1)
  have "parse_generic_ssp u = Done (ssp_parts ?off ssp ?al u)"
    using parse_generic_ssp_positions [OF nonempty s refl offset has auth path hasq query hasf ends pos1 pos2 pos3]
    unfolding total [symmetric] ssp_parts_def split_tail_def Let_def
    by (simp only: add_diff_cancel_left' uri_parts.simps)
  then have "parse_generic_ssp u = Done (ssp_parts ?off ssp ?al
     (u\<lparr>userinfo_c := userinfo_c u, host_c := host_c u, port_c := port_c u\<rparr>))" by simp
  then show ?thesis by blast
qed

section \<open>The parser computes the split\<close>

definition after_split :: "uri \<Rightarrow> uri outcome" where
  "after_split u3 =
     bind_outcome (if validate_flag u3 then validate u3 else Done URI_PARSE_OK)
       (\<lambda>err. if err \<noteq> URI_PARSE_OK then Done (u3\<lparr>parse_err := err\<rparr>)
              else bind_outcome (if normalize_flag u3 then normalize u3 else Done u3)
                     (\<lambda>u4. Done (u4\<lparr>parse_err := URI_PARSE_OK\<rparr>)))"

lemma colon_find: "find_from (\<lambda>c. c = CHR '':'') s 0 = (if CHR '':'' \<in> set s then Some (length (before '':'' s)) else None)"
  by (simp add: find_from_eq before_def)

lemma colon_split: "CHR '':'' \<in> set s \<Longrightarrow> s = before '':'' s @ CHR '':'' # drop (length (before '':'' s) + 1) s"
proof -
  assume "CHR '':'' \<in> set s"
  then obtain r where r: "s = before '':'' s @ CHR '':'' # r" using userinfo_takeWhile [of "CHR '':''" s] by (auto simp: before_def)
  then have "drop (length (before '':'' s @ '':'')) s = r" by (metis append_Cons append_Nil append_assoc append_eq_conv_conj)
  then show ?thesis using r by simp
qed

lemma split_tail_text:
  "authority_text (p_authority (split_tail sch a r)) = authority_text a"
  "p_path (split_tail sch a r) @ p_query (split_tail sch a r) @ p_fragment (split_tail sch a r) = r"
  by (simp add: split_tail_def Let_def)
    (auto simp: split_tail_def Let_def before_append simp del: drop_drop)

definition authority_ok :: "string \<times> string \<times> string option \<Rightarrow> bool" where
  "authority_ok x \<longleftrightarrow> (case x of (ui, h, po) \<Rightarrow>
     (ui \<noteq> [] \<longrightarrow> last ui = CHR ''@'') \<and> (h \<noteq> [] \<longrightarrow> hd h = CHR ''['' \<longrightarrow> last h = CHR '']''))"

lemma takeWhile_drop: "takeWhile P r @ drop (length (takeWhile P r)) r = r"
  by (metis takeWhile_dropWhile_id dropWhile_eq_drop)

lemma split_authority_parts:
  assumes "split_authority a = Some x"
  shows "authority_text (Some x) = ''//'' @ a" and "authority_ok x"
proof -
  obtain ui r where a: "a = ui @ r" and ui: "ui \<noteq> [] \<longrightarrow> last ui = CHR ''@''"
    and split: "split_authority a =
     (if r \<noteq> [] \<and> hd r = CHR ''[''
         then (if CHR '']'' \<in> set r
               then let h = takeWhile (\<lambda>c. c \<noteq> CHR '']'') r @ '']'' in split_port ui h (drop (length h) r)
               else None)
         else let h = takeWhile (\<lambda>c. c \<noteq> CHR '':'') r in split_port ui h (drop (length h) r))"
    by (rule split_authority_userinfo)
  have "\<exists>h t. r = h @ t \<and> split_port ui h t = Some x \<and> (h \<noteq> [] \<longrightarrow> hd h = CHR ''['' \<longrightarrow> last h = CHR '']'')"
  proof (cases "r \<noteq> [] \<and> hd r = CHR ''[''")
    case True
    then have in_r: "CHR '']'' \<in> set r" using assms split by (auto split: if_splits)
    then obtain t where t: "r = (takeWhile (\<lambda>c. c \<noteq> CHR '']'') r @ '']'') @ t"
      using userinfo_takeWhile [OF in_r] by auto
    then have "drop (length (takeWhile (\<lambda>c. c \<noteq> CHR '']'') r @ '']'')) r = t" by (metis append_eq_conv_conj)
    then have "split_port ui (takeWhile (\<lambda>c. c \<noteq> CHR '']'') r @ '']'') t = Some x"
      using assms split True in_r by (simp add: Let_def)
    then show ?thesis using t by (intro exI [of _ "takeWhile (\<lambda>c. c \<noteq> CHR '']'') r @ '']''"] exI [of _ t]) simp
  next
    case False
    let ?h = "takeWhile (\<lambda>c. c \<noteq> CHR '':'') r"
    have "hd ?h = hd r" if "?h \<noteq> []" using that by (cases r) (auto split: if_splits)
    then show ?thesis using assms split False takeWhile_drop [of _ r] 
      by (intro exI [of _ ?h] exI [of _ "drop (length ?h) r"]) (auto simp: Let_def)
  qed
  then obtain h t where ht: "r = h @ t" "split_port ui h t = Some x" "h \<noteq> [] \<longrightarrow> hd h = CHR ''['' \<longrightarrow> last h = CHR '']''"
    by blast
  obtain po where "x = (ui, h, po)" "t = port_text po"
    using ht(2) by (cases x) (auto simp: split_port_iff)
  then show "authority_text (Some x) = ''//'' @ a" and "authority_ok x"
    using ht ui by (auto simp: a authority_ok_def)
qed

definition parts_ok :: "uri_parts \<Rightarrow> bool" where
  "parts_ok p \<longleftrightarrow>
     (case p_authority p of
        None \<Rightarrow> take 2 (p_path p) \<noteq> ''//''
      | Some x \<Rightarrow> authority_ok x \<and> (p_path p \<noteq> [] \<longrightarrow> hd (p_path p) = CHR ''/''))
     \<and> (p_query p \<noteq> [] \<longrightarrow> hd (p_query p) = CHR ''?'')
     \<and> (p_fragment p \<noteq> [] \<longrightarrow> hd (p_fragment p) = CHR ''#'')"

lemma split_tail_ok:
  "(p_query (split_tail sch a r) \<noteq> [] \<longrightarrow> hd (p_query (split_tail sch a r)) = CHR ''?'')"
  "(p_fragment (split_tail sch a r) \<noteq> [] \<longrightarrow> hd (p_fragment (split_tail sch a r)) = CHR ''#'')"
  "p_authority (split_tail sch a r) = a" "p_scheme (split_tail sch a r) = sch"
proof -
  let ?r2 = "drop (length (before ''?#'' r)) r"
  show "(p_query (split_tail sch a r) \<noteq> [] \<longrightarrow> hd (p_query (split_tail sch a r)) = CHR ''?'')"
    by (cases ?r2) (auto simp: split_tail_def Let_def before_def)
  show "(p_fragment (split_tail sch a r) \<noteq> [] \<longrightarrow> hd (p_fragment (split_tail sch a r)) = CHR ''#'')"
    using drop_before_hd [of "''?#''" r] drop_before_hd [of "''#''" ?r2]
    by (auto simp: split_tail_def Let_def simp del: drop_drop)
qed (simp_all add: split_tail_def Let_def)

lemma p_path_split_tail: "p_path (split_tail sch a r) = before ''?#'' r"
  by (simp add: split_tail_def Let_def)

lemma take_2_append: "take 2 s = [a, b] \<Longrightarrow> s = [a, b] @ drop 2 s"
  by (metis append_take_drop_id)

text \<open>The two shapes of a split.\<close>

lemma split_uri_cases:
  assumes "split_uri s = Some p"
  obtains (no_authority) ssp where "s = p_scheme p @ CHR '':'' # ssp" and "p_scheme p = before '':'' s" and "p_scheme p \<noteq> []"
      and "take 2 ssp \<noteq> ''//''" and "p = split_tail (p_scheme p) None ssp"
    | (authority) ssp x where "s = p_scheme p @ CHR '':'' # ssp" and "p_scheme p = before '':'' s" and "p_scheme p \<noteq> []"
      and "take 2 ssp = ''//''" and "split_authority (before ''/?#'' (drop 2 ssp)) = Some x"
      and "p = split_tail (p_scheme p) (Some x) (drop (length (before ''/?#'' (drop 2 ssp)) + 2) ssp)"
proof -
  let ?sch = "before '':'' s" and ?ssp = "drop (length (before '':'' s) + 1) s"
  have s: "?sch \<noteq> []" "CHR '':'' \<in> set s" using assms by (auto simp: split_uri_def Let_def split: if_splits)
  note whole = colon_split [OF s(2)]
  show thesis
  proof (cases "take 2 ?ssp = ''//''")
    case True
    then obtain x where x: "split_authority (before ''/?#'' (drop 2 ?ssp)) = Some x"
        "p = split_tail ?sch (Some x) (drop (length (before ''/?#'' (drop 2 ?ssp)) + 2) ?ssp)"
      using assms s by (auto simp: split_uri_def Let_def simp del: drop_drop split: if_splits)
    have sch: "p_scheme p = ?sch" by (simp add: x(2) split_tail_ok)
    show thesis by (rule authority [where ssp = ?ssp and x = x, unfolded sch]) (use x s whole True in simp_all)
  next
    case False
    then have p: "p = split_tail ?sch None ?ssp" using assms s by (auto simp: split_uri_def Let_def split: if_splits)
    have sch: "p_scheme p = ?sch" by (simp add: p split_tail_ok)
    show thesis by (rule no_authority [where ssp = ?ssp, unfolded sch]) (use p s whole False in simp_all)
  qed
qed

lemma take_2_before: "take 2 s \<noteq> ''//'' \<Longrightarrow> take 2 (before cs s) \<noteq> ''//''"
  by (cases s; cases "tl s") (auto simp: before_def split: if_splits)

lemma split_uri_ok: "split_uri s = Some p \<Longrightarrow> parts_ok p"
proof (erule split_uri_cases)
  fix ssp
  assume p: "p = split_tail (p_scheme p) None ssp" and no: "take 2 ssp \<noteq> ''//''"
  show "parts_ok p"
    by (subst p) (simp add: parts_ok_def split_tail_ok p_path_split_tail take_2_before [OF no])
next
  fix ssp x
  let ?r = "drop (length (before ''/?#'' (drop 2 ssp)) + 2) ssp"
  assume p: "p = split_tail (p_scheme p) (Some x) ?r"
    and x: "split_authority (before ''/?#'' (drop 2 ssp)) = Some x"
  have "hd (before ''?#'' ?r) = CHR ''/''" if "before ''?#'' ?r \<noteq> []"
    using drop_before_hd [of "''/?#''" "drop 2 ssp"] that
    by (cases ?r) (auto simp: before_def split: if_splits)
  then show "parts_ok p"
    by (subst p) (simp add: parts_ok_def split_tail_ok p_path_split_tail split_authority_parts(2) [OF x])
qed

lemma split_uri_text: "split_uri s = Some p \<Longrightarrow> uri_text p = s"
proof (erule split_uri_cases)
  fix ssp
  assume p: "p = split_tail (p_scheme p) None ssp" and s: "s = p_scheme p @ CHR '':'' # ssp"
  have "ssp_text p = ssp" by (subst p) (simp add: ssp_text_def split_tail_ok split_tail_text)
  then show "uri_text p = s" using s by (simp add: uri_text_def)
next
  fix ssp x
  let ?a = "before ''/?#'' (drop 2 ssp)"
  let ?r = "drop (length ?a + 2) ssp"
  assume p: "p = split_tail (p_scheme p) (Some x) ?r" and s: "s = p_scheme p @ CHR '':'' # ssp"
    and x: "split_authority ?a = Some x" and two: "take 2 ssp = ''//''"
  have "ssp_text p = ''//'' @ ?a @ ?r"
    by (subst p) (simp only: ssp_text_def split_tail_ok split_tail_text split_authority_parts(1) [OF x] append_assoc)
  also have "\<dots> = ssp"
    using before_append [of "''/?#''" "drop 2 ssp"] take_2_append [OF two] by simp
  finally show "uri_text p = s" using s by (simp add: uri_text_def)
qed

text \<open>The object after the scheme has been found.\<close>

definition with_scheme :: "uri \<Rightarrow> nat \<Rightarrow> uri" where
  "with_scheme u n = (uri_clear u)\<lparr>scheme_c := \<lparr>c_offset = 0, c_length = n\<rparr>,
     ssp_c := \<lparr>c_offset = n + 1, c_length = length (uri_str u) - (n + 1)\<rparr>\<rparr>"

lemma uri_parse_with_scheme:
  assumes "CHR '':'' \<in> set (uri_str u)" and "before '':'' (uri_str u) \<noteq> []"
  shows "uri_parse u =
    bind_outcome (parse_generic_ssp (with_scheme u (length (before '':'' (uri_str u)))))
     (\<lambda>u1. bind_outcome (parse_authority u1)
       (\<lambda>(err, u2). if err \<noteq> URI_PARSE_OK then Done (u2\<lparr>parse_err := err\<rparr>)
          else after_split (u2\<lparr>parse_err := URI_PARSE_OK\<rparr>)))"
proof -
  have "uri_str u \<noteq> []" using assms(1) by auto
  then show ?thesis
    using assms unfolding uri_parse_def Let_def colon_find after_split_def with_scheme_def
    by (simp cong: if_cong)
qed

lemma parse_generic_ssp_with_scheme:
  assumes "uri_str u = sch @ CHR '':'' # ssp"
  shows "\<exists>x y z. parse_generic_ssp (with_scheme u (length sch)) =
    Done (ssp_parts (length sch + 1) ssp (authority_len ssp)
      ((with_scheme u (length sch))\<lparr>userinfo_c := x, host_c := y, port_c := z\<rparr>))"
  using parse_generic_ssp_eq [of "with_scheme u (length sch)" "sch @ '':''" ssp] assms
  by (simp add: with_scheme_def uri_clear_def new_uri_def)

lemma split_tail_parts:
  "p_path (split_tail sch a r) = p_path (split_tail [] None r)"
  "p_query (split_tail sch a r) = p_query (split_tail [] None r)"
  "p_fragment (split_tail sch a r) = p_fragment (split_tail [] None r)"
  by (simp_all add: split_tail_def Let_def)

lemma ssp_parts_laid_out:
  assumes "p = split_tail (p_scheme p) a (drop (length (authority_text a)) ssp)"
    and "uri_str u = uri_text p" and "laid_authority v (length (p_scheme p) + 1) a"
    and "v = (ssp_parts (length (p_scheme p) + 1) ssp (length (authority_text a)) (with_scheme u (length (p_scheme p))))
               \<lparr>userinfo_c := userinfo_c v, host_c := host_c v, port_c := port_c v, port_num := port_num v, parse_err := parse_err v\<rparr>"
  shows "laid_out v p"
proof -
  let ?p = "split_tail [] None (drop (length (authority_text a)) ssp)"
  have parts: "p_authority p = a" "p_path p = p_path ?p" "p_query p = p_query ?p" "p_fragment p = p_fragment ?p"
    by (subst assms(1), simp only: split_tail_ok split_tail_parts [of "p_scheme p" a])+
  let ?n = "length (p_scheme p) + 1"
  have v: "uri_str v = uri_str u" "scheme_c v = \<lparr>c_offset = 0, c_length = length (p_scheme p)\<rparr>"
    "ssp_c v = \<lparr>c_offset = ?n, c_length = length (uri_str u) - ?n\<rparr>"
    "path_c v = \<lparr>c_offset = ?n + length (authority_text a), c_length = length (p_path ?p)\<rparr>"
    "query_c v = \<lparr>c_offset = ?n + length (authority_text a) + length (p_path ?p), c_length = length (p_query ?p)\<rparr>"
    "fragment_c v = \<lparr>c_offset = ?n + length (authority_text a) + length (p_path ?p) + length (p_query ?p),
       c_length = length (p_fragment ?p)\<rparr>"
    by (subst assms(4), simp add: ssp_parts_def with_scheme_def uri_clear_def new_uri_def Let_def)+
  have "length (uri_str u) - ?n = length (ssp_text p)"
    using assms(2) by (simp add: uri_text_def)
  then show ?thesis
    using assms(2,3) unfolding laid_out_def Let_def v parts by simp
qed

lemma parse_authority_input:
  assumes "uri_str u = sch @ CHR '':'' # ssp" and "take 2 ssp = ''//''"
  shows "uri_authority (ssp_parts (length sch + 1) ssp (authority_len ssp)
      ((with_scheme u (length sch))\<lparr>userinfo_c := x, host_c := y, port_c := z\<rparr>)) = ''//'' @ before ''/?#'' (drop 2 ssp)"
    and "authority_c (ssp_parts (length sch + 1) ssp (authority_len ssp) v)
      = \<lparr>c_offset = length sch + 1, c_length = 2 + length (before ''/?#'' (drop 2 ssp))\<rparr>"
proof -
  let ?a = "before ''/?#'' (drop 2 ssp)"
  have "ssp = ''//'' @ ?a @ drop (length ?a) (drop 2 ssp)"
    using take_2_append [OF assms(2)] unfolding before_append .
  then have "take (2 + length ?a) ssp = ''//'' @ ?a"
    by (metis append_assoc append_eq_conv_conj length_append length_Cons list.size(3) numeral_2_eq_2)
  then show "uri_authority (ssp_parts (length sch + 1) ssp (authority_len ssp)
      ((with_scheme u (length sch))\<lparr>userinfo_c := x, host_c := y, port_c := z\<rparr>)) = ''//'' @ ?a"
    using assms by (simp add: uri_authority_def get_component_def substr_def ssp_parts_def with_scheme_def
      uri_clear_def new_uri_def Let_def authority_len_def)
qed (simp add: assms ssp_parts_def Let_def authority_len_def)

lemma uri_parse_split_Some:
  assumes "split_uri (uri_str u) = Some p"
  shows "\<exists>u3. laid_out u3 p \<and> parse_err u3 = URI_PARSE_OK \<and> validate_flag u3 = validate_flag u
    \<and> normalize_flag u3 = normalize_flag u \<and> uri_parse u = after_split u3"
proof -
  have colon: "CHR '':'' \<in> set (uri_str u)" "before '':'' (uri_str u) \<noteq> []"
    using assms by (auto simp: split_uri_def Let_def split: if_splits)
  show ?thesis
    using assms
  proof (cases rule: split_uri_cases)
    case (no_authority ssp)
    obtain x y z where ssp: "parse_generic_ssp (with_scheme u (length (p_scheme p))) =
      Done (ssp_parts (length (p_scheme p) + 1) ssp (authority_len ssp)
      ((with_scheme u (length (p_scheme p)))\<lparr>userinfo_c := x, host_c := y, port_c := z\<rparr>))"
      using parse_generic_ssp_with_scheme [OF no_authority(1)] by blast
    have none: "authority_len ssp = 0" using no_authority by (simp add: authority_len_def)
    let ?u1 = "ssp_parts (length (p_scheme p) + 1) ssp 0
      ((with_scheme u (length (p_scheme p)))\<lparr>userinfo_c := x, host_c := y, port_c := z\<rparr>)"
    let ?u2 = "?u1\<lparr>userinfo_c := authority_c ?u1, host_c := authority_c ?u1, port_c := authority_c ?u1\<rparr>"
    have "parse_authority ?u1 = Done (URI_PARSE_OK, ?u2)"
      by (simp add: parse_authority_def ssp_parts_def Let_def)
    then have "uri_parse u = after_split (?u2\<lparr>parse_err := URI_PARSE_OK\<rparr>)"
      using uri_parse_with_scheme [OF colon] ssp none no_authority(2) by simp
    moreover have "laid_out (?u2\<lparr>parse_err := URI_PARSE_OK\<rparr>) p"
      using no_authority split_uri_text [OF assms]
      by (intro ssp_parts_laid_out [where a = None and ssp = ssp and u = u])
        (simp_all add: laid_authority_def ssp_parts_def with_scheme_def uri_clear_def new_uri_def Let_def)
    ultimately show ?thesis 
      by (intro exI conjI) (auto simp: ssp_parts_def with_scheme_def uri_clear_def new_uri_def Let_def)
  next
    case (authority ssp x)
    let ?n = "length (p_scheme p)" and ?a = "before ''/?#'' (drop 2 ssp)"
    obtain x1 y z where ssp: "parse_generic_ssp (with_scheme u ?n) =
      Done (ssp_parts (?n + 1) ssp (authority_len ssp) ((with_scheme u ?n)\<lparr>userinfo_c := x1, host_c := y, port_c := z\<rparr>))"
      using parse_generic_ssp_with_scheme [OF authority(1)] by blast
    let ?u1 = "ssp_parts (?n + 1) ssp (authority_len ssp) ((with_scheme u ?n)\<lparr>userinfo_c := x1, host_c := y, port_c := z\<rparr>)"
    have u1: "uri_authority ?u1 = ''//'' @ ?a" "authority_c ?u1 = \<lparr>c_offset = ?n + 1, c_length = 2 + length ?a\<rparr>"
      using parse_authority_input [OF authority(1,4)] by simp_all
    obtain pn where pn: "parse_authority ?u1 = Done (URI_PARSE_OK, authority_at (?n + 1) x pn ?u1)"
      using parse_authority_eq [OF u1] authority(5) by auto
    let ?u2 = "(authority_at (?n + 1) x pn ?u1)\<lparr>parse_err := URI_PARSE_OK\<rparr>"
    have "uri_parse u = after_split ?u2"
      using uri_parse_with_scheme [OF colon] ssp pn authority(2) by simp
    moreover have "laid_out ?u2 p"
    proof (rule ssp_parts_laid_out [where a = "Some x" and ssp = ssp and u = u])
      have len: "length (authority_text (Some x)) = 2 + length ?a"
        by (simp only: split_authority_parts(1) [OF authority(5)]) simp
      show "p = split_tail (p_scheme p) (Some x) (drop (length (authority_text (Some x))) ssp)"
        using authority(6) unfolding len by (simp add: add.commute)
      show "uri_str u = uri_text p" using split_uri_text [OF assms] by simp
      show "laid_authority ?u2 (length (p_scheme p) + 1) (Some x)"
        unfolding laid_authority_def len using authority(4)
        by (cases x) (auto simp: authority_at_def ssp_parts_def Let_def authority_len_def split: option.splits)
      show "?u2 = (ssp_parts (?n + 1) ssp (length (authority_text (Some x))) (with_scheme u ?n))
        \<lparr>userinfo_c := userinfo_c ?u2, host_c := host_c ?u2, port_c := port_c ?u2,
         port_num := port_num ?u2, parse_err := parse_err ?u2\<rparr>"
        unfolding len using authority(4)
        by (auto simp: authority_at_def ssp_parts_def Let_def authority_len_def with_scheme_def uri_clear_def new_uri_def split: prod.splits)
    qed
    ultimately show ?thesis 
      by (intro exI conjI) (auto simp: authority_at_def ssp_parts_def with_scheme_def uri_clear_def new_uri_def Let_def split: prod.splits)
  qed
qed

lemma uri_parse_split_None:
  assumes "split_uri (uri_str u) = None"
  shows "\<exists>u'. uri_parse u = Done u' \<and> parse_err u' \<noteq> URI_PARSE_OK"
proof (cases "CHR '':'' \<in> set (uri_str u) \<and> before '':'' (uri_str u) \<noteq> []")
  case False
  then show ?thesis unfolding uri_parse_def Let_def colon_find
    by (auto simp: split_uri_def)
next
  case True
  let ?n = "length (before '':'' (uri_str u))" 
  let ?ssp = "drop (?n + 1) (uri_str u)"
  let ?a = "before ''/?#'' (drop 2 ?ssp)"
  have split: "take 2 ?ssp = ''//''" "split_authority ?a = None"
    using assms True unfolding split_uri_def Let_def by (simp_all split: if_splits)
  note whole = colon_split [OF conjunct1 [OF True]]
  obtain x y z where ssp: "parse_generic_ssp (with_scheme u ?n) =
      Done (ssp_parts (?n + 1) ?ssp (authority_len ?ssp) ((with_scheme u ?n)\<lparr>userinfo_c := x, host_c := y, port_c := z\<rparr>))"
    using parse_generic_ssp_with_scheme [OF whole] by blast
  let ?u1 = "ssp_parts (?n + 1) ?ssp (authority_len ?ssp) ((with_scheme u ?n)\<lparr>userinfo_c := x, host_c := y, port_c := z\<rparr>)"
  have u1: "uri_authority ?u1 = ''//'' @ ?a" "authority_c ?u1 = \<lparr>c_offset = ?n + 1, c_length = 2 + length ?a\<rparr>"
    using parse_authority_input [OF whole split(1)] by simp_all
  obtain err u' where "parse_authority ?u1 = Done (err, u')" "err \<noteq> URI_PARSE_OK"
    using parse_authority_eq [OF u1] split(2) by auto
  then show ?thesis using uri_parse_with_scheme True ssp by simp
qed

section \<open>Validation does not abort\<close>

lemma check_chars_no_percent:
  "check_chars allowed err s = URI_PARSE_OK \<Longrightarrow> err \<noteq> URI_PARSE_OK \<Longrightarrow> \<not> allowed CHR ''%'' \<Longrightarrow>
   \<exists>t. decode_chars allowed' s = Done t"
proof (induction allowed err s rule: check_chars.induct)
  case (2 allowed err c s)
  show ?case
  proof (cases "c = CHR ''%''")
    case True
    then obtain a b r where s: "s = a # b # r" "is_hexdig a" "is_hexdig b" "check_chars allowed err r = URI_PARSE_OK"
      using 2(3,4,5) by (auto split: list.splits if_splits)
    then obtain t where "decode_chars allowed' r = Done t"
      using 2(2) [OF _ True s(1) refl] 2(4,5) True by blast
    then show ?thesis using True s by (simp add: Let_def)
  next
    case False
    then have "allowed c" "check_chars allowed err s = URI_PARSE_OK"
      using 2(3,4) by (auto split: if_splits)
    then obtain t where "decode_chars allowed' s = Done t" using 2(1,4,5) by blast
    then show ?thesis using False by simp
  qed
qed simp

lemma hexdig_not_percent [simp]: "\<not> is_hexdig CHR ''%''" "\<not> isdigit CHR ''%''"
  by (simp_all add: is_hexdig_def isdigit_def ord_def)

lemma set_take_count_prefix: "c \<in> set (take (count_prefix P n s) s) \<Longrightarrow> P c"
  by (induction P n s rule: count_prefix.induct) (auto split: if_splits)

lemma percent_after_prefix:
  "\<not> P c \<Longrightarrow> c \<in> set s \<Longrightarrow> c \<in> set (drop (count_prefix P n s) s)"
  using set_take_count_prefix [of c P n s] by (metis Un_iff append_take_drop_id set_append)

lemma ipv4_octets_percent: "ipv4_octets k s \<Longrightarrow> CHR ''%'' \<notin> set s"
proof (induction k arbitrary: s)
  case (Suc k)
  show ?case
  proof
    assume "CHR ''%'' \<in> set s"
    then have "CHR ''%'' \<in> set (drop (count_prefix isdigit 3 s) s)" by (rule percent_after_prefix [rotated]) simp
    then show False using Suc by (auto simp: Let_def split: if_splits list.splits)
  qed
qed simp

lemma ipv6_pieces_percent:
  "ipv6_pieces rest pieces dc pdc = Some (remaining, decimal, p', dc') \<Longrightarrow> CHR ''%'' \<in> set rest \<Longrightarrow>
   remaining \<noteq> [] \<and> CHR ''%'' \<in> set decimal"
proof (induction rest pieces dc pdc rule: ipv6_pieces.induct)
  case (1 rest pieces dc pdc)
  have "CHR ''%'' \<in> set (drop (count_prefix is_hexdig 4 rest) rest)"
    using 1(5) by (rule percent_after_prefix [rotated]) simp
  then show ?case using 1 
    by (subst (asm) ipv6_pieces.simps) (auto simp: Let_def split: if_splits list.splits)
qed

lemma validate_panics:
  assumes "laid_out u p" and "parts_ok p"
  shows "\<exists>e. validate u = Done e"
proof -
  have ui: "\<exists>e. validate_userinfo u = Done e" 
    using assms laid_out_authority_accessors(1) [OF assms(1)]
    by (auto simp: validate_userinfo_def parts_ok_def authority_ok_def layout split: option.splits)
  have h: "\<exists>e. validate_host u = Done e" 
    using assms laid_out_authority_accessors(2) [OF assms(1)]
    by (auto simp: validate_host_def parts_ok_def authority_ok_def Let_def split: option.splits)
  have pa: "\<exists>e. validate_path u = Done e"
    using assms laid_out_accessors [OF assms(1)]
    by (auto simp: validate_path_def parts_ok_def layout assert_that_def split: option.splits)
  have qu: "\<exists>e. validate_query u = Done e"
    using assms laid_out_accessors [OF assms(1)]
    by (auto simp: validate_query_def parts_ok_def layout)
  have fr: "\<exists>e. validate_fragment u = Done e"
    using assms laid_out_accessors [OF assms(1)]
    by (auto simp: validate_fragment_def parts_ok_def layout)
  show ?thesis using ui h pa qu fr by (auto simp: validate_def and_then_def)
qed

lemma not_percent_chars [simp]:
  "\<not> userinfo_char CHR ''%''" "\<not> host_char CHR ''%''" "\<not> path_char CHR ''%''" "\<not> query_char CHR ''%''"
  by (simp_all add: userinfo_char_def host_char_def path_char_def query_char_def is_unreserved_def
      is_sub_delim_def isalnum_def isalpha_def isupper_def islower_def isdigit_def ord_def)

lemma validate_ip_literal_percent:
  assumes "validate_ip_literal h = URI_PARSE_OK"
  shows "CHR ''%'' \<notin> set h"
proof
  assume percent: "CHR ''%'' \<in> set h"
  then obtain c s where h: "h = c # s" by (cases h) auto
  show False
  proof (cases "c = CHR ''v'' \<or> c = CHR ''V''")
    case True
    then have future: "validate_ipvfuture s = URI_PARSE_OK" "CHR ''%'' \<in> set s"
      using assms h percent by (auto simp: validate_ip_literal_def)
    then obtain d r where s: "s = d # r" by (cases s) auto
    have d: "is_hexdig d" using future s by (auto simp: validate_ipvfuture_def split: if_splits)
    have "CHR ''%'' \<in> set (dropWhile is_hexdig r)"
    proof -
      have "CHR ''%'' \<notin> set (takeWhile is_hexdig r)" using set_takeWhileD [of "CHR ''%''" is_hexdig r] by auto
      moreover have "CHR ''%'' \<in> set r" using future s d by auto
      ultimately show ?thesis by (metis Un_iff set_append takeWhile_dropWhile_id)
    qed
    then show False
      using future s by (auto simp: validate_ipvfuture_def list_all_iff split: if_splits list.splits)
  next
    case False
    then show False
      using assms h percent ipv6_pieces_percent [of h 0 False False] ipv4_octets_percent
      by (auto simp: validate_ip_literal_def Let_def split: if_splits option.splits prod.splits)
  qed
qed

lemma decode_chars_id: "CHR ''%'' \<notin> set s \<Longrightarrow> decode_chars al s = Done s"
  by (induction s) auto

lemma decode_chars_snoc:
  "decode_chars al s = Done t \<Longrightarrow> c \<noteq> CHR ''%'' \<Longrightarrow> decode_chars al (s @ [c]) = Done (t @ [c])"
proof (induction al s arbitrary: t rule: decode_chars.induct)
  case (2 al x s)
  show ?case
  proof (cases "x = CHR ''%''")
    case True
    then obtain a b r where s: "s = a # b # r" "is_hexdig a" "is_hexdig b"
      using 2(3) by (auto split: list.splits simp: assert_that_def split: if_splits)
    then obtain t' where t': "decode_chars al r = Done t'" using 2(3) True by (auto simp: bind_outcome_Done_iff)
    then show ?thesis using 2(1) [OF True s(1) refl t' 2(4)] 2(3) s True by (auto simp: Let_def)
  next
    case False
    then show ?thesis using 2 by (auto simp: bind_outcome_Done_iff)
  qed
qed simp

definition decodable :: "string \<Rightarrow> bool" where
  "decodable s \<longleftrightarrow> (\<forall>al. \<exists>t. decode_chars al s = Done t)"

lemma check_chars_decodable:
  assumes "check_chars al err s = URI_PARSE_OK" and "err \<noteq> URI_PARSE_OK" and "\<not> al CHR ''%''"
  shows "decodable s"
  unfolding decodable_def using check_chars_no_percent [OF assms] by blast

lemma decodable_snoc: "decodable s \<Longrightarrow> c \<noteq> CHR ''%'' \<Longrightarrow> decodable (s @ [c])"
  unfolding decodable_def using decode_chars_snoc by blast

lemma decodable_Cons: "decodable s \<Longrightarrow> c \<noteq> CHR ''%'' \<Longrightarrow> decodable (c # s)"
  unfolding decodable_def by (metis decode_chars.simps(2) bind_outcome.simps(1))

lemma decodable_no_percent: "CHR ''%'' \<notin> set s \<Longrightarrow> decodable s"
  unfolding decodable_def using decode_chars_id by blast

definition parts_decodable :: "uri_parts \<Rightarrow> bool" where
  "parts_decodable p \<longleftrightarrow>
     (case p_authority p of None \<Rightarrow> True | Some (ui, h, po) \<Rightarrow> decodable ui \<and> decodable h)
     \<and> decodable (p_path p) \<and> decodable (p_query p) \<and> decodable (p_fragment p)"

lemma and_then_OK: "and_then m k = Done URI_PARSE_OK \<longleftrightarrow> m = Done URI_PARSE_OK \<and> k = Done URI_PARSE_OK"
  by (auto simp: and_then_def bind_outcome_Done_iff)

lemma assert_that_Done: "assert_that b k = Done x \<longleftrightarrow> b \<and> k = Done x"
  by (simp add: assert_that_def)

lemma validate_decodable:
  assumes "laid_out u p" and "validate u = Done URI_PARSE_OK"
  shows "parts_decodable p"
proof -
  have ok: "validate_userinfo u = Done URI_PARSE_OK" "validate_host u = Done URI_PARSE_OK"
    "validate_path u = Done URI_PARSE_OK" "validate_query u = Done URI_PARSE_OK"
    "validate_fragment u = Done URI_PARSE_OK"
    using assms(2) by (auto simp: validate_def and_then_OK)
  have lens: "c_length (path_c u) = length (p_path p)" "c_length (query_c u) = length (p_query p)"
    "c_length (fragment_c u) = length (p_fragment p)"
    using assms(1) by (simp_all add: layout)
  note acc = laid_out_accessors [OF assms(1)] laid_out_authority_accessors [OF assms(1)]
  have pa: "decodable (p_path p)"
    using ok(3) check_chars_decodable [of path_char URI_PARSE_BAD_PATH "p_path p"]
    by (auto simp: validate_path_def acc lens Let_def assert_that_Done decodable_no_percent split: if_splits)
  have qu: "decodable (p_query p)"
    using ok(4) check_chars_decodable [of query_char URI_PARSE_BAD_QUERY "tl (p_query p)"]
      decodable_Cons [of "tl (p_query p)" "CHR ''?''"]
    by (cases "p_query p") (auto simp: validate_query_def acc lens Let_def assert_that_Done decodable_no_percent split: if_splits)
  have fr: "decodable (p_fragment p)"
    using ok(5) check_chars_decodable [of query_char URI_PARSE_BAD_FRAGMENT "tl (p_fragment p)"]
      decodable_Cons [of "tl (p_fragment p)" "CHR ''#''"]
    by (cases "p_fragment p") (auto simp: validate_fragment_def acc lens Let_def assert_that_Done decodable_no_percent split: if_splits)
  have ui: "decodable ui" if "p_authority p = Some (ui, h, po)" for ui h po
  proof (cases "ui = []")
    case False
    then have "last ui = CHR ''@''" "check_chars userinfo_char URI_PARSE_BAD_USERINFO (butlast ui) = URI_PARSE_OK"
      using ok(1) that assms(1) by (auto simp: validate_userinfo_def acc Let_def assert_that_Done layout)
    then show ?thesis
      using check_chars_decodable [of userinfo_char URI_PARSE_BAD_USERINFO "butlast ui"]
        decodable_snoc [of "butlast ui" "CHR ''@''"] False append_butlast_last_id [OF False] by auto
  qed (simp add: decodable_no_percent)
  have h: "decodable h" if "p_authority p = Some (ui, h, po)" for ui h po
  proof (cases "h \<noteq> [] \<and> hd h = CHR ''[''")
    case True
    then have last: "last h = CHR '']''" and lit: "CHR ''%'' \<notin> set (butlast (tl h))"
      using ok(2) that validate_ip_literal_percent by (auto simp: validate_host_def acc Let_def assert_that_Done)
    then have "tl h \<noteq> []" using True by (cases h) auto
    then have "h = CHR ''['' # butlast (tl h) @ '']''"
      using True last by (metis append_butlast_last_id last_tl list.collapse)
    then have "set h = set (CHR ''['' # butlast (tl h) @ '']'')" by (rule arg_cong)
    then have "CHR ''%'' \<notin> set h" using lit by simp
    then show ?thesis by (rule decodable_no_percent)
  next
    case False
    then show ?thesis
      using ok(2) that check_chars_decodable [of host_char URI_PARSE_BAD_HOST h]
      by (auto simp: validate_host_def acc Let_def decodable_no_percent split: if_splits)
  qed
  show ?thesis using pa qu fr ui h by (auto simp: parts_decodable_def split: option.splits)
qed

section \<open>Normalisation keeps the layout\<close>

text \<open>The result is laid out by some parts, with the flags of the object kept.\<close>

definition good :: "uri \<Rightarrow> uri_parts \<Rightarrow> bool" where
  "good u p \<longleftrightarrow> laid_out u p \<and> parse_err u = URI_PARSE_OK"

lemma refines_part_iff:
  "refines_part r u p \<longleftrightarrow> (\<exists>u'. r = Done u' \<and> good u' p
     \<and> normalize_flag u' = normalize_flag u \<and> validate_flag u' = validate_flag u)"
  by (cases r) (auto simp: refines_part_def good_def)

lemma decode_component_cases:
  assumes "decodable s" and "\<And>t. CHR ''%'' \<in> set s \<Longrightarrow> decode_chars al s = Done t \<Longrightarrow> \<exists>u'. setter t u = Done u' \<and> P t u'"
    and "CHR ''%'' \<notin> set s \<Longrightarrow> P s u"
  shows "\<exists>t u'. decode_component al s setter u = Done u' \<and> decode_chars al s = Done t \<and> P t u'"
proof (cases "CHR ''%'' \<in> set s")
  case True
  moreover obtain t where "decode_chars al s = Done t" using assms(1) by (auto simp: decodable_def)
  ultimately show ?thesis using assms(2) by (fastforce simp: decode_component_def)
next
  case False
  then show ?thesis using assms(3) by (auto simp: decode_component_def decode_chars_id)
qed

lemma decode_path_good:
  assumes "good u p" and "decodable (p_path p)"
  shows "\<exists>t u'. decode_path u = Done u' \<and> decode_chars pchar (p_path p) = Done t \<and> good u' (p\<lparr>p_path := t\<rparr>)"
proof -
  have text_eq: "uri_path u = p_path p" and set_text: "\<And>t. refines_part (set_path t u) u (p\<lparr>p_path := t\<rparr>)"
    using assms(1) laid_out_accessors [of u p] set_path_layout [of u p] by (simp_all add: good_def)
  show ?thesis unfolding decode_path_def text_eq
    by (rule decode_component_cases [OF assms(2)]) (use set_text assms(1) in \<open>auto simp: refines_part_iff\<close>)
qed

lemma decode_query_good:
  assumes "good u p" and "decodable (p_query p)"
  shows "\<exists>t u'. decode_query u = Done u' \<and> decode_chars query_char (p_query p) = Done t \<and> good u' (p\<lparr>p_query := t\<rparr>)"
proof -
  have text_eq: "uri_query u = p_query p" and set_text: "\<And>t. refines_part (set_query t u) u (p\<lparr>p_query := t\<rparr>)"
    using assms(1) laid_out_accessors [of u p] set_query_layout [of u p] by (simp_all add: good_def)
  show ?thesis unfolding decode_query_def text_eq
    by (rule decode_component_cases [OF assms(2)]) (use set_text assms(1) in \<open>auto simp: refines_part_iff\<close>)
qed

lemma decode_fragment_good:
  assumes "good u p" and "decodable (p_fragment p)"
  shows "\<exists>t u'. decode_fragment u = Done u' \<and> decode_chars query_char (p_fragment p) = Done t \<and> good u' (p\<lparr>p_fragment := t\<rparr>)"
proof -
  have text_eq: "uri_fragment u = p_fragment p" and set_text: "\<And>t. refines_part (set_fragment t u) u (p\<lparr>p_fragment := t\<rparr>)"
    using assms(1) laid_out_accessors [of u p] set_fragment_layout [of u p] by (simp_all add: good_def)
  show ?thesis unfolding decode_fragment_def text_eq
    by (rule decode_component_cases [OF assms(2)]) (use set_text assms(1) in \<open>auto simp: refines_part_iff\<close>)
qed

lemma decode_authority_good:
  assumes "good u p" and "p_authority p = Some (ui, h, po)" and "decodable ui" and "decodable h"
  shows "\<exists>ui' h' u'. decode_authority u = Done u' \<and> decode_chars userinfo_char ui = Done ui'
    \<and> decode_chars host_char h = Done h' \<and> good u' (p\<lparr>p_authority := Some (ui', h', po)\<rparr>)"
proof -
  have acc: "uri_userinfo u = ui" and set_ui: "\<And>t. refines_part (set_userinfo t u) u (p\<lparr>p_authority := Some (t, h, po)\<rparr>)"
    using assms(1,2) laid_out_authority_accessors [of u p] set_userinfo_layout [of u p] by (simp_all add: good_def)
  have same: "p\<lparr>p_authority := Some (ui, h, po)\<rparr> = p" using assms(2) by (cases p) simp
  have "\<exists>ui' u1. decode_component userinfo_char ui set_userinfo u = Done u1 \<and> decode_chars userinfo_char ui = Done ui'
    \<and> good u1 (p\<lparr>p_authority := Some (ui', h, po)\<rparr>)"
    by (rule decode_component_cases [OF assms(3)])
      (use set_ui assms(1) same in \<open>auto simp: refines_part_iff\<close>)
  then obtain ui' u1 where u1: "decode_component userinfo_char ui set_userinfo u = Done u1"
    "decode_chars userinfo_char ui = Done ui'" "good u1 (p\<lparr>p_authority := Some (ui', h, po)\<rparr>)" by blast
  have acc1: "uri_host u1 = h" and set_h: "\<And>t. refines_part (set_host t u1) u1 (p\<lparr>p_authority := Some (ui', t, po)\<rparr>)"
    using u1(3) laid_out_authority_accessors [of u1 "p\<lparr>p_authority := Some (ui', h, po)\<rparr>"]
      set_host_layout [of u1 "p\<lparr>p_authority := Some (ui', h, po)\<rparr>" ui' h po] by (simp_all add: good_def)
  have "\<exists>h' u2. decode_component host_char h set_host u1 = Done u2 \<and> decode_chars host_char h = Done h'
    \<and> good u2 (p\<lparr>p_authority := Some (ui', h', po)\<rparr>)"
    by (rule decode_component_cases [OF assms(4)])
      (use set_h u1(3) in \<open>auto simp: refines_part_iff\<close>)
  then show ?thesis using u1 by (auto simp: decode_authority_def acc acc1)
qed

lemma length_lower_host: "length (lower_host h) = length h"
  by (induction h rule: lower_host.induct) (auto split: list.splits)

lemma lower_host_layout:
  assumes "good u p" and "p_authority p = Some (ui, h, po)"
  shows "good (replace_component u (host_c u) (lower_host (uri_host u))) (p\<lparr>p_authority := Some (ui, lower_host h, po)\<rparr>)"
proof -
  have "uri_host u = h" using assms laid_out_authority_accessors [of u p] by (simp add: good_def)
  then show ?thesis
    using assms length_lower_host [of h]
    by (auto simp: good_def replace_component_def replace_def layout numeral_eq_Suc Suc_diff_le split: option.splits)
qed

lemma normalize_scheme_good:
  assumes "good u p"
  shows "good (normalize_scheme u) (p\<lparr>p_scheme := map tolower (p_scheme p)\<rparr>)"
  using assms laid_out_accessors [of u p]
  by (auto simp: good_def normalize_scheme_def replace_component_def replace_def layout split: option.splits)

text \<open>The dot-segment removal of \<open>normalize_path\<close>, as a function of the path.\<close>

definition remove_dots :: "string \<Rightarrow> string \<times> bool" where
  "remove_dots s =
     (let (path, modified) = dot_loop s 0 False; n = length path
      in if path = ''.'' then ([], True)
         else if path = ''..'' then ([], True)
         else if n \<ge> 2 \<and> drop (n - 2) path = ''/.'' then (erase path (n - 1) 1, True)
         else if n \<ge> 3 \<and> drop (n - 3) path = ''/..''
         then (if n = 3 then (erase path (n - 2) 2, True)
               else let prev = end_or (find_last_slash path (n - 4)) 0
                    in (erase path prev (n - prev) @ ''/'', True))
         else (path, modified))"

lemma dot_loop_modified: "m \<Longrightarrow> snd (dot_loop s c m)"
proof (induction s c m rule: dot_loop.induct)
  case (1 path checkpoint modified)
  show ?case
  proof (cases "find_dot_from path checkpoint")
    case None
    then show ?thesis using 1 by (simp add: dot_loop.simps)
  next
    case (Some dot)
    note IH = 1(1-5) [OF Some]
    show ?thesis
      unfolding dot_loop.simps [of path checkpoint modified] Some option.case
      using IH by (simp only: if_splits Let_def) blast
  qed
qed

lemma dot_loop_unmodified: "\<not> snd (dot_loop s c False) \<Longrightarrow> fst (dot_loop s c False) = s"
  unfolding dot_loop.simps [of s c False]
  by (auto simp: Let_def dot_loop_modified split: option.splits if_splits)

lemma remove_dots_unmodified: "\<not> snd (remove_dots s) \<Longrightarrow> fst (remove_dots s) = s"
  using dot_loop_unmodified [of s 0]
  by (auto simp: remove_dots_def Let_def split: prod.splits if_splits)

lemma normalize_path_good:
  assumes "good u p" and "decodable (p_path p)"
  shows "\<exists>t u'. normalize_path u = Done u' \<and> decode_chars pchar (p_path p) = Done t
    \<and> good u' (p\<lparr>p_path := fst (remove_dots t)\<rparr>)"
proof -
  obtain t u1 where u1: "decode_path u = Done u1" "decode_chars pchar (p_path p) = Done t" "good u1 (p\<lparr>p_path := t\<rparr>)"
    using decode_path_good [OF assms] by blast
  have acc: "uri_path u1 = t"
    using u1(3) laid_out_accessors(4) [of u1 "p\<lparr>p_path := t\<rparr>"] by (simp add: good_def)
  have set: "\<exists>u'. set_path s u1 = Done u' \<and> good u' (p\<lparr>p_path := s\<rparr>)" for s
    using u1(3) set_path_layout [of u1 "p\<lparr>p_path := t\<rparr>" s] by (auto simp: good_def refines_part_iff)
  have "normalize_path u = (if snd (remove_dots t) then set_path (fst (remove_dots t)) u1 else Done u1)"
    by (auto simp: normalize_path_def u1(1) acc remove_dots_def Let_def split: prod.splits)
  then show ?thesis
    using set [of "fst (remove_dots t)"] u1 remove_dots_unmodified [of t] by (cases "snd (remove_dots t)") auto
qed

text \<open>Normalisation on the parts.\<close>

lemma laid_out_parse_err [simp]: "laid_out (u\<lparr>parse_err := e\<rparr>) p = laid_out u p"
  by (simp add: laid_out_def laid_authority_def split: option.splits)

fun normal_authority :: "(string \<times> string \<times> string option) option \<Rightarrow> (string \<times> string \<times> string option) option outcome" where
  "normal_authority None = Done None"
| "normal_authority (Some (ui, h, po)) =
     bind_outcome (decode_chars userinfo_char ui)
       (\<lambda>ui'. bind_outcome (decode_chars host_char h) (\<lambda>h'. Done (Some (ui', lower_host h', po))))"

definition normal_parts :: "uri_parts \<Rightarrow> uri_parts outcome" where
  "normal_parts p =
     bind_outcome (normal_authority (p_authority p))
      (\<lambda>a. bind_outcome (decode_chars pchar (p_path p))
      (\<lambda>t. bind_outcome (decode_chars query_char (p_query p))
      (\<lambda>q. bind_outcome (decode_chars query_char (p_fragment p))
      (\<lambda>f. Done \<lparr>p_scheme = map tolower (p_scheme p), p_authority = a,
                  p_path = fst (remove_dots t), p_query = q, p_fragment = f\<rparr>))))"

lemma normalize_authority_good:
  assumes "good u p" and "parts_decodable p"
  shows "\<exists>a u'. normalize_authority u = Done u' \<and> normal_authority (p_authority p) = Done a
    \<and> good u' (p\<lparr>p_authority := a\<rparr>)"
proof (cases "p_authority p")
  case None
  then have empty: "uri_userinfo u = []" "uri_host u = []" "c_length (host_c u) = 0"
    using assms(1) laid_out_authority_accessors [of u p] by (simp_all add: good_def layout)
  have "replace_component u (host_c u) [] = u"
    using empty by (simp add: replace_component_def replace_def)
  moreover have "p\<lparr>p_authority := None\<rparr> = p" using None by (cases p) simp
  ultimately have "good u (p\<lparr>p_authority := None\<rparr>)" using assms(1) by metis
  then show ?thesis
    using None empty \<open>replace_component u (host_c u) [] = u\<close>
    by (simp add: normalize_authority_def decode_authority_def decode_component_def)
next
  case (Some x)
  obtain ui h po where x: "x = (ui, h, po)" by (cases x) auto
  then have dec: "decodable ui" "decodable h" using assms(2) Some by (auto simp: parts_decodable_def)
  obtain ui' h' u1 where u1: "decode_authority u = Done u1" "decode_chars userinfo_char ui = Done ui'"
      "decode_chars host_char h = Done h'" "good u1 (p\<lparr>p_authority := Some (ui', h', po)\<rparr>)"
    using decode_authority_good [OF assms(1) _ dec] Some x by blast
  then show ?thesis
    using lower_host_layout [OF u1(4)] Some x by (simp add: normalize_authority_def)
qed

lemma normalize_good:
  assumes "good u p" and "parts_decodable p"
  shows "\<exists>q u'. normalize u = Done u' \<and> normal_parts p = Done q \<and> good u' q"
proof -
  let ?p1 = "p\<lparr>p_scheme := map tolower (p_scheme p)\<rparr>"
  have "parts_decodable ?p1" using assms(2) by (simp add: parts_decodable_def)
  then obtain a u1 where u1: "normalize_authority (normalize_scheme u) = Done u1" "normal_authority (p_authority p) = Done a"
      "good u1 (?p1\<lparr>p_authority := a\<rparr>)"
    using normalize_authority_good [OF normalize_scheme_good [OF assms(1)]] by auto
  obtain t u2 where u2: "normalize_path u1 = Done u2" "decode_chars pchar (p_path p) = Done t"
      "good u2 (?p1\<lparr>p_authority := a, p_path := fst (remove_dots t)\<rparr>)"
    using normalize_path_good [OF u1(3)] assms(2) by (auto simp: parts_decodable_def)
  obtain q u3 where u3: "decode_query u2 = Done u3" "decode_chars query_char (p_query p) = Done q"
      "good u3 (?p1\<lparr>p_authority := a, p_path := fst (remove_dots t), p_query := q\<rparr>)"
    using decode_query_good [OF u2(3)] assms(2) by (auto simp: parts_decodable_def)
  obtain f u4 where u4: "decode_fragment u3 = Done u4" "decode_chars query_char (p_fragment p) = Done f"
      "good u4 (?p1\<lparr>p_authority := a, p_path := fst (remove_dots t), p_query := q, p_fragment := f\<rparr>)"
    using decode_fragment_good [OF u3(3)] assms(2) by (auto simp: parts_decodable_def)
  have "?p1\<lparr>p_authority := a, p_path := fst (remove_dots t), p_query := q, p_fragment := f\<rparr>
      = \<lparr>p_scheme = map tolower (p_scheme p), p_authority = a, p_path = fst (remove_dots t), p_query = q, p_fragment = f\<rparr>"
    by (cases p) simp
  then show ?thesis
    using u1(1,2) u2(1,2) u3(1,2) u4 unfolding normalize_def normal_parts_def by (metis bind_outcome.simps(1))
qed

lemma uri_parse_validated:
  "case uri_parse (new_uri s True n) of
     Panic \<Rightarrow> False
   | Done u \<Rightarrow>
       if uri_valid u
       then \<exists>p q. split_uri s = Some p \<and> (if n then normal_parts p = Done q else q = p) \<and> laid_out u q
       else True"
proof (cases "split_uri s")
  case None
  then show ?thesis using uri_parse_split_None [of "new_uri s True n"] by (auto simp: new_uri_def uri_valid_def)
next
  case (Some p)
  then obtain u3 where u3: "laid_out u3 p" "parse_err u3 = URI_PARSE_OK" "validate_flag u3" "normalize_flag u3 = n"
      "uri_parse (new_uri s True n) = after_split u3"
    using uri_parse_split_Some [of "new_uri s True n" p] by (auto simp: new_uri_def)
  obtain e where e: "validate u3 = Done e" using validate_panics [OF u3(1) split_uri_ok [OF Some]] by blast
  show ?thesis
  proof (cases "e = URI_PARSE_OK")
    case True
    then have "parts_decodable p" using validate_decodable u3(1) e by blast
    then obtain q u' where "normalize u3 = Done u'" "normal_parts p = Done q" "good u' q"
      using normalize_good [of u3 p] u3 by (auto simp: good_def)
    then show ?thesis
      using Some u3 e True by (auto simp: after_split_def uri_valid_def good_def)
  next
    case False
    then show ?thesis using u3 e by (simp add: after_split_def uri_valid_def)
  qed
qed

section \<open>Properties\<close>

text \<open>
  C4. The index arithmetic of the parser computes the reference split: without validation
  and normalisation, a string that has no scheme, an unclosed bracket or text after the
  host that is not a port is refused with an error, and any other string is accepted with
  its components laid out one after another, each with exactly the text of the split.
\<close>

theorem uri_parse_computes_split:
  "case split_uri s of
     None \<Rightarrow> \<exists>u. uri_parse (new_uri s False False) = Done u \<and> \<not> uri_valid u
   | Some p \<Rightarrow> \<exists>u. uri_parse (new_uri s False False) = Done u \<and> uri_valid u \<and> laid_out u p \<and> uri_text p = s"
proof (cases "split_uri s")
  case None
  then show ?thesis using uri_parse_split_None [of "new_uri s False False"] by (simp add: new_uri_def uri_valid_def)
next
  case (Some p)
  then obtain u3 where "laid_out u3 p" "parse_err u3 = URI_PARSE_OK" "\<not> validate_flag u3" "\<not> normalize_flag u3"
      "uri_parse (new_uri s False False) = after_split u3"
    using uri_parse_split_Some [of "new_uri s False False" p] by (auto simp: new_uri_def)
  then show ?thesis
    using Some split_uri_text [OF Some] by (simp add: after_split_def uri_valid_def)
qed

text \<open>
  C3. A validated URI never aborts the daemon: on every string, with or without
  normalisation, the parser returns, no assertion of the validators, the decoders or the
  setters fails, and where it accepts, the object is laid out by the parts of the split or
  by their normal form.
\<close>

theorem uri_parse_validated_safe:
  "case uri_parse (new_uri s True n) of
     Panic \<Rightarrow> False
   | Done u \<Rightarrow>
       if uri_valid u
       then \<exists>p q. split_uri s = Some p \<and> (if n then normal_parts p = Done q else q = p) \<and> laid_out u q
       else True"
  by (rule uri_parse_validated)


definition example_parts :: uri_parts where
  "example_parts = \<lparr>p_scheme = ''dtn'', p_authority = Some ([], ''h'', None), p_path = ''/a'', p_query = [], p_fragment = []\<rparr>"

definition example_uri :: uri where
  "example_uri = (new_uri ''dtn://h/a'' True True)\<lparr>scheme_c := \<lparr>c_offset = 0, c_length = 3\<rparr>,
     ssp_c := \<lparr>c_offset = 4, c_length = 5\<rparr>, authority_c := \<lparr>c_offset = 4, c_length = 3\<rparr>,
     userinfo_c := \<lparr>c_offset = 6, c_length = 0\<rparr>, host_c := \<lparr>c_offset = 6, c_length = 1\<rparr>,
     port_c := \<lparr>c_offset = 7, c_length = 0\<rparr>, path_c := \<lparr>c_offset = 7, c_length = 2\<rparr>,
     query_c := \<lparr>c_offset = 9, c_length = 0\<rparr>, fragment_c := \<lparr>c_offset = 9, c_length = 0\<rparr>,
     parse_err := URI_PARSE_OK\<rparr>"


text \<open>
  Normalisation is not idempotent: the removal of a parent segment can leave two
  slashes at the front, which the next parse reads as an authority.
\<close>

theorem normal_form_changes_meaning:
  "(case uri_parse (new_uri ''x:/a/..//b'' True True) of
      Panic \<Rightarrow> None
    | Done u \<Rightarrow> Some (uri_str u, uri_authority u, uri_path u))
     = Some (''x://b'', [], ''//b'')
   \<and> (case uri_parse (new_uri ''x://b'' True True) of
      Panic \<Rightarrow> None
    | Done u \<Rightarrow> Some (uri_str u, uri_authority u, uri_path u))
     = Some (''x://b'', ''//b'', [])"
  by code_simp

end
