(* ===== verification/Oasys_Glob.thy ===== *)
theory Oasys_Glob
  imports Dtn_Prelude
begin

text \<open>
  The wildcard matcher of \<open>oasys/util/Glob.cc\<close>: a round-based simulation of the pattern on
  a stack of at most 32 states. A pointer into a C string is the memory from that address
  on: the string, its terminating NUL and what lies behind it, since the star case moves the
  pointer without looking at it first. The end of the list stands for a NUL.
\<close>

section \<open>Model\<close>

definition NUL :: char where
  "NUL = CHR 0x00"

fun peek :: "string \<Rightarrow> char" where
  "peek [] = NUL"
| "peek (c # s) = c"

definition STACK_SIZE :: nat where
  "STACK_SIZE = 32"

type_synonym glob_state = "string \<times> string"

text \<open>
  The first loop of a round over the states that were on the stack when it began: the
  states after it, the states it pushed, or \<open>None\<close> on a stack overflow. \<open>n\<close> is
  \<open>stk_size\<close>.
\<close>

fun glob_advance :: "glob_state list \<Rightarrow> nat \<Rightarrow> (glob_state list \<times> glob_state list) option" where
  "glob_advance [] n = Some ([], [])"
| "glob_advance ((p, s) # stk) n =
     (if peek p = CHR ''*''
      then let push = (peek (tl p) = peek s)
           in if push \<and> n = STACK_SIZE then None
              else map_option (\<lambda>(d, w). ((p, tl s) # d, if push then (tl p, s) # w else w))
                     (glob_advance stk (if push then n + 1 else n))
      else map_option (\<lambda>(d, w).
               ((if peek p = peek s then (tl p, tl s) else ([], ''NO_MATCH'')) # d, w))
             (glob_advance stk n))"

definition glob_accepts :: "glob_state \<Rightarrow> bool" where
  "glob_accepts st = (case st of (p, s) \<Rightarrow>
     (peek p = NUL \<and> peek s = NUL) \<or> (peek p = CHR ''*'' \<and> peek (tl p) = NUL \<and> peek s = NUL))"

definition glob_alive :: "glob_state \<Rightarrow> bool" where
  "glob_alive st = (case st of (p, s) \<Rightarrow> \<not> (peek p = NUL \<or> peek s = NUL))"

text \<open>
  The rounds. The second loop returns at the first accepting state and otherwise keeps the
  states that have characters left on both sides.
\<close>

definition glob_size :: "glob_state list \<Rightarrow> nat" where
  "glob_size stk = foldr (\<lambda>(p, s) m. max (length p + length s) m) stk 0"

datatype glob_result = Matched | Unmatched | Overflow

function glob_rounds :: "glob_state list \<Rightarrow> glob_result" where
  "glob_rounds stk =
     (if stk = [] then Unmatched
      else case glob_advance stk (length stk) of
        None \<Rightarrow> Overflow
      | Some (d, w) \<Rightarrow>
          (if list_ex glob_accepts (d @ w) then Matched
           else glob_rounds (List.filter glob_alive (d @ w))))"
  by pat_completeness auto

lemma glob_size_Cons [simp]:
  "glob_size [] = 0" "glob_size ((p, s) # stk) = max (length p + length s) (glob_size stk)"
  by (simp_all add: glob_size_def)

lemma glob_size_append [simp]: "glob_size (a @ b) = max (glob_size a) (glob_size b)"
  by (induction a) auto

lemma glob_size_filter: "glob_size (List.filter P a) \<le> glob_size a"
  by (induction a) auto

lemma peek_NUL_Nil: "peek s \<noteq> NUL \<Longrightarrow> s \<noteq> []"
  by auto

lemma glob_advance_smaller:
  "glob_advance stk n = Some (d, w) \<Longrightarrow> stk \<noteq> [] \<Longrightarrow>
   (\<And>st. st \<in> set (d @ w) \<Longrightarrow> glob_alive st \<Longrightarrow> length (fst st) + length (snd st) < glob_size stk)"
proof (induction stk n arbitrary: d w rule: glob_advance.induct)
  case (2 p s stk n)
  obtain d' w' where rec: "glob_advance stk (if peek p = CHR ''*'' \<and> peek (tl p) = peek s then n + 1 else n) = Some (d', w')"
    using 2(3) by (auto simp: Let_def split: if_splits)
  have tail: "length (fst st) + length (snd st) < glob_size stk"
    if "st \<in> set (d' @ w')" "glob_alive st" for st
  proof (cases "stk = []")
    case True
    then show ?thesis using rec that by auto
  next
    case False
    then show ?thesis
      using 2(1,2) rec that 2(3) by (cases "peek p = CHR ''*''") (auto simp: Let_def split: if_splits)
  qed
  show ?case
    using 2(3,5,6) rec tail
    by (cases p; cases s) (auto simp: Let_def glob_alive_def NUL_def less_max_iff_disj split: if_splits)
qed simp

lemma glob_size_less:
  "n > 0 \<Longrightarrow> (\<And>st. st \<in> set stk \<Longrightarrow> length (fst st) + length (snd st) < n) \<Longrightarrow> glob_size stk < n"
  by (induction stk) force+

termination glob_rounds
proof (relation "measures [glob_size, length]", goal_cases)
  case 1
  show ?case by simp
next
  case (2 stk r d w)
  let ?f = "List.filter glob_alive (d @ w)"
  have smaller: "length (fst st) + length (snd st) < glob_size stk" if "st \<in> set ?f" for st
    using glob_advance_smaller [of stk "length stk" d w st] 2 that by auto
  show ?case
  proof (cases "?f = []")
    case True
    then show ?thesis using 2(1) by (cases "glob_size stk = 0") simp_all
  next
    case False
    then have "glob_size stk > 0" using smaller [of "hd ?f"] by (metis gr_zeroI hd_in_set less_nat_zero_code)
    then have "glob_size ?f < glob_size stk" using smaller by (rule glob_size_less)
    then show ?thesis by simp
  qed
qed

declare glob_rounds.simps [simp del]

text \<open>
  \<open>fixed_glob(pat, str)\<close>; \<open>beyond\<close> is the memory behind the terminator of \<open>str\<close>.
\<close>

definition fixed_glob_result :: "string \<Rightarrow> string \<Rightarrow> string \<Rightarrow> glob_result" where
  "fixed_glob_result beyond pat str =
     (if peek pat = NUL \<and> peek str = NUL then Matched
      else glob_rounds [(pat, str @ NUL # beyond)])"

definition fixed_glob :: "string \<Rightarrow> string \<Rightarrow> string \<Rightarrow> bool" where
  "fixed_glob beyond pat str \<longleftrightarrow> fixed_glob_result beyond pat str = Matched"

section \<open>What the matcher is meant to compute\<close>

fun glob_match :: "string \<Rightarrow> string \<Rightarrow> bool" where
  "glob_match [] s = (s = [])"
| "glob_match (c # p) [] = (c = CHR ''*'' \<and> glob_match p [])"
| "glob_match (c # p) (x # r) =
     (if c = CHR ''*'' then glob_match p (x # r) \<or> glob_match (c # p) r else x = c \<and> glob_match p r)"

fun no_double_star :: "string \<Rightarrow> bool" where
  "no_double_star (a # b # p) \<longleftrightarrow> \<not> (a = CHR ''*'' \<and> b = CHR ''*'') \<and> no_double_star (b # p)"
| "no_double_star p \<longleftrightarrow> True"

definition cstr :: "string \<Rightarrow> string" where
  "cstr s = takeWhile (\<lambda>c. c \<noteq> NUL) s"

lemma cstr_simps [simp]:
  "cstr [] = []" "cstr (c # s) = (if c = NUL then [] else c # cstr s)"
  by (simp_all add: cstr_def)

lemma star_not_NUL [simp]: "CHR ''*'' \<noteq> NUL" "NUL \<noteq> CHR ''*''"
  by (simp_all add: NUL_def)

lemma cstr_append_NUL: "NUL \<notin> set s \<Longrightarrow> cstr (s @ NUL # r) = s"
  by (induction s) auto

lemma cstr_id: "NUL \<notin> set s \<Longrightarrow> cstr s = s"
  by (induction s) auto

lemma peek_cstr: "peek s = (case cstr s of [] \<Rightarrow> NUL | c # r \<Rightarrow> c)"
  by (cases s) auto

section \<open>Correctness\<close>

fun glob_succs :: "glob_state \<Rightarrow> glob_state list" where
  "glob_succs (p, s) =
     (if peek p = CHR ''*'' then (p, tl s) # (if peek (tl p) = peek s then [(tl p, s)] else [])
      else [if peek p = peek s then (tl p, tl s) else ([], ''NO_MATCH'')])"

lemma glob_advance_set:
  "glob_advance stk n = Some (d, w) \<Longrightarrow> set d \<union> set w = (\<Union>st \<in> set stk. set (glob_succs st))"
proof (induction stk n arbitrary: d w rule: glob_advance.induct)
  case (2 p s stk n)
  obtain m d' w' where rest: "glob_advance stk m = Some (d', w')"
      "set d \<union> set w = set (glob_succs (p, s)) \<union> (set d' \<union> set w')"
      "m = (if peek p = CHR ''*'' \<and> peek (tl p) = peek s then n + 1 else n)"
    using 2(3) by (cases "peek p = CHR ''*''"; cases "peek (tl p) = peek s") (auto simp: Let_def insert_commute split: if_splits)
  have "set d' \<union> set w' = (\<Union>st \<in> set stk. set (glob_succs st))"
    using 2(1) [OF _ refl] 2(2) 2(3) rest
    by (cases "peek p = CHR ''*''"; cases "peek (tl p) = peek s"; cases "n = STACK_SIZE")
      (simp_all add: Let_def del: glob_succs.simps)
  then show ?case using rest(2) by (simp del: glob_succs.simps)
qed simp

lemma cstr_NO_MATCH [simp]: "CHR ''N'' \<noteq> NUL"
  by (simp add: NUL_def)

definition glob_holds :: "glob_state \<Rightarrow> bool" where
  "glob_holds st = (case st of (p, s) \<Rightarrow> glob_match (cstr p) (cstr s))"

lemma glob_accepts_holds: "glob_accepts st \<Longrightarrow> glob_holds st"
  unfolding glob_accepts_def glob_holds_def
  by (cases st; cases "fst st"; cases "snd st"; cases "tl (fst st)") auto

lemma succs_sound:
  assumes "glob_alive st" and "st' \<in> set (glob_succs st)" and "glob_holds st'"
  shows "glob_holds st"
proof -
  obtain p s where st: "st = (p, s)" by (cases st)
  then obtain a p' c s' where ps: "p = a # p'" "s = c # s'" "a \<noteq> NUL" "c \<noteq> NUL"
    using assms(1) by (cases p; cases s) (auto simp: glob_alive_def)
  then show ?thesis
    using assms(2,3) 
    by (cases "a = CHR ''*''"; cases "peek p' = c"; cases "a = c") (auto simp: st glob_holds_def)
qed

lemma glob_rounds_sound:
  "glob_rounds stk = Matched \<Longrightarrow> list_all glob_alive stk \<Longrightarrow> \<exists>st \<in> set stk. glob_holds st"
proof (induction stk rule: glob_rounds.induct)
  case (1 stk)
  from 1(2) have "stk \<noteq> []" by (auto simp: glob_rounds.simps [of "[]"])
  obtain d w where adv: "glob_advance stk (length stk) = Some (d, w)"
    using 1(2) \<open>stk \<noteq> []\<close> unfolding glob_rounds.simps [of stk] by (simp split: option.splits prod.splits)
  have "\<exists>st \<in> set d \<union> set w. glob_holds st"
  proof (cases "list_ex glob_accepts (d @ w)")
    case True
    then show ?thesis using glob_accepts_holds unfolding list_ex_iff set_append by blast
  next
    case False
    then have "glob_rounds (List.filter glob_alive (d @ w)) = Matched"
      using 1(2) \<open>stk \<noteq> []\<close> adv unfolding glob_rounds.simps [of stk] by simp
    moreover have "list_all glob_alive (List.filter glob_alive (d @ w))" by (auto simp: list_all_iff)
    ultimately show ?thesis using 1(1) [OF \<open>stk \<noteq> []\<close> adv refl False] by auto
  qed
  then obtain st st' where "st \<in> set stk" "st' \<in> set (glob_succs st)" "glob_holds st'"
    unfolding glob_advance_set [OF adv] by blast
  then show ?case using 1(3) succs_sound unfolding list_all_iff by blast
qed

definition glob_goal :: "glob_state \<Rightarrow> bool" where
  "glob_goal st \<longleftrightarrow> glob_holds st \<and> no_double_star (cstr (fst st))"

lemma no_double_star_Cons: "no_double_star (a # p) \<Longrightarrow> no_double_star p"
  by (cases p) auto

lemma match_Nil: "no_double_star p \<Longrightarrow> glob_match p [] \<longleftrightarrow> p = [] \<or> p = ''*''"
  by (cases p; cases "tl p") auto

lemma succs_complete:
  assumes "glob_alive st" and "glob_goal st"
  shows "\<exists>st' \<in> set (glob_succs st). glob_goal st' \<and> (glob_accepts st' \<or> glob_alive st')"
proof -
  obtain p s where st: "st = (p, s)" by (cases st)
  then obtain a p' c s' where ps: "p = a # p'" "s = c # s'" "a \<noteq> NUL" "c \<noteq> NUL"
    using assms(1) by (cases p; cases s) (auto simp: glob_alive_def)
  have nd: "no_double_star (cstr p')"
    using assms(2) ps no_double_star_Cons by (auto simp: glob_goal_def st)
  show ?thesis
  proof (cases "a = CHR ''*''")
    case False
    then have "glob_match (cstr p') (cstr s')" "a = c"
      using assms(2) ps by (auto simp: glob_goal_def glob_holds_def st)
    moreover have "cstr s' = [] \<Longrightarrow> cstr p' = [] \<or> cstr p' = ''*''"
      using calculation match_Nil [OF nd] by simp
    ultimately show ?thesis using ps False nd
      by (cases p'; cases s'; cases "tl p'")
        (auto simp: st glob_goal_def glob_holds_def glob_accepts_def glob_alive_def split: if_splits)
  next
    case True
    have match: "glob_match (cstr p') (cstr s) \<or> glob_match (cstr p) (cstr s')"
      using assms(2) ps True by (auto simp: glob_goal_def glob_holds_def st)
    show ?thesis
    proof (cases "cstr p' = []")
      case empty: True
      then have "peek p' = NUL" by (simp add: peek_cstr)
      moreover have "glob_match ''*'' r" for r by (induction r) auto
      ultimately show ?thesis using ps True empty
        by (auto simp: st glob_goal_def glob_holds_def glob_accepts_def glob_alive_def)
    next
      case False
      then obtain b q where p': "p' = b # q" "b \<noteq> NUL" by (cases p') (auto split: if_splits)
      then have b: "b \<noteq> CHR ''*''" using assms(2) ps True by (auto simp: glob_goal_def st)
      from match show ?thesis
      proof
        assume m: "glob_match (cstr p') (cstr s)"
        then have "b = c" using b ps p' by auto
        then show ?thesis using m ps True p' nd
          by (auto simp: st glob_goal_def glob_holds_def glob_alive_def)
      next
        assume m: "glob_match (cstr p) (cstr s')"
        then have "cstr s' \<noteq> []" using b ps p' True by auto
        then have "peek s' \<noteq> NUL" by (cases s') (auto split: if_splits)
        then show ?thesis using m ps True assms(2)
          by (auto simp: st glob_goal_def glob_holds_def glob_alive_def)
      qed
    qed
  qed
qed

lemma glob_rounds_complete:
  "glob_rounds stk \<noteq> Overflow \<Longrightarrow> list_all glob_alive stk \<Longrightarrow> list_ex glob_goal stk \<Longrightarrow> glob_rounds stk = Matched"
proof (induction stk rule: glob_rounds.induct)
  case (1 stk)
  from 1(4) have ne: "stk \<noteq> []" by auto
  then obtain d w where adv: "glob_advance stk (length stk) = Some (d, w)"
    using 1(2) unfolding glob_rounds.simps [of stk] by (simp split: option.splits prod.splits)
  obtain st where "st \<in> set stk" "glob_goal st" "glob_alive st"
    using 1(3,4) by (auto simp: list_ex_iff list_all_iff)
  then obtain st' where st': "st' \<in> set d \<union> set w" "glob_goal st'" "glob_accepts st' \<or> glob_alive st'"
    using succs_complete [of st] unfolding glob_advance_set [OF adv] by blast
  show ?case
  proof (cases "list_ex glob_accepts (d @ w)")
    case True
    then show ?thesis using ne adv unfolding glob_rounds.simps [of stk] by simp
  next
    case False
    let ?f = "List.filter glob_alive (d @ w)"
    have eq: "glob_rounds stk = glob_rounds ?f"
      using False ne adv unfolding glob_rounds.simps [of stk] by simp
    have "glob_alive st'" using st' False by (auto simp: list_ex_iff)
    then have "list_ex glob_goal ?f" using st' by (auto simp: list_ex_iff)
    moreover have "list_all glob_alive ?f" by (auto simp: list_all_iff)
    ultimately show ?thesis using 1(1) [OF ne adv refl False] 1(2) eq by simp
  qed
qed

text \<open>A single star matches every string, and a text without stars matches itself.\<close>

lemma glob_rounds_star:
  "NUL \<notin> set s \<Longrightarrow> glob_rounds [(''*'', s @ NUL # beyond)] = Matched"
proof (induction s)
  case Nil
  show ?case by (simp add: glob_rounds.simps STACK_SIZE_def glob_accepts_def)
next
  case (Cons c s)
  then have adv: "glob_advance [(''*'', (c # s) @ NUL # beyond)] (length [(''*'', (c # s) @ NUL # beyond)])
      = Some ([(''*'', s @ NUL # beyond)], [])" by auto
  show ?case
    unfolding glob_rounds.simps [of "[(''*'', (c # s) @ NUL # beyond)]"] adv
    using Cons by (cases s) (auto simp: glob_accepts_def glob_alive_def)
qed

lemma glob_rounds_refl:
  "NUL \<notin> set s \<Longrightarrow> CHR ''*'' \<notin> set s \<Longrightarrow> s \<noteq> [] \<Longrightarrow> glob_rounds [(s, s @ NUL # beyond)] = Matched"
proof (induction s)
  case (Cons c s)
  then have adv: "glob_advance [(c # s, (c # s) @ NUL # beyond)] (length [(c # s, (c # s) @ NUL # beyond)])
      = Some ([(s, s @ NUL # beyond)], [])" by auto
  show ?case
    unfolding glob_rounds.simps [of "[(c # s, (c # s) @ NUL # beyond)]"] adv
    using Cons by (cases s) (auto simp: glob_accepts_def glob_alive_def)
qed simp

lemma fixed_glob_star: "NUL \<notin> set s \<Longrightarrow> fixed_glob beyond ''*'' s"
  by (simp add: fixed_glob_def fixed_glob_result_def glob_rounds_star)

lemma fixed_glob_refl: "NUL \<notin> set s \<Longrightarrow> CHR ''*'' \<notin> set s \<Longrightarrow> fixed_glob beyond s s"
  using glob_rounds_refl [of s beyond] by (cases s) (auto simp: fixed_glob_def fixed_glob_result_def)

section \<open>Properties\<close>

text \<open>
  C9. On a string that is not empty the matcher looks at nothing behind it and agrees
  with the meaning of the pattern: whatever it accepts matches, and, unless the stack of
  32 states overflows, it accepts whatever a pattern without two adjacent stars matches.
\<close>

theorem fixed_glob_correct:
  assumes "NUL \<notin> set pat" and "NUL \<notin> set str" and "str \<noteq> []"
  shows "(fixed_glob beyond pat str \<longrightarrow> glob_match pat str)
    \<and> (glob_match pat str \<longrightarrow> no_double_star pat \<longrightarrow>
        fixed_glob beyond pat str \<or> fixed_glob_result beyond pat str = Overflow)"
proof (cases "pat = []")
  case True
  have "glob_advance [([], str @ NUL # beyond)] 1 = Some ([([], ''NO_MATCH'')], [])" "peek str \<noteq> NUL"
    using assms(2,3) by (cases str; auto)+
  then have "fixed_glob_result beyond [] str = Unmatched"
    by (simp add: fixed_glob_result_def glob_rounds.simps glob_accepts_def glob_alive_def)
  then show ?thesis using True assms(3) by (simp add: fixed_glob_def)
next
  case False
  have peeks: "peek pat \<noteq> NUL" "peek (str @ NUL # beyond) \<noteq> NUL"
    using assms False by (cases pat; cases str; auto)+
  have cstrs: "cstr pat = pat" "cstr (str @ NUL # beyond) = str"
    using assms by (simp_all add: cstr_id cstr_append_NUL)
  show ?thesis
    using glob_rounds_sound [of "[(pat, str @ NUL # beyond)]"] glob_rounds_complete [of "[(pat, str @ NUL # beyond)]"] peeks cstrs
    by (auto simp: fixed_glob_def fixed_glob_result_def glob_alive_def glob_holds_def glob_goal_def)
qed

theorem fixed_glob_correct_witness:
  "fixed_glob ''xyz'' ''hel*o'' ''hello''"
proof -
  have "fixed_glob_result ''xyz'' ''hel*o'' ''hello'' \<noteq> Overflow" by code_simp
  moreover have "glob_match ''hel*o'' ''hello''" "no_double_star ''hel*o''" by simp_all
  ultimately show ?thesis
    using fixed_glob_correct [of "''hel*o''" "''hello''" "''xyz''"] by (simp add: NUL_def)
qed

text \<open>
  On the empty string the star case moves the pointer behind the terminator: whether
  the pattern matches then depends on the memory that follows, except for the pattern of a
  single star, which matches whatever is there.
\<close>

theorem fixed_glob_reads_behind:
  "fixed_glob beyond ''*'' [] \<and> fixed_glob ''xabc'' ''*abc'' [] \<and> \<not> fixed_glob ''xyz'' ''*abc'' []"
proof (intro conjI)
  have "list_ex glob_accepts [(''*'', beyond), ([], [NUL] @ beyond)]"
    by (simp add: glob_accepts_def)
  then show "fixed_glob beyond ''*'' []"
    by (simp add: fixed_glob_def fixed_glob_result_def glob_rounds.simps STACK_SIZE_def)
qed code_simp+

end
