(* ===== verification/Endpoint_Id.thy ===== *)
theory Endpoint_Id
  imports Uri_Layout Oasys_Glob
begin

text \<open>
  Endpoint identifiers and patterns (\<open>naming/EndpointID.cc\<close>) with the schemes of
  \<open>naming/SchemeTable.cc\<close>: validation, the service tags and the matching of a route pattern
  against an identifier. The singleton objects of the scheme classes are the constructors of
  a datatype. \<open>mem\<close> is the memory behind a C string, which the wildcard matcher may look at.
\<close>

section \<open>Model\<close>

datatype scheme = DTNScheme | StringScheme | WildcardScheme | EthernetScheme | TCAScheme | SessionScheme

definition scheme_lookup :: "string \<Rightarrow> scheme option" where
  "scheme_lookup s =
     (if s = ''dtn'' then Some DTNScheme
      else if s = ''str'' then Some StringScheme
      else if s = ''*'' then Some WildcardScheme
      else if s = ''eth'' then Some EthernetScheme
      else if s = ''tca'' then Some TCAScheme
      else if s = ''dtn-session'' then Some SessionScheme
      else None)"

record endpoint_id =
  eid_uri :: uri
  eid_scheme :: "scheme option"
  eid_valid :: bool
  eid_is_pattern :: bool

definition MAX_EID_PART_LENGTH :: nat where
  "MAX_EID_PART_LENGTH = 1023"

text \<open>
  One conversion \<open>%2hhx\<close> of \<open>sscanf\<close>: white space is skipped, a sign counts as a
  character of the field, and \<open>0x\<close> alone is no number. The result is the rest of the input.
\<close>

definition sscanf_hex2 :: "string \<Rightarrow> string option" where
  "sscanf_hex2 s =
     (case dropWhile isspace s of
        [] \<Rightarrow> None
      | a # r \<Rightarrow>
          (if a = CHR ''+'' \<or> a = CHR ''-''
           then (case r of [] \<Rightarrow> None | b # r' \<Rightarrow> (if is_hexdig b then Some r' else None))
           else if is_hexdig a
           then (case r of
                   [] \<Rightarrow> Some []
                 | b # r' \<Rightarrow> (if is_hexdig b then Some r'
                             else if a = CHR ''0'' \<and> (b = CHR ''x'' \<or> b = CHR ''X'') then None
                             else Some r))
           else None))"

fun scan_octets :: "nat \<Rightarrow> string \<Rightarrow> bool" where
  "scan_octets 0 s = True"
| "scan_octets (Suc n) s =
     (case sscanf_hex2 s of
        None \<Rightarrow> False
      | Some r \<Rightarrow> (if n = 0 then True
                  else case r of [] \<Rightarrow> False | c # r' \<Rightarrow> c = CHR '':'' \<and> scan_octets n r'))"

definition eth_parse :: "string \<Rightarrow> bool" where
  "eth_parse ssp = scan_octets 6 (if take 2 ssp = ''//'' then drop 2 ssp else ssp)"

definition dtn_validate :: "uri \<Rightarrow> bool \<Rightarrow> bool" where
  "dtn_validate u is_pattern =
     (if \<not> uri_valid u then False
      else if length (uri_host u) = 0 \<and> uri_ssp u \<noteq> ''none'' then False else True)"

definition string_validate :: "uri \<Rightarrow> bool \<Rightarrow> bool" where
  "string_validate u is_pattern = (if uri_ssp u = [] then False else True)"

definition wildcard_validate :: "uri \<Rightarrow> bool \<Rightarrow> bool" where
  "wildcard_validate u is_pattern = (if is_pattern = False \<or> uri_ssp u \<noteq> ''*'' then False else True)"

definition eth_validate :: "uri \<Rightarrow> bool \<Rightarrow> bool" where
  "eth_validate u is_pattern = eth_parse (uri_ssp u)"

definition tca_validate :: "uri \<Rightarrow> bool \<Rightarrow> bool" where
  "tca_validate u is_pattern = (if \<not> uri_valid u then False else True)"

definition session_validate :: "uri \<Rightarrow> bool \<Rightarrow> bool outcome" where
  "session_validate u is_pattern =
     (if \<not> uri_valid u then Done False
      else if is_pattern then Done True
      else bind_outcome (uri_parse (new_uri (uri_ssp u) True True))
             (\<lambda>sub_uri. Done (if \<not> uri_valid sub_uri then False else True)))"

text \<open>The virtual call of the scheme object.\<close>

fun scheme_validate :: "scheme \<Rightarrow> uri \<Rightarrow> bool \<Rightarrow> bool outcome" where
  "scheme_validate DTNScheme u is_pattern = Done (dtn_validate u is_pattern)"
| "scheme_validate StringScheme u is_pattern = Done (string_validate u is_pattern)"
| "scheme_validate WildcardScheme u is_pattern = Done (wildcard_validate u is_pattern)"
| "scheme_validate EthernetScheme u is_pattern = Done (eth_validate u is_pattern)"
| "scheme_validate TCAScheme u is_pattern = Done (tca_validate u is_pattern)"
| "scheme_validate SessionScheme u is_pattern = session_validate u is_pattern"

text \<open>\<open>EndpointID::validate\<close>: the object afterwards; its result is the member \<open>valid_\<close>.\<close>

definition eid_validate :: "endpoint_id \<Rightarrow> endpoint_id outcome" where
  "eid_validate e =
     (let e0 = e\<lparr>eid_scheme := None, eid_valid := False\<rparr>; u = eid_uri e
      in if \<not> uri_valid u then Done e0
         else if length (uri_scheme u) > MAX_EID_PART_LENGTH then Done e0
         else if length (uri_ssp u) > MAX_EID_PART_LENGTH then Done e0
         else case scheme_lookup (uri_scheme u) of
           None \<Rightarrow> Done (e0\<lparr>eid_valid := True\<rparr>)
         | Some sch \<Rightarrow> bind_outcome (scheme_validate sch u (eid_is_pattern e))
                        (\<lambda>ok. Done (e0\<lparr>eid_scheme := Some sch, eid_valid := ok\<rparr>)))"

definition empty_eid :: endpoint_id where
  "empty_eid = \<lparr>eid_uri = new_uri [] True True, eid_scheme = None, eid_valid = False, eid_is_pattern = False\<rparr>"

definition eid_assign :: "string \<Rightarrow> endpoint_id \<Rightarrow> endpoint_id outcome" where
  "eid_assign s e = bind_outcome (uri_assign s (eid_uri e)) (\<lambda>u. eid_validate (e\<lparr>eid_uri := u\<rparr>))"

definition eid_assign_parts :: "string \<Rightarrow> string \<Rightarrow> endpoint_id \<Rightarrow> endpoint_id outcome" where
  "eid_assign_parts sch ssp e = eid_assign (sch @ '':'' @ ssp) e"

definition make_eid :: "string \<Rightarrow> endpoint_id outcome" where
  "make_eid s = bind_outcome (uri_parse (new_uri s True True)) (\<lambda>u. eid_validate (empty_eid\<lparr>eid_uri := u\<rparr>))"

definition empty_pattern :: endpoint_id where
  "empty_pattern = \<lparr>eid_uri = new_uri [] False True, eid_scheme = None, eid_valid = False, eid_is_pattern = True\<rparr>"

definition make_pattern :: "string \<Rightarrow> endpoint_id outcome" where
  "make_pattern s = eid_assign s empty_pattern"

definition pattern_of_eid :: "endpoint_id \<Rightarrow> endpoint_id outcome" where
  "pattern_of_eid e = eid_validate (e\<lparr>eid_is_pattern := True, eid_uri := (eid_uri e)\<lparr>validate_flag := False\<rparr>\<rparr>)"

definition NULL_EID :: "endpoint_id outcome" where
  "NULL_EID = eid_assign ''dtn:none'' empty_eid"

definition WILDCARD_EID :: "endpoint_id outcome" where
  "WILDCARD_EID = eid_assign ''*:*'' empty_pattern"

definition eid_str :: "endpoint_id \<Rightarrow> string" where "eid_str e = uri_str (eid_uri e)"
definition eid_ssp :: "endpoint_id \<Rightarrow> string" where "eid_ssp e = uri_ssp (eid_uri e)"

definition eid_equals :: "endpoint_id \<Rightarrow> endpoint_id \<Rightarrow> bool" where
  "eid_equals a b \<longleftrightarrow> eid_str a = eid_str b"

definition eid_subsume :: "endpoint_id \<Rightarrow> endpoint_id \<Rightarrow> bool" where
  "eid_subsume a b = subsume (eid_uri a) (eid_uri b)"

section \<open>Service tags\<close>

definition dtn_append_service_tag :: "uri \<Rightarrow> string \<Rightarrow> (bool \<times> uri) outcome" where
  "dtn_append_service_tag u tag =
     bind_outcome (if peek tag \<noteq> CHR ''/'' then set_path (''/'' @ tag) u else set_path tag u)
       (\<lambda>u'. Done (True, u'))"

definition tca_append_service_tag :: "uri \<Rightarrow> string \<Rightarrow> (bool \<times> uri) outcome" where
  "tca_append_service_tag u tag =
     bind_outcome (if peek tag \<noteq> CHR ''/'' then set_path (''/'' @ tag) u else set_path tag u)
       (\<lambda>u'. Done (True, u'))"

definition dtn_append_service_wildcard :: "uri \<Rightarrow> (bool \<times> uri) outcome" where
  "dtn_append_service_wildcard u =
     (if uri_path u \<noteq> [] then Done (False, u)
      else bind_outcome (set_path ''/*'' u) (\<lambda>u'. Done (True, u')))"

definition dtn_remove_service_tag :: "uri \<Rightarrow> (bool \<times> uri) outcome" where
  "dtn_remove_service_tag u = bind_outcome (set_path [] u) (\<lambda>u'. Done (True, u'))"

text \<open>The other schemes inherit the defaults of \<open>Scheme.h\<close>, which refuse.\<close>

definition scheme_append_service_tag :: "scheme \<Rightarrow> uri \<Rightarrow> string \<Rightarrow> (bool \<times> uri) outcome" where
  "scheme_append_service_tag sch u tag =
     (if sch = DTNScheme then dtn_append_service_tag u tag
      else if sch = TCAScheme then tca_append_service_tag u tag
      else Done (False, u))"

definition scheme_append_service_wildcard :: "scheme \<Rightarrow> uri \<Rightarrow> (bool \<times> uri) outcome" where
  "scheme_append_service_wildcard sch u =
     (if sch = DTNScheme then dtn_append_service_wildcard u else Done (False, u))"

definition scheme_remove_service_tag :: "scheme \<Rightarrow> uri \<Rightarrow> (bool \<times> uri) outcome" where
  "scheme_remove_service_tag sch u =
     (if sch = DTNScheme then dtn_remove_service_tag u else Done (False, u))"

text \<open>The three operations of \<open>EndpointID\<close> share the dispatch and the check of the result.\<close>

definition with_scheme_op ::
    "(scheme \<Rightarrow> uri \<Rightarrow> (bool \<times> uri) outcome) \<Rightarrow> endpoint_id \<Rightarrow> (bool \<times> endpoint_id) outcome" where
  "with_scheme_op op e =
     (case eid_scheme e of
        None \<Rightarrow> Done (False, e)
      | Some sch \<Rightarrow>
          bind_outcome (op sch (eid_uri e))
            (\<lambda>(ok, u). let e' = e\<lparr>eid_uri := u\<rparr>
                       in if \<not> ok then Done (False, e')
                          else if \<not> uri_valid u then Done (False, e')
                          else Done (True, e')))"

definition append_service_tag :: "string \<Rightarrow> endpoint_id \<Rightarrow> (bool \<times> endpoint_id) outcome" where
  "append_service_tag tag e = with_scheme_op (\<lambda>sch u. scheme_append_service_tag sch u tag) e"

definition append_service_wildcard :: "endpoint_id \<Rightarrow> (bool \<times> endpoint_id) outcome" where
  "append_service_wildcard e = with_scheme_op scheme_append_service_wildcard e"

definition remove_service_tag :: "endpoint_id \<Rightarrow> (bool \<times> endpoint_id) outcome" where
  "remove_service_tag e = with_scheme_op scheme_remove_service_tag e"

datatype singleton_info_t = UNKNOWN | SINGLETON | MULTINODE

definition dtn_is_singleton :: "uri \<Rightarrow> singleton_info_t" where
  "dtn_is_singleton u = (if CHR ''*'' \<in> set (uri_host u) then MULTINODE else SINGLETON)"

definition tca_is_singleton :: "uri \<Rightarrow> singleton_info_t" where
  "tca_is_singleton u = (if CHR ''*'' \<in> set (uri_host u) then MULTINODE else SINGLETON)"

definition wildcard_is_singleton :: "uri \<Rightarrow> singleton_info_t" where
  "wildcard_is_singleton u = MULTINODE"

definition string_is_singleton :: "uri \<Rightarrow> singleton_info_t" where
  "string_is_singleton u = SINGLETON"

definition eth_is_singleton :: "uri \<Rightarrow> singleton_info_t" where
  "eth_is_singleton u = SINGLETON"

definition session_is_singleton :: "uri \<Rightarrow> singleton_info_t" where
  "session_is_singleton u = SINGLETON"

fun scheme_is_singleton :: "scheme \<Rightarrow> uri \<Rightarrow> singleton_info_t" where
  "scheme_is_singleton DTNScheme u = dtn_is_singleton u"
| "scheme_is_singleton TCAScheme u = tca_is_singleton u"
| "scheme_is_singleton WildcardScheme u = wildcard_is_singleton u"
| "scheme_is_singleton StringScheme u = string_is_singleton u"
| "scheme_is_singleton EthernetScheme u = eth_is_singleton u"
| "scheme_is_singleton SessionScheme u = session_is_singleton u"

text \<open>The first argument is the setting \<open>is_singleton_default_\<close>.\<close>

definition is_singleton :: "singleton_info_t \<Rightarrow> endpoint_id \<Rightarrow> singleton_info_t" where
  "is_singleton dflt e =
     (case eid_scheme e of None \<Rightarrow> dflt | Some sch \<Rightarrow> scheme_is_singleton sch (eid_uri e))"

section \<open>Matching\<close>

text \<open>A trailing star truncates the comparison to what stands before it.\<close>

definition trailing_star_match :: "string \<Rightarrow> string \<Rightarrow> bool" where
  "trailing_star_match pat s \<longleftrightarrow>
     pat \<noteq> [] \<and> last pat = CHR ''*'' \<and> butlast pat = take (length pat - 1) s"

definition dtn_pattern_path :: "string \<Rightarrow> string" where
  "dtn_pattern_path path =
     (if length path \<ge> 2 \<and> drop (length path - 2) path = ''/*''
      then take (length path - 2) path @ ''*'' else path)"

definition dtn_match :: "string \<Rightarrow> endpoint_id \<Rightarrow> endpoint_id \<Rightarrow> bool" where
  "dtn_match mem pattern eid =
     (let p = eid_uri pattern; u = eid_uri eid
      in if eid_scheme eid \<noteq> Some DTNScheme then False
         else if uri_ssp p = ''none'' \<or> uri_ssp u = ''none'' then False
         else if uri_host p = ''*'' \<and> uri_path p = [] then True
         else if \<not> (fixed_glob mem (uri_host p) (uri_host u) \<or> fixed_glob mem (uri_host u) (uri_host p)) then False
         else if port_num p \<noteq> port_num u then False
         else let pattern_path = dtn_pattern_path (uri_path p)
              in fixed_glob mem pattern_path (uri_path u) \<or> fixed_glob mem (uri_path u) pattern_path)"

definition tca_match :: "endpoint_id \<Rightarrow> endpoint_id \<Rightarrow> bool" where
  "tca_match pattern eid =
     (let p = eid_uri pattern; u = eid_uri eid
      in if eid_scheme eid \<noteq> Some TCAScheme then False
         else if uri_ssp p = ''none'' \<or> uri_ssp u = ''none'' then False
         else if uri_host p = ''*'' \<and> uri_path p = [] then True
         else if uri_host p \<noteq> ''*'' \<and> uri_host u \<noteq> ''*'' \<and> uri_host p \<noteq> uri_host u then False
         else if port_num p \<noteq> port_num u then False
         else if uri_path p = ''*'' \<or> uri_path p = uri_path u then True
         else trailing_star_match (uri_path p) (uri_path u))"

definition string_match :: "endpoint_id \<Rightarrow> endpoint_id \<Rightarrow> bool" where
  "string_match pattern eid = (eid_str pattern = eid_str eid)"

definition wildcard_match :: "endpoint_id \<Rightarrow> endpoint_id \<Rightarrow> bool" where
  "wildcard_match pattern eid = True"

definition eth_match :: "endpoint_id \<Rightarrow> endpoint_id \<Rightarrow> bool" where
  "eth_match pattern eid =
     (if eid_ssp pattern = eid_ssp eid then True else trailing_star_match (eid_ssp pattern) (eid_ssp eid))"

definition session_match :: "string \<Rightarrow> endpoint_id \<Rightarrow> endpoint_id \<Rightarrow> bool" where
  "session_match mem pattern eid =
     (if eid_scheme eid \<noteq> Some SessionScheme then False
      else fixed_glob mem (eid_ssp pattern) (eid_ssp eid))"

fun scheme_match :: "string \<Rightarrow> scheme \<Rightarrow> endpoint_id \<Rightarrow> endpoint_id \<Rightarrow> bool" where
  "scheme_match mem DTNScheme pattern eid = dtn_match mem pattern eid"
| "scheme_match mem StringScheme pattern eid = string_match pattern eid"
| "scheme_match mem WildcardScheme pattern eid = wildcard_match pattern eid"
| "scheme_match mem EthernetScheme pattern eid = eth_match pattern eid"
| "scheme_match mem TCAScheme pattern eid = tca_match pattern eid"
| "scheme_match mem SessionScheme pattern eid = session_match mem pattern eid"

text \<open>The argument \<open>glob_unknown\<close> is the setting \<open>glob_unknown_schemes_\<close>.\<close>

definition eid_match :: "string \<Rightarrow> bool \<Rightarrow> endpoint_id \<Rightarrow> endpoint_id \<Rightarrow> bool" where
  "eid_match mem glob_unknown pattern eid =
     (if \<not> uri_valid (eid_uri pattern) then False
      else if \<not> uri_valid (eid_uri eid) then False
      else case eid_scheme pattern of
        Some sch \<Rightarrow> scheme_match mem sch pattern eid
      | None \<Rightarrow> (if glob_unknown then fixed_glob mem (eid_str pattern) (eid_str eid)
                else eid_equals pattern eid))"

section \<open>Validation\<close>

definition eid_ok :: "endpoint_id \<Rightarrow> bool" where
  "eid_ok e \<longleftrightarrow>
     (if eid_valid e
      then uri_valid (eid_uri e)
        \<and> length (uri_scheme (eid_uri e)) \<le> MAX_EID_PART_LENGTH
        \<and> length (eid_ssp e) \<le> MAX_EID_PART_LENGTH
        \<and> eid_scheme e = scheme_lookup (uri_scheme (eid_uri e))
        \<and> (if eid_scheme e = Some DTNScheme then uri_host (eid_uri e) \<noteq> [] \<or> eid_ssp e = ''none'' else True)
      else True)"

lemma uri_parse_total: "\<exists>u. uri_parse (new_uri s True n) = Done u"
  using uri_parse_validated [of s n] by (auto split: outcome.splits)

lemma scheme_validate_total: "\<exists>b. scheme_validate sch u is_pattern = Done b"
proof (cases sch)
  case SessionScheme
  then show ?thesis using uri_parse_total [of "uri_ssp u" True] by (auto simp: session_validate_def)
qed simp_all

lemma eid_validate_total:
  "\<exists>e'. eid_validate e = Done e' \<and> eid_ok e' \<and> eid_uri e' = eid_uri e \<and> eid_is_pattern e' = eid_is_pattern e"
proof (cases "scheme_lookup (uri_scheme (eid_uri e))")
  case None
  then show ?thesis by (auto simp: eid_validate_def eid_ok_def eid_ssp_def Let_def)
next
  case (Some sch)
  obtain b where b: "scheme_validate sch (eid_uri e) (eid_is_pattern e) = Done b"
    using scheme_validate_total by blast
  have "b \<Longrightarrow> sch = DTNScheme \<Longrightarrow> uri_host (eid_uri e) \<noteq> [] \<or> uri_ssp (eid_uri e) = ''none''"
    using b by (auto simp: dtn_validate_def split: if_splits)
  then show ?thesis using Some b
    by (auto simp: eid_validate_def eid_ok_def eid_ssp_def Let_def)
qed

lemma make_eid_total: "\<exists>e. make_eid s = Done e \<and> eid_ok e \<and> \<not> eid_is_pattern e"
proof -
  obtain u where "uri_parse (new_uri s True True) = Done u" using uri_parse_total by blast
  then show ?thesis
    using eid_validate_total [of "empty_eid\<lparr>eid_uri := u\<rparr>"] by (auto simp: make_eid_def empty_eid_def)
qed

section \<open>Service tags\<close>

lemma scheme_op_set_path:
  assumes "good (eid_uri e) p" and "eid_scheme e = Some sch"
    and "\<And>u. op sch u = bind_outcome (set_path t u) (\<lambda>u'. Done (True, u'))"
  shows "\<exists>e'. with_scheme_op op e = Done (True, e') \<and> good (eid_uri e') (p\<lparr>p_path := t\<rparr>)
    \<and> eid_scheme e' = Some sch"
proof -
  obtain u where "set_path t (eid_uri e) = Done u" "good u (p\<lparr>p_path := t\<rparr>)"
    using assms(1) set_path_layout [of "eid_uri e" p t] by (auto simp: good_def refines_part_iff)
  then show ?thesis using assms(2,3) by (simp add: with_scheme_op_def good_def uri_valid_def)
qed

section \<open>Properties\<close>



text \<open>
  C10. Appending a service tag to a \<open>dtn\<close> identifier replaces its path by the tag, with a
  slash in front, and removing the tag leaves the same identifier with an empty path: the
  other components keep their text in both steps.
\<close>

theorem service_tag_roundtrip:
  assumes "laid_out (eid_uri e) p" and "uri_valid (eid_uri e)" and "eid_scheme e = Some DTNScheme"
  shows "\<exists>e1 e2. append_service_tag (c # tag) e = Done (True, e1)
    \<and> eid_str e1 = uri_text (p\<lparr>p_path := (if c = CHR ''/'' then c # tag else CHR ''/'' # c # tag)\<rparr>)
    \<and> remove_service_tag e1 = Done (True, e2) \<and> eid_str e2 = uri_text (p\<lparr>p_path := []\<rparr>)"
proof -
  let ?t = "if c = CHR ''/'' then c # tag else CHR ''/'' # c # tag"
  have "good (eid_uri e) p" using assms by (simp add: good_def uri_valid_def)
  then obtain e1 where e1: "append_service_tag (c # tag) e = Done (True, e1)"
      "good (eid_uri e1) (p\<lparr>p_path := ?t\<rparr>)" "eid_scheme e1 = Some DTNScheme"
    using scheme_op_set_path [OF _ assms(3), of p "\<lambda>sch u. scheme_append_service_tag sch u (c # tag)" ?t]
    by (cases "c = CHR ''/''") (auto simp: append_service_tag_def scheme_append_service_tag_def dtn_append_service_tag_def)
  obtain e2 where e2: "remove_service_tag e1 = Done (True, e2)" "good (eid_uri e2) (p\<lparr>p_path := []\<rparr>)"
    using scheme_op_set_path [OF e1(2,3), of scheme_remove_service_tag "[]"]
    by (auto simp: remove_service_tag_def scheme_remove_service_tag_def dtn_remove_service_tag_def)
  show ?thesis
    using e1(1,2) e2 by (auto simp: good_def laid_out_def eid_str_def Let_def)
qed

definition example_eid :: endpoint_id where
  "example_eid = \<lparr>eid_uri = example_uri, eid_scheme = Some DTNScheme, eid_valid = True, eid_is_pattern = False\<rparr>"

theorem service_tag_roundtrip_witness:
  "\<exists>e1 e2. append_service_tag ''ping'' example_eid = Done (True, e1) \<and> eid_str e1 = ''dtn://h/ping''
    \<and> remove_service_tag e1 = Done (True, e2) \<and> eid_str e2 = ''dtn://h''"
  using service_tag_roundtrip [of example_eid example_parts "CHR ''p''" "''ing''"]
  by (simp add: example_eid_def example_uri_def example_parts_def new_uri_def layout uri_valid_def)


definition example_route :: endpoint_id where
  "example_route = example_eid\<lparr>eid_uri := example_uri\<lparr>uri_str := ''dtn://h/*''\<rparr>, eid_is_pattern := True\<rparr>"


end
