(* ===== verification/Dictionary.thy ===== *)
theory Dictionary
  imports Endpoint_Id
begin

text \<open>
  The dictionary of the bundle protocol (\<open>servlib/bundling/Dictionary.cc\<close>): a buffer of
  NUL-terminated strings that the endpoint identifiers of a bundle refer to by offset.
  Lengths and offsets in memory are unbounded numbers; the truncation of the 64-bit offsets
  of the wire is in the model. \<open>d_bytes\<close> is the filled-in part of the buffer, \<open>d_capacity\<close>
  the member \<open>dict_length_\<close>, and \<open>d_allocated\<close> says that \<open>dict_\<close> is not \<open>NULL\<close>.
\<close>

section \<open>Model\<close>

definition byte_of_char :: "char \<Rightarrow> byte" where
  "byte_of_char c = of_char c"

definition char_of_byte :: "byte \<Rightarrow> char" where
  "char_of_byte b = char_of (unat b)"

text \<open>The C string at the front of a piece of memory; \<open>None\<close> when no NUL ends it.\<close>

definition c_string :: "byte list \<Rightarrow> string option" where
  "c_string bs = (if 0 \<in> set bs then Some (map char_of_byte (takeWhile (\<lambda>b. b \<noteq> 0) bs)) else None)"

record dictionary =
  d_bytes :: "byte list"
  d_capacity :: nat
  d_allocated :: bool

definition empty_dictionary :: dictionary where
  "empty_dictionary = \<lparr>d_bytes = [], d_capacity = 0, d_allocated = False\<rparr>"

definition set_dict :: "byte list \<Rightarrow> dictionary \<Rightarrow> dictionary outcome" where
  "set_dict bs d = assert_that (\<not> d_allocated d)
     (Done \<lparr>d_bytes = bs, d_capacity = length bs, d_allocated = True\<rparr>)"

text \<open>
  The search of \<open>get_offset\<close>: what is left of the buffer and the offset it starts at. The
  two conditions of the code, equality of the first \<open>len\<close> characters and of the lengths,
  are equality of the strings.
\<close>

function get_offset_from :: "string \<Rightarrow> byte list \<Rightarrow> nat \<Rightarrow> (bool \<times> nat) outcome" where
  "get_offset_from str rest off =
     (if rest = [] then Done (False, off)
      else case c_string rest of
        None \<Rightarrow> Panic
      | Some s \<Rightarrow>
          (let len = length s
           in if take len str = s \<and> length str = len then Done (True, off)
              else get_offset_from str (drop (len + 1) rest) (off + (len + 1))))"
  by pat_completeness auto

termination get_offset_from
  by (relation "measure (\<lambda>(str, rest, off). length rest)") auto

declare get_offset_from.simps [simp del]

definition get_offset :: "dictionary \<Rightarrow> string \<Rightarrow> (bool \<times> nat) outcome" where
  "get_offset d str = get_offset_from str (d_bytes d) 0"

text \<open>The growth of the buffer: doubling until \<open>need\<close> bytes fit.\<close>

function grow_capacity :: "nat \<Rightarrow> nat \<Rightarrow> nat" where
  "grow_capacity need cap =
     (let cap' = (if cap = 0 then 64 else cap * 2)
      in if cap' < need then grow_capacity need cap' else cap')"
  by pat_completeness auto

termination grow_capacity
  by (relation "measures [\<lambda>(need, cap). need - cap]") auto

declare grow_capacity.simps [simp del]

definition add_str :: "string \<Rightarrow> dictionary \<Rightarrow> dictionary outcome" where
  "add_str str d =
     bind_outcome (get_offset d str)
       (\<lambda>(found, off).
          if found then Done d
          else let need = length (d_bytes d) + length str + 1
               in Done \<lparr>d_bytes = d_bytes d @ map byte_of_char str @ [0],
                        d_capacity = (if d_capacity d < need then grow_capacity need (d_capacity d) else d_capacity d),
                        d_allocated = True\<rparr>)"

definition eid_scheme_str :: "endpoint_id \<Rightarrow> string" where
  "eid_scheme_str e = uri_scheme (eid_uri e)"

definition add_eid :: "endpoint_id \<Rightarrow> dictionary \<Rightarrow> dictionary outcome" where
  "add_eid e d = bind_outcome (add_str (eid_scheme_str e) d) (add_str (eid_ssp e))"

text \<open>
  \<open>get_offsets\<close> looks up the scheme and, only if it is there, the scheme-specific part;
  otherwise the second output keeps the value it had, here the argument \<open>ssp0\<close>.
\<close>

definition get_offsets :: "dictionary \<Rightarrow> endpoint_id \<Rightarrow> nat \<Rightarrow> (bool \<times> nat \<times> nat) outcome" where
  "get_offsets d e ssp0 =
     bind_outcome (get_offset d (eid_scheme_str e))
       (\<lambda>(found, so). if found
          then bind_outcome (get_offset d (eid_ssp e)) (\<lambda>(found', po). Done (found', so, po))
          else Done (False, so, ssp0))"

text \<open>
  \<open>extract_eid\<close> with 32-bit offsets. A C string that is not terminated within the filled-in
  part would be read beyond it: \<open>Panic\<close>.
\<close>

definition extract_eid :: "dictionary \<Rightarrow> nat \<Rightarrow> nat \<Rightarrow> endpoint_id \<Rightarrow> (bool \<times> endpoint_id) outcome" where
  "extract_eid d scheme_offset ssp_offset eid =
     (if d_capacity d = 0 then Done (False, eid)
      else if scheme_offset \<ge> d_capacity d - 1 then Done (False, eid)
      else if ssp_offset \<ge> d_capacity d - 1 then Done (False, eid)
      else case (c_string (drop scheme_offset (d_bytes d)), c_string (drop ssp_offset (d_bytes d))) of
        (Some sch, Some ssp) \<Rightarrow>
          bind_outcome (eid_assign_parts sch ssp eid)
            (\<lambda>e. if \<not> eid_valid e then Done (False, e) else Done (True, e))
      | _ \<Rightarrow> Panic)"

definition extract_eid64 :: "dictionary \<Rightarrow> u64 \<Rightarrow> u64 \<Rightarrow> endpoint_id \<Rightarrow> (bool \<times> endpoint_id) outcome" where
  "extract_eid64 d scheme_offset ssp_offset eid =
     (let scheme_offset32 = (ucast scheme_offset :: u32); ssp_offset32 = (ucast ssp_offset :: u32)
      in extract_eid d (unat scheme_offset32) (unat ssp_offset32) eid)"

section \<open>Tables of strings\<close>

text \<open>
  What a user of the dictionary relies on: a string that has been added is found, later
  additions do not move it, and the memory at its offset reads back as the string.
\<close>

locale string_table =
  fixes ok :: "string \<Rightarrow> bool"
    and inv :: "'d \<Rightarrow> bool"
    and intern :: "string \<Rightarrow> 'd \<Rightarrow> 'd outcome"
    and offset_of :: "'d \<Rightarrow> string \<Rightarrow> (bool \<times> nat) outcome"
    and string_at :: "'d \<Rightarrow> nat \<Rightarrow> string option"
  assumes intern_found: "inv d \<Longrightarrow> ok s \<Longrightarrow>
      \<exists>d' n. intern s d = Done d' \<and> inv d' \<and> offset_of d' s = Done (True, n)"
    and intern_keeps: "inv d \<Longrightarrow> ok s \<Longrightarrow> intern s d = Done d' \<Longrightarrow>
      offset_of d t = Done (True, n) \<Longrightarrow> offset_of d' t = Done (True, n)"
    and string_at_offset: "inv d \<Longrightarrow> offset_of d t = Done (True, n) \<Longrightarrow> string_at d n = Some t"
begin

lemma intern_all_keeps:
  "inv d \<Longrightarrow> list_all ok ss \<Longrightarrow> fold_outcome intern ss d = Done d' \<Longrightarrow>
   offset_of d t = Done (True, n) \<Longrightarrow> offset_of d' t = Done (True, n)"
proof (induction ss arbitrary: d)
  case (Cons s ss)
  obtain e where e: "intern s d = Done e" "inv e"
    using intern_found [of d s] Cons.prems by auto
  moreover have "offset_of e t = Done (True, n)"
    using intern_keeps [OF _ _ e(1)] Cons.prems by auto
  ultimately show ?case using Cons.IH [of e] Cons.prems by auto
qed simp

lemma intern_all:
  "inv d \<Longrightarrow> list_all ok ss \<Longrightarrow>
   \<exists>d'. fold_outcome intern ss d = Done d' \<and> inv d' \<and> (\<forall>s \<in> set ss. \<exists>n. offset_of d' s = Done (True, n))"
proof (induction ss arbitrary: d)
  case (Cons s ss)
  obtain e n where e: "intern s d = Done e" "inv e" "offset_of e s = Done (True, n)"
    using intern_found [of d s] Cons.prems by auto
  then obtain d' where d': "fold_outcome intern ss e = Done d'" "inv d'"
      "\<forall>s \<in> set ss. \<exists>n. offset_of d' s = Done (True, n)"
    using Cons.IH [of e] Cons.prems by auto
  then show ?case
    using e intern_all_keeps [OF e(2) _ d'(1) e(3)] Cons.prems by auto
qed simp

lemma intern_all_reads_back:
  assumes "inv d" and "list_all ok ss" and "s \<in> set ss"
  shows "\<exists>d' n. fold_outcome intern ss d = Done d' \<and> offset_of d' s = Done (True, n) \<and> string_at d' n = Some s"
  using intern_all [OF assms(1,2)] assms(3) string_at_offset by blast

end

section \<open>The dictionary is a table of strings\<close>

text \<open>The abstract dictionary is the list of its strings.\<close>

definition no_nul :: "string \<Rightarrow> bool" where
  "no_nul s \<longleftrightarrow> NUL \<notin> set s"

definition dict_bytes :: "string list \<Rightarrow> byte list" where
  "dict_bytes ss = concat (map (\<lambda>s. map byte_of_char s @ [0]) ss)"

definition dict_strings :: "dictionary \<Rightarrow> string list \<Rightarrow> bool" where
  "dict_strings d ss \<longleftrightarrow> d_bytes d = dict_bytes ss \<and> list_all no_nul ss \<and> length (d_bytes d) \<le> d_capacity d"

definition dict_inv :: "dictionary \<Rightarrow> bool" where
  "dict_inv d \<longleftrightarrow> (\<exists>ss. dict_strings d ss)"

lemma dict_bytes_simps [simp]:
  "dict_bytes [] = []"
  "dict_bytes (s # ss) = map byte_of_char s @ 0 # dict_bytes ss"
  "dict_bytes (ss @ ts) = dict_bytes ss @ dict_bytes ts"
  by (simp_all add: dict_bytes_def)

lemma char_of_byte_of_char [simp]: "char_of_byte (byte_of_char c) = c"
proof -
  have "unat (of_nat (of_char c) :: byte) = of_char c"
    using of_char_mod_256 [of c, where 'a = nat] by (simp only: unat_of_nat) simp
  then have "unat (of_char c :: byte) = of_char c" by (simp only: of_nat_of_char)
  then show ?thesis by (simp add: char_of_byte_def byte_of_char_def)
qed

lemma byte_of_char_NUL: "byte_of_char c = 0 \<longleftrightarrow> c = NUL"
proof
  assume "byte_of_char c = 0"
  then have "c = char_of_byte 0" using char_of_byte_of_char [of c] by simp
  then show "c = NUL" by (simp add: char_of_byte_def NUL_def char_of_def)
qed (simp add: NUL_def byte_of_char_def)

lemma c_string_front:
  assumes "no_nul s"
  shows "c_string (map byte_of_char s @ 0 # r) = Some s"
proof -
  have "takeWhile (\<lambda>b. b \<noteq> 0) (map byte_of_char s @ 0 # r) = map byte_of_char s"
    using assms by (induction s) (auto simp: no_nul_def byte_of_char_NUL)
  then show ?thesis by (simp add: c_string_def comp_def)
qed

lemma get_offset_from_dict_bytes:
  "list_all no_nul ss \<Longrightarrow>
   get_offset_from str (dict_bytes ss) off =
     Done (str \<in> set ss, off + length (dict_bytes (takeWhile (\<lambda>s. s \<noteq> str) ss)))"
proof (induction ss arbitrary: off)
  case Nil
  then show ?case by (simp add: get_offset_from.simps)
next
  case (Cons s ss)
  have same: "(take (length s) str = s \<and> length str = length s) = (s = str)" by auto
  have "get_offset_from str (dict_bytes (s # ss)) off =
      (if s = str then Done (True, off) else get_offset_from str (dict_bytes ss) (off + (length s + 1)))"
    using Cons.prems by (subst get_offset_from.simps) (simp add: c_string_front same Let_def)
  then show ?case using Cons by auto
qed

lemma get_offset_eq:
  "dict_strings d ss \<Longrightarrow>
   get_offset d str = Done (str \<in> set ss, length (dict_bytes (takeWhile (\<lambda>s. s \<noteq> str) ss)))"
  by (simp add: dict_strings_def get_offset_def get_offset_from_dict_bytes)

lemma grow_capacity_ge: "need \<le> grow_capacity need cap"
  by (induction need cap rule: grow_capacity.induct) (subst grow_capacity.simps, auto simp: Let_def)

lemma add_str_eq:
  assumes "dict_strings d ss" and "no_nul s"
  shows "\<exists>d'. add_str s d = Done d' \<and> dict_strings d' (if s \<in> set ss then ss else ss @ [s])"
proof (cases "s \<in> set ss")
  case False
  then show ?thesis
    using assms grow_capacity_ge [of "length (dict_bytes ss) + length s + 1" "d_capacity d"]
    by (auto simp: add_str_def get_offset_eq [OF assms(1)] dict_strings_def Let_def)
qed (use assms in \<open>simp add: add_str_def get_offset_eq [OF assms(1)]\<close>)

lemma split_at_first: "s \<in> set ss \<Longrightarrow> \<exists>r. ss = takeWhile (\<lambda>t. t \<noteq> s) ss @ s # r"
  by (induction ss) auto

lemma string_at_offset:
  assumes "dict_strings d ss" and "s \<in> set ss"
  shows "c_string (drop (length (dict_bytes (takeWhile (\<lambda>t. t \<noteq> s) ss))) (d_bytes d)) = Some s"
proof -
  obtain r where "ss = takeWhile (\<lambda>t. t \<noteq> s) ss @ s # r"
    using split_at_first [OF assms(2)] by blast
  then have "d_bytes d = dict_bytes (takeWhile (\<lambda>t. t \<noteq> s) ss) @ map byte_of_char s @ 0 # dict_bytes r"
    using assms(1) unfolding dict_strings_def by (metis dict_bytes_simps(2,3))
  moreover have "no_nul s" using assms by (auto simp: dict_strings_def list_all_iff)
  ultimately show ?thesis by (simp add: c_string_front)
qed

interpretation dict: string_table no_nul dict_inv add_str get_offset "\<lambda>d n. c_string (drop n (d_bytes d))"
proof
  fix d s
  assume "dict_inv d" and s: "no_nul s"
  then obtain ss where ss: "dict_strings d ss" by (auto simp: dict_inv_def)
  then obtain d' where "add_str s d = Done d'" "dict_strings d' (if s \<in> set ss then ss else ss @ [s])"
    using add_str_eq s by blast
  then show "\<exists>d' n. add_str s d = Done d' \<and> dict_inv d' \<and> get_offset d' s = Done (True, n)"
    using get_offset_eq [of d' _ s] by (cases "s \<in> set ss") (auto simp: dict_inv_def)
next
  fix d s d' t n
  assume "dict_inv d" and s: "no_nul s" and add: "add_str s d = Done d'" and t: "get_offset d t = Done (True, n)"
  then obtain ss where ss: "dict_strings d ss" by (auto simp: dict_inv_def)
  have "dict_strings d' (if s \<in> set ss then ss else ss @ [s])"
    using add_str_eq [OF ss s] add by auto
  moreover have "t \<in> set ss" using t ss by (simp add: get_offset_eq)
  moreover have "takeWhile (\<lambda>s. s \<noteq> t) (ss @ [s]) = takeWhile (\<lambda>s. s \<noteq> t) ss"
    using \<open>t \<in> set ss\<close> by (induction ss) auto
  ultimately show "get_offset d' t = Done (True, n)"
    using t ss by (cases "s \<in> set ss") (auto simp: get_offset_eq)
next
  fix d t n
  assume "dict_inv d" and t: "get_offset d t = Done (True, n)"
  then obtain ss where ss: "dict_strings d ss" by (auto simp: dict_inv_def)
  then show "c_string (drop n (d_bytes d)) = Some t"
    using t string_at_offset [OF ss, of t] by (auto simp: get_offset_eq)
qed

section \<open>Identifiers in the dictionary\<close>

definition eid_strings :: "endpoint_id \<Rightarrow> string list" where
  "eid_strings e = [eid_scheme_str e, eid_ssp e]"

definition eid_text_ok :: "endpoint_id \<Rightarrow> bool" where
  "eid_text_ok e \<longleftrightarrow> list_all (\<lambda>s. s \<noteq> [] \<and> no_nul s) (eid_strings e)"

lemma add_eid_eq: "add_eid e = fold_outcome add_str (eid_strings e)"
proof (rule ext)
  fix d
  have "fold_outcome add_str [eid_ssp e] = add_str (eid_ssp e)" by (rule ext) simp
  then show "add_eid e d = fold_outcome add_str (eid_strings e) d" by (simp add: add_eid_def eid_strings_def)
qed

lemma add_eids_eq:
  "fold_outcome add_eid es d = fold_outcome add_str (concat (map eid_strings es)) d"
proof (induction es arbitrary: d)
  case (Cons e es)
  then have "fold_outcome add_eid es = fold_outcome add_str (concat (map eid_strings es))" by (rule ext)
  then show ?case by (simp only: fold_outcome.simps list.map concat.simps fold_outcome_append add_eid_eq [of e])
qed simp

lemma empty_dictionary_inv: "dict_inv empty_dictionary"
  by (auto simp: dict_inv_def dict_strings_def empty_dictionary_def intro: exI [of _ "[]"])

text \<open>A string that is found lies within the filled-in part, with its terminator.\<close>

lemma get_offset_bound:
  assumes "dict_inv d" and "get_offset d s = Done (True, n)"
  shows "n + length s < length (d_bytes d)"
proof -
  obtain ss where ss: "dict_strings d ss" using assms(1) by (auto simp: dict_inv_def)
  then have s: "s \<in> set ss" "n = length (dict_bytes (takeWhile (\<lambda>t. t \<noteq> s) ss))"
    using assms(2) by (simp_all add: get_offset_eq)
  obtain r where "ss = takeWhile (\<lambda>t. t \<noteq> s) ss @ s # r" using split_at_first [OF s(1)] by blast
  then have "dict_bytes ss = dict_bytes (takeWhile (\<lambda>t. t \<noteq> s) ss) @ map byte_of_char s @ 0 # dict_bytes r"
    by (metis dict_bytes_simps(2,3))
  then show ?thesis using ss s(2) by (simp add: dict_strings_def)
qed

text \<open>The dictionary as it arrives: the same bytes, and a buffer of just their length.\<close>

definition received_dict :: "dictionary \<Rightarrow> dictionary" where
  "received_dict d = \<lparr>d_bytes = d_bytes d, d_capacity = length (d_bytes d), d_allocated = True\<rparr>"

lemma set_dict_empty: "set_dict (d_bytes d) empty_dictionary = Done (received_dict d)"
  by (simp add: set_dict_def empty_dictionary_def received_dict_def)

lemma extract_received:
  assumes "dict_inv d" and "get_offset d sch = Done (True, m)" and "get_offset d ssp = Done (True, n)"
    and "sch \<noteq> []" and "ssp \<noteq> []"
  shows "extract_eid (received_dict d) m n e0 =
    bind_outcome (eid_assign_parts sch ssp e0) (\<lambda>e. Done (eid_valid e, e))"
  using get_offset_bound [OF assms(1,2)] get_offset_bound [OF assms(1,3)] assms(4,5)
    dict.string_at_offset [OF assms(1,2)] dict.string_at_offset [OF assms(1,3)]
  by (cases sch; cases ssp; cases "eid_assign_parts sch ssp e0")
    (auto simp: extract_eid_def received_dict_def)

lemma add_eids_offsets:
  assumes "list_all eid_text_ok es"
  shows "\<exists>d. fold_outcome add_eid es empty_dictionary = Done d \<and> dict_inv d \<and>
    (\<forall>e \<in> set es. \<forall>ssp0. \<exists>m n. get_offsets d e ssp0 = Done (True, m, n)
       \<and> get_offset d (eid_scheme_str e) = Done (True, m) \<and> get_offset d (eid_ssp e) = Done (True, n))"
proof -
  have "list_all no_nul (concat (map eid_strings es))"
    using assms by (auto simp: list_all_iff eid_text_ok_def)
  then obtain d where d: "fold_outcome add_str (concat (map eid_strings es)) empty_dictionary = Done d" "dict_inv d"
      "\<forall>s \<in> set (concat (map eid_strings es)). \<exists>n. get_offset d s = Done (True, n)"
    using dict.intern_all [OF empty_dictionary_inv] by blast
  have "\<exists>m n. get_offsets d e ssp0 = Done (True, m, n)
       \<and> get_offset d (eid_scheme_str e) = Done (True, m) \<and> get_offset d (eid_ssp e) = Done (True, n)"
    if "e \<in> set es" for e ssp0
  proof -
    have "eid_scheme_str e \<in> set (concat (map eid_strings es))" "eid_ssp e \<in> set (concat (map eid_strings es))"
      using that by (auto simp: eid_strings_def)
    then obtain m n where "get_offset d (eid_scheme_str e) = Done (True, m)" "get_offset d (eid_ssp e) = Done (True, n)"
      using d(3) by blast
    then show ?thesis by (simp add: get_offsets_def)
  qed
  then show ?thesis using d(1,2) by (auto simp: add_eids_eq)
qed

section \<open>Properties\<close>

text \<open>
  C16. References to endpoint identifiers survive the wire: after any number of identifiers
  have been added to a fresh dictionary, the offsets of each one, looked up in the sender's
  dictionary, are accepted by the receiver's copy of the bytes and give back an identifier
  assembled from the same scheme and the same scheme-specific part.
\<close>

theorem eid_reference_roundtrip:
  assumes "list_all eid_text_ok es" and "e \<in> set es"
  shows "\<exists>d rd m n. fold_outcome add_eid es empty_dictionary = Done d
    \<and> set_dict (d_bytes d) empty_dictionary = Done rd \<and> get_offsets d e 0 = Done (True, m, n)
    \<and> extract_eid rd m n e0 =
        bind_outcome (eid_assign_parts (eid_scheme_str e) (eid_ssp e) e0) (\<lambda>e'. Done (eid_valid e', e'))"
proof -
  obtain d m n where d: "fold_outcome add_eid es empty_dictionary = Done d" "dict_inv d"
      "get_offsets d e 0 = Done (True, m, n)"
      "get_offset d (eid_scheme_str e) = Done (True, m)" "get_offset d (eid_ssp e) = Done (True, n)"
    using add_eids_offsets [OF assms(1)] assms(2) by blast
  have "eid_text_ok e" using assms by (auto simp: list_all_iff)
  then show ?thesis
    using extract_received [OF d(2,4,5)] d(1,3) set_dict_empty [of d]
    by (auto simp: eid_text_ok_def eid_strings_def)
qed

theorem eid_reference_roundtrip_witness:
  "\<exists>d rd m n. fold_outcome add_eid [example_eid, example_route] empty_dictionary = Done d
    \<and> set_dict (d_bytes d) empty_dictionary = Done rd \<and> get_offsets d example_route 0 = Done (True, m, n)
    \<and> extract_eid rd m n empty_eid =
        bind_outcome (eid_assign_parts ''dtn'' ''//h/*'' empty_eid) (\<lambda>e'. Done (eid_valid e', e'))"
  using eid_reference_roundtrip [of "[example_eid, example_route]" example_route empty_eid]
  by (simp add: eid_text_ok_def eid_strings_def eid_scheme_str_def eid_ssp_def example_eid_def example_route_def
      example_uri_def new_uri_def uri_scheme_def uri_ssp_def get_component_def substr_def no_nul_def NUL_def)

text \<open>
  The offsets on the wire have 64 bits and are cut to 32 before the bounds check: an
  offset far outside the dictionary can name a string in it.
\<close>

theorem dictionary_offset_wraps:
  "extract_eid64 \<lparr>d_bytes = dict_bytes [''dtn'', ''none''], d_capacity = 9, d_allocated = True\<rparr>
     (2 ^ 32) (2 ^ 32 + 4) e
   = extract_eid64 \<lparr>d_bytes = dict_bytes [''dtn'', ''none''], d_capacity = 9, d_allocated = True\<rparr> 0 4 e
   \<and> (case extract_eid64 \<lparr>d_bytes = dict_bytes [''dtn'', ''none''], d_capacity = 9, d_allocated = True\<rparr>
        (2 ^ 32) (2 ^ 32 + 4) empty_eid of
        Panic \<Rightarrow> False | Done (ok, e') \<Rightarrow> ok \<and> eid_str e' = ''dtn:none'')"
proof
  have "(ucast (2 ^ 32 :: u64) :: u32) = ucast (0 :: u64)" "(ucast (2 ^ 32 + 4 :: u64) :: u32) = ucast (4 :: u64)"
    by code_simp+
  then show "extract_eid64 \<lparr>d_bytes = dict_bytes [''dtn'', ''none''], d_capacity = 9, d_allocated = True\<rparr>
     (2 ^ 32) (2 ^ 32 + 4) e
   = extract_eid64 \<lparr>d_bytes = dict_bytes [''dtn'', ''none''], d_capacity = 9, d_allocated = True\<rparr> 0 4 e"
    unfolding extract_eid64_def Let_def by (simp only:)
qed code_simp

end
