(* ===== verification/Block_Info.thy ===== *)
theory Block_Info
  imports Sdnv Dictionary
begin

text \<open>
  The blocks of a bundle (\<open>servlib/bundling/BlockInfo.cc\<close>) and the default handling of a
  block (\<open>servlib/bundling/BlockProcessor.cc\<close>): the preamble and its SDNVs, the incremental
  consumption of a block as data arrives, and the generation of blocks to send.

  A block's buffer is its contents, up to the length that has been set, and the capacity
  \<open>buf_len\<close>; what lies between is not read. The 32-bit members \<open>data_length_\<close> and
  \<open>data_offset_\<close> keep their width, since \<open>full_length\<close> adds them in 32 bits. Lengths of
  type \<open>size_t\<close> are unbounded numbers.
\<close>

section \<open>Processors and blocks\<close>

text \<open>The owner of a block is one of the registered block processors.\<close>

datatype processor =
    PrimaryBP | PayloadBP | PreviousHopBP | MetadataBP | SessionBP | SequenceIDBP | ObsoletesIDBP
  | APIBlockBP | UnknownBP

fun block_type :: "processor \<Rightarrow> nat" where
  "block_type PrimaryBP = 0x000"
| "block_type PayloadBP = 0x001"
| "block_type PreviousHopBP = 0x005"
| "block_type MetadataBP = 0x008"
| "block_type SessionBP = 0x009"
| "block_type SequenceIDBP = 0x010"
| "block_type ObsoletesIDBP = 0x011"
| "block_type APIBlockBP = 0x100"
| "block_type UnknownBP = 0x101"

definition find_processor :: "byte \<Rightarrow> processor" where
  "find_processor t =
     (if t = 0x00 then PrimaryBP else if t = 0x01 then PayloadBP else if t = 0x05 then PreviousHopBP
      else if t = 0x08 then MetadataBP else if t = 0x09 then SessionBP
      else if t = 0x10 then SequenceIDBP else if t = 0x11 then ObsoletesIDBP else UnknownBP)"

definition BLOCK_FLAG_REPLICATE :: u64 where "BLOCK_FLAG_REPLICATE = 0x01"
definition BLOCK_FLAG_REPORT_ONERROR :: u64 where "BLOCK_FLAG_REPORT_ONERROR = 0x02"
definition BLOCK_FLAG_DISCARD_BUNDLE_ONERROR :: u64 where "BLOCK_FLAG_DISCARD_BUNDLE_ONERROR = 0x04"
definition BLOCK_FLAG_LAST_BLOCK :: u64 where "BLOCK_FLAG_LAST_BLOCK = 0x08"
definition BLOCK_FLAG_DISCARD_BLOCK_ONERROR :: u64 where "BLOCK_FLAG_DISCARD_BLOCK_ONERROR = 0x10"
definition BLOCK_FLAG_FORWARDED_UNPROCESSED :: u64 where "BLOCK_FLAG_FORWARDED_UNPROCESSED = 0x20"
definition BLOCK_FLAG_EID_REFS :: u64 where "BLOCK_FLAG_EID_REFS = 0x40"

definition PREAMBLE_FIXED_LENGTH :: nat where
  "PREAMBLE_FIXED_LENGTH = 1"

text \<open>
  The pointer \<open>source_\<close> of an outgoing block leads into the bundle's vector of received blocks
  or of blocks given by the application; \<open>locals_\<close> is the number of a metadata object.
\<close>

datatype source_ref = ReceivedBlock nat | APIBlock nat

record block_info =
  bi_owner :: processor
  bi_source :: "source_ref option"
  bi_locals :: "nat option"
  bi_eid_list :: "endpoint_id list"
  bi_contents :: "byte list"
  bi_buf_len :: nat
  bi_data_length :: u32
  bi_data_offset :: u32
  bi_complete :: bool
  bi_reloaded :: bool

definition new_block :: "processor \<Rightarrow> block_info" where
  "new_block owner = \<lparr>bi_owner = owner, bi_source = None, bi_locals = None, bi_eid_list = [], bi_contents = [], bi_buf_len = 64,
     bi_data_length = 0, bi_data_offset = 0, bi_complete = False, bi_reloaded = False\<rparr>"

definition new_block_of :: "processor \<Rightarrow> source_ref option \<Rightarrow> block_info" where
  "new_block_of owner source = (new_block owner)\<lparr>bi_source := source\<rparr>"

definition full_length :: "block_info \<Rightarrow> u32" where
  "full_length b = bi_data_offset b + bi_data_length b"

definition bi_type :: "block_info \<Rightarrow> nat outcome" where
  "bi_type b =
     (if bi_owner b = PrimaryBP then Done 0
      else case bi_contents b of
        [] \<Rightarrow> Done (block_type (bi_owner b))
      | t # _ \<Rightarrow> assert_that (unat t = block_type (bi_owner b) \<or> bi_owner b = UnknownBP \<or> bi_owner b = APIBlockBP)
                  (Done (unat t)))"

definition bi_flags :: "block_info \<Rightarrow> u64 outcome" where
  "bi_flags b =
     bind_outcome (bi_type b)
       (\<lambda>t. if t = 0 then Done 0
            else case sdnv_decode (drop 1 (bi_contents b)) of
              (sdnv_size, flags) \<Rightarrow> assert_that (sdnv_size > 0) (Done flags))"

text \<open>\<open>set_flag\<close> overwrites the flags with as many octets as the new value has.\<close>

definition set_flag :: "u64 \<Rightarrow> block_info \<Rightarrow> block_info outcome" where
  "set_flag flag b =
     bind_outcome (sdnv_encoding_len flag)
       (\<lambda>sdnv_len. assert_that (length (bi_contents b) \<ge> 1 + sdnv_len)
         (Done (b\<lparr>bi_contents := take 1 (bi_contents b) @ sdnv_bytes flag @ drop (1 + sdnv_len) (bi_contents b)\<rparr>)))"

definition last_block :: "block_info \<Rightarrow> bool outcome" where
  "last_block b =
     (if length (bi_contents b) < 2 then Done False
      else bind_outcome (bi_flags b) (\<lambda>flag. Done (flag AND BLOCK_FLAG_LAST_BLOCK \<noteq> 0)))"

record block_info_vec =
  biv_blocks :: "block_info list"
  biv_dict :: dictionary
  biv_error_major :: u32
  biv_error_minor :: u32
  biv_error_debug :: u32

definition empty_biv :: block_info_vec where
  "empty_biv = \<lparr>biv_blocks = [], biv_dict = empty_dictionary, biv_error_major = 0, biv_error_minor = 0,
     biv_error_debug = 0\<rparr>"

definition append_block :: "processor \<Rightarrow> block_info_vec \<Rightarrow> block_info_vec" where
  "append_block owner v = v\<lparr>biv_blocks := biv_blocks v @ [new_block owner]\<rparr>"

fun find_block_in :: "byte \<Rightarrow> block_info list \<Rightarrow> block_info option outcome" where
  "find_block_in t [] = Done None"
| "find_block_in t (b # bs) =
     bind_outcome (bi_type b)
       (\<lambda>ty. if ty = unat t \<or> block_type (bi_owner b) = unat t then Done (Some b) else find_block_in t bs)"

definition find_block :: "byte \<Rightarrow> block_info_vec \<Rightarrow> block_info option outcome" where
  "find_block t v = find_block_in t (biv_blocks v)"

section \<open>Consuming a block\<close>

text \<open>\<open>reserve\<close> of the scratch buffer.\<close>

definition reserve :: "nat \<Rightarrow> block_info \<Rightarrow> block_info" where
  "reserve n b =
     (let size' = (if n = 0 then (if bi_buf_len b = 0 then 1 else bi_buf_len b * 2) else n)
      in if size' \<le> bi_buf_len b then b else b\<lparr>bi_buf_len := size'\<rparr>)"

text \<open>
  The loop over the EID references of the preamble, at offset \<open>off\<close> of the contents:
  \<open>None\<close> when an SDNV cannot be decoded.
\<close>

fun eid_refs :: "dictionary \<Rightarrow> nat \<Rightarrow> byte list \<Rightarrow> nat \<Rightarrow> (endpoint_id list \<times> nat) option outcome" where
  "eid_refs d 0 c off = Done (Some ([], off))"
| "eid_refs d (Suc n) c off =
     (case sdnv_decode (drop off c) of (n1, scheme_offset) \<Rightarrow>
        if n1 = -1 then Done None
        else let off1 = off + nat n1
             in case sdnv_decode (drop off1 c) of (n2, ssp_offset) \<Rightarrow>
                  if n2 = -1 then Done None
                  else let off2 = off1 + nat n2
                       in bind_outcome (extract_eid64 d scheme_offset ssp_offset empty_eid)
                            (\<lambda>(ok, eid). bind_outcome (eid_refs d n c off2)
                              (\<lambda>r. Done (map_option (\<lambda>(es, off'). (eid # es, off')) r))))"

definition preamble_eids :: "dictionary \<Rightarrow> u64 \<Rightarrow> byte list \<Rightarrow> nat \<Rightarrow> (endpoint_id list \<times> nat) option outcome" where
  "preamble_eids d flags c off =
     (if flags AND BLOCK_FLAG_EID_REFS \<noteq> 0
      then case sdnv_decode (drop off c) of (n, eid_ref_count) \<Rightarrow>
             if n = -1 then Done None else eid_refs d (unat eid_ref_count) c (off + nat n)
      else Done (Some ([], off)))"

text \<open>
  \<open>consume_preamble\<close>: the return value and the block. \<open>partial\<close> is what the code does
  whenever an SDNV cannot be decoded: it takes the preamble for incomplete and asserts that
  the whole input has been copied.
\<close>

definition consume_preamble :: "dictionary \<Rightarrow> block_info \<Rightarrow> byte list \<Rightarrow> (int \<times> block_info) outcome" where
  "consume_preamble d block buf =
     assert_that (\<not> bi_complete block) (assert_that (bi_data_offset block = 0)
      (let b1 = (if bi_buf_len block = length (bi_contents block)
                 then reserve (length (bi_contents block) + 64) block else block);
           max_preamble = bi_buf_len b1; prev_consumed = length (bi_contents b1);
           tocopy = min (length buf) (max_preamble - prev_consumed)
       in assert_that (max_preamble > prev_consumed)
       (let contents = bi_contents b1 @ take tocopy buf; b2 = b1\<lparr>bi_contents := contents\<rparr>;
            partial = assert_that (tocopy = length buf) (Done (int (length buf), b2))
        in if length contents \<le> PREAMBLE_FIXED_LENGTH then partial
           else case sdnv_decode (drop PREAMBLE_FIXED_LENGTH contents) of (n, flags) \<Rightarrow>
             if n = -1 then partial
             else assert_that (bi_eid_list b2 = [])
               (bind_outcome (preamble_eids d flags contents (PREAMBLE_FIXED_LENGTH + nat n))
                 (\<lambda>r. case r of
                    None \<Rightarrow> partial
                  | Some (eids, off) \<Rightarrow>
                      (case sdnv_decode (drop off contents) of (m, block_len) \<Rightarrow>
                         if m = -1 then partial
                         else if block_len > 0xFFFFFFFF then Done (-1, b2)
                         else let buf_offset = off + nat m
                              in assert_that (buf_offset > prev_consumed)
                                (Done (int buf_offset - int prev_consumed,
                                   b2\<lparr>bi_data_length := ucast block_len, bi_data_offset := of_nat buf_offset,
                                      bi_contents := take buf_offset contents, bi_eid_list := eids\<rparr>))))))))"

text \<open>\<open>BlockProcessor::consume\<close>: the part after the preamble, then the whole.\<close>

definition consume_data :: "block_info \<Rightarrow> byte list \<Rightarrow> nat \<Rightarrow> (int \<times> block_info) outcome" where
  "consume_data block buf consumed =
     assert_that (bi_data_offset block = 0 \<longrightarrow> buf = [])
      (let b1 = (if bi_data_offset block \<noteq> 0 \<and> bi_data_length block = 0 then block\<lparr>bi_complete := True\<rparr> else block)
       in if buf = [] then Done (int consumed, b1)
          else assert_that (bi_data_length b1 = 0 \<or> unat (full_length b1) > length (bi_contents b1))
           (let b2 = reserve (unat (full_length b1)) b1; rcvd = length (bi_contents b2);
                remainder = unat (full_length b2) - rcvd;
                (b3, tocopy) = (if length buf \<ge> remainder then (b2\<lparr>bi_complete := True\<rparr>, remainder)
                                else (b2, length buf))
            in assert_that (rcvd < bi_buf_len b3)
                (Done (int (consumed + tocopy), b3\<lparr>bi_contents := bi_contents b3 @ take tocopy buf\<rparr>))))"

definition bp_consume :: "dictionary \<Rightarrow> block_info \<Rightarrow> byte list \<Rightarrow> (int \<times> block_info) outcome" where
  "bp_consume d block buf =
     assert_that (\<not> bi_complete block)
      (if bi_data_offset block = 0
       then bind_outcome (consume_preamble d block buf)
              (\<lambda>(cc, b). if cc = -1 then Done (-1, b) else consume_data b (drop (nat cc) buf) (nat cc))
       else consume_data block buf 0)"

section \<open>Generating a block\<close>

text \<open>
  An SDNV is written at the pointer into the work buffer: what is written and what is left.
  A failed encoding returns -1, and the pointer moves back by one.
\<close>

definition work_sdnv :: "u64 \<Rightarrow> byte list \<times> byte list \<Rightarrow> (byte list \<times> byte list) outcome" where
  "work_sdnv v w =
     (case w of (done', rest) \<Rightarrow>
        bind_outcome (sdnv_encode v rest)
          (\<lambda>(n, rest'). Done (if n < 0 then (butlast done', last done' # rest')
                              else (done' @ take (nat n) rest', drop (nat n) rest'))))"

fun work_eids :: "endpoint_id list \<Rightarrow> dictionary \<times> byte list \<times> byte list \<Rightarrow> (dictionary \<times> byte list \<times> byte list) outcome" where
  "work_eids [] s = Done s"
| "work_eids (e # es) s =
     (case s of (d, w) \<Rightarrow>
       bind_outcome (add_eid e d)
         (\<lambda>d1. bind_outcome (get_offsets d1 e 0)
           (\<lambda>(found, scheme_offset, ssp_offset).
              bind_outcome (work_sdnv (of_nat scheme_offset) w)
                (\<lambda>w1. bind_outcome (work_sdnv (of_nat ssp_offset) w1) (\<lambda>w2. work_eids es (d1, w2))))))"

definition generate_preamble ::
    "dictionary \<Rightarrow> block_info \<Rightarrow> byte \<Rightarrow> u64 \<Rightarrow> u64 \<Rightarrow> (dictionary \<times> block_info) outcome" where
  "generate_preamble d block ty flags data_length =
     (let eid_count = length (bi_eid_list block);
          flags' = (if eid_count > 0 then flags OR BLOCK_FLAG_EID_REFS else flags)
      in bind_outcome
           (if eid_count > 0
            then bind_outcome (work_sdnv (of_nat eid_count) ([], replicate 1000 0))
                   (\<lambda>w. work_eids (bi_eid_list block) (d, w))
            else Done (d, [], replicate 1000 0))
         (\<lambda>(d', eid_field, rest).
            bind_outcome (sdnv_encoding_len flags')
             (\<lambda>flag_sdnv_len. bind_outcome (sdnv_encoding_len data_length)
               (\<lambda>length_sdnv_len.
                  assert_that (bi_contents block = [])
                   (let offset = PREAMBLE_FIXED_LENGTH + flag_sdnv_len + length eid_field + length_sdnv_len
                    in assert_that (bi_buf_len block \<ge> offset)
                      (Done (d', block\<lparr>bi_contents := ty # sdnv_bytes flags' @ eid_field @ sdnv_bytes data_length,
                                       bi_data_length := ucast data_length,
                                       bi_data_offset := of_nat offset\<rparr>)))))))"

text \<open>\<open>init_block\<close>; a copy past the reserved length would be \<open>Panic\<close>.\<close>

definition init_block ::
    "dictionary \<Rightarrow> block_info \<Rightarrow> byte \<Rightarrow> byte \<Rightarrow> byte list \<Rightarrow> (dictionary \<times> block_info) outcome" where
  "init_block d block ty flags bp =
     bind_outcome (generate_preamble d block ty (ucast flags) (of_nat (length bp)))
       (\<lambda>(d', b). assert_that (bi_data_offset b \<noteq> 0)
         (let b1 = reserve (unat (full_length b)) b
          in assert_that (unat (full_length b) = unat (bi_data_offset b) + length bp)
              (Done (d', b1\<lparr>bi_contents := take (unat (bi_data_offset b)) (bi_contents b) @ bp\<rparr>))))"

definition bp_produce :: "block_info \<Rightarrow> nat \<Rightarrow> nat \<Rightarrow> byte list outcome" where
  "bp_produce b offset len =
     assert_that (offset < length (bi_contents b)) (assert_that (length (bi_contents b) \<ge> offset + len)
       (Done (take len (drop offset (bi_contents b)))))"

text \<open>\<open>prepare\<close>: a received block goes to the end, any other behind the primary block.\<close>

definition bp_prepare ::
    "processor \<Rightarrow> source_ref option \<Rightarrow> bool \<Rightarrow> block_info_vec \<Rightarrow> block_info_vec outcome" where
  "bp_prepare owner source list_received xmit =
     (if list_received then Done (xmit\<lparr>biv_blocks := biv_blocks xmit @ [new_block_of owner source]\<rparr>)
      else case biv_blocks xmit of
        [] \<Rightarrow> Panic
      | first # rest \<Rightarrow>
          bind_outcome (bi_type first)
            (\<lambda>t. assert_that (t = 0) (Done (xmit\<lparr>biv_blocks := first # new_block_of owner source # rest\<rparr>))))"

text \<open>The default checks, for a bundle that is an administrative record or not.\<close>

definition bp_validate :: "bool \<Rightarrow> block_info \<Rightarrow> bool outcome" where
  "bp_validate is_admin block =
     bind_outcome (bi_type block)
       (\<lambda>t. if is_admin \<and> t \<noteq> 0
            then bind_outcome (bi_flags block) (\<lambda>flags. Done (flags AND BLOCK_FLAG_REPORT_ONERROR = 0))
            else Done True)"

definition bp_finalize :: "bool \<Rightarrow> block_info \<Rightarrow> unit outcome" where
  "bp_finalize is_admin block =
     bind_outcome (bi_type block)
       (\<lambda>t. if is_admin \<and> t \<noteq> 0
            then bind_outcome (bi_flags block)
                   (\<lambda>flags. assert_that (flags AND BLOCK_FLAG_REPORT_ONERROR = 0) (Done ()))
            else Done ())"

section \<open>A block arriving in pieces\<close>

definition preamble_bytes :: "byte \<Rightarrow> u64 \<Rightarrow> nat \<Rightarrow> byte list" where
  "preamble_bytes ty flags n = ty # sdnv_bytes flags @ sdnv_bytes (of_nat n)"

text \<open>
  The block after the bytes \<open>p\<close> of a preamble \<open>pre\<close> and \<open>n\<close> bytes of data have arrived.
\<close>

definition block_after :: "processor \<Rightarrow> byte list \<Rightarrow> nat \<Rightarrow> byte list \<Rightarrow> bool \<Rightarrow> block_info" where
  "block_after owner pre n p complete =
     (let total = length pre + n; known = (length pre \<le> length p)
      in (new_block owner)
           \<lparr>bi_contents := p,
            bi_buf_len := (if length pre < length p then max 64 total else 64),
            bi_data_length := (if known then of_nat n else 0),
            bi_data_offset := (if known then of_nat (length pre) else 0),
            bi_complete := complete\<rparr>)"

lemma sdnv_bytes_prefix_undecodable:
  assumes "sdnv_bytes v = q @ r" and "r \<noteq> []"
  shows "fst (sdnv_decode q) = -1"
proof -
  have ds: "digits128 (unat v) \<noteq> []" "\<forall>d \<in> set (digits128 (unat v)). d < 128" by (auto dest: digits128_bound)
  obtain bs l where bl: "sdnv_bytes v = bs @ [l]" "\<forall>b \<in> set bs. 128 \<le> unat b"
    using octets_shape [OF ds] by (auto simp: sdnv_bytes_def sdnv_fill_octets)
  then have "bs = q @ butlast r" using assms by (metis append_butlast_last_id butlast_append butlast_snoc)
  then show ?thesis using sdnv_decode_unterminated [of q] bl(2) by auto
qed

lemma u32_of_nat: "n < 2 ^ 32 \<Longrightarrow> unat (of_nat n :: u32) = n"
  by (simp add: unat_of_nat)

lemma u64_of_nat: "n < 2 ^ 64 \<Longrightarrow> unat (of_nat n :: u64) = n"
  by (simp add: unat_of_nat)

lemma u32_of_nat_zero: "n < 2 ^ 32 \<Longrightarrow> (of_nat n :: u32) = 0 \<longleftrightarrow> n = 0"
  using u32_of_nat [of n] unat_0_iff [of "of_nat n :: u32"] by linarith

lemma full_length_eq:
  assumes "full_length b = of_nat m" and "m < 2 ^ 32"
  shows "unat (full_length b) = m"
  unfolding assms(1) by (rule u32_of_nat [OF assms(2)])

lemma full_length_update [simp]:
  "full_length (b\<lparr>bi_complete := x\<rparr>) = full_length b" "full_length (b\<lparr>bi_buf_len := m\<rparr>) = full_length b"
  "full_length (b\<lparr>bi_contents := y\<rparr>) = full_length b"
  by (simp_all add: full_length_def)

lemma consume_data_nonempty:
  assumes "buf \<noteq> []" and "bi_data_offset b \<noteq> 0" and "unat (full_length b) = tot" and "0 < tot"
    and "bi_data_length b = 0 \<or> length (bi_contents b) < tot"
    and "length (bi_contents b) < max (bi_buf_len b) tot" and "\<not> bi_complete b"
  shows "consume_data b buf c =
    Done (int (c + min (length buf) (tot - length (bi_contents b))),
      b\<lparr>bi_contents := bi_contents b @ take (tot - length (bi_contents b)) buf,
        bi_buf_len := max (bi_buf_len b) tot,
        bi_complete := (bi_data_length b = 0 \<or> tot - length (bi_contents b) \<le> length buf)\<rparr>)"
proof -
  have res: "reserve tot x = x\<lparr>bi_buf_len := max (bi_buf_len x) tot\<rparr>" for x
    using assms(4) by (auto simp: reserve_def max_def)
  show ?thesis
    using assms by (cases "bi_data_length b = 0"; cases "tot - length (bi_contents b) \<le> length buf")
      (simp_all add: consume_data_def Let_def res)
qed

lemma consume_data_step:
  assumes pl: "0 < length pre" "length pre < 64" and total: "length pre + n < 2 ^ 32"
    and p: "length pre \<le> length p" "length p \<le> length pre + n" "0 < n \<longrightarrow> length p < length pre + n"
  shows "consume_data (block_after owner pre n p False) buf c =
    Done (int (c + min (length buf) (length pre + n - length p)),
      block_after owner pre n (p @ take (length pre + n - length p) buf) (length p + length buf \<ge> length pre + n))"
proof -
  let ?b = "block_after owner pre n p False"
  have off: "bi_data_offset ?b \<noteq> 0" "bi_data_length ?b = of_nat n" "bi_data_offset ?b = of_nat (length pre)"
    using pl(1) p(1) total u32_of_nat_zero [of "length pre"] by (auto simp: block_after_def Let_def)
  have fl: "unat (full_length ?b) = length pre + n"
    using total by (intro full_length_eq) (simp_all add: full_length_def off)
  have n0: "bi_data_length ?b = 0 \<longleftrightarrow> n = 0" using total u32_of_nat_zero [of n] by (simp add: off(2))
  show ?thesis
  proof (cases "buf = []")
    case True
    then show ?thesis
      using p off(1) n0 by (auto simp: consume_data_def block_after_def Let_def)
  next
    case False
    have contents: "bi_contents ?b = p" "bi_buf_len ?b = (if length pre < length p then max 64 (length pre + n) else 64)"
      "\<not> bi_complete ?b"
      by (simp_all add: block_after_def Let_def)
    have room: "length p < max (bi_buf_len ?b) (length pre + n)" using p pl unfolding contents(2) by (cases n) (auto simp: max_def)
    have cond: "bi_data_length ?b = 0 \<or> length p < length pre + n" using p n0 by auto
    have buf_len: "max (bi_buf_len ?b) (length pre + n) =
        (if length pre < length (p @ take (length pre + n - length p) buf) then max 64 (length pre + n) else 64)"
      using p pl False unfolding contents(2) by (auto simp: max_def min_def split: if_splits)
    have complete: "(bi_data_length ?b = 0 \<or> length pre + n - length p \<le> length buf) \<longleftrightarrow> length p + length buf \<ge> length pre + n"
      using p n0 by auto
    have upd: "?b\<lparr>bi_contents := q, bi_buf_len := (if length pre < length q then max 64 (length pre + n) else 64),
        bi_complete := x\<rparr> = block_after owner pre n q x" if "length pre \<le> length q" for q x
      using that p(1) by (simp add: block_after_def Let_def)
    show ?thesis
      using consume_data_nonempty [OF False off(1) fl _ _ _ contents(3), of c] pl(1) cond room
      unfolding contents(1) buf_len complete
      by (subst (asm) upd) (use p(1) in auto)
  qed
qed


lemma length_preamble_bytes: "3 \<le> length (preamble_bytes ty flags n)" "length (preamble_bytes ty flags n) \<le> 21"
  using sdnv_bytes_length_bounds [of flags] sdnv_bytes_length_bounds [of "of_nat n"]
  by (simp_all add: preamble_bytes_def)

text \<open>A part of a preamble does not decode as a whole one.\<close>

lemma partial_preamble:
  assumes "preamble_bytes ty flags n = c @ r" and "r \<noteq> []" and "length c > 1"
  shows "fst (sdnv_decode (drop 1 c)) = -1 \<or>
    (sdnv_decode (drop 1 c) = (int (length (sdnv_bytes flags)), flags) \<and>
     fst (sdnv_decode (drop (1 + length (sdnv_bytes flags)) c)) = -1)"
proof (cases "length c < 1 + length (sdnv_bytes flags)")
  case True
  have "sdnv_bytes flags @ sdnv_bytes (of_nat n) = drop 1 c @ r"
    using assms by (cases c) (auto simp: preamble_bytes_def)
  then have "drop 1 c = take (length (drop 1 c)) (sdnv_bytes flags)"
    using True assms(3) by (simp only: append_eq_append_conv_if) (auto split: if_splits)
  then have "sdnv_bytes flags = drop 1 c @ drop (length (drop 1 c)) (sdnv_bytes flags)"
    by (metis append_take_drop_id)
  moreover have "drop (length (drop 1 c)) (sdnv_bytes flags) \<noteq> []" using True assms(3) by simp
  ultimately show ?thesis using sdnv_bytes_prefix_undecodable by blast
next
  case False
  then obtain q where c: "c = ty # sdnv_bytes flags @ q" "sdnv_bytes (of_nat n) = q @ r"
  proof -
    have "c = ty # sdnv_bytes flags @ drop (1 + length (sdnv_bytes flags)) c"
      using assms(1) False unfolding preamble_bytes_def
      by (cases c) (auto simp: append_eq_append_conv_if, metis append_take_drop_id)
    moreover have "sdnv_bytes (of_nat n) = drop (1 + length (sdnv_bytes flags)) c @ r"
      using assms(1) False unfolding preamble_bytes_def
      by (cases c) (auto simp: append_eq_append_conv_if)
    ultimately show ?thesis using that by blast
  qed
  then show ?thesis using sdnv_bytes_prefix_undecodable [OF c(2) assms(2)] by (simp add: sdnv_decode_bytes)
qed

text \<open>The preamble of a fresh block, by what its contents decode to.\<close>

lemma consume_preamble_undecoded:
  assumes b: "\<not> bi_complete b" "bi_data_offset b = 0" "bi_eid_list b = []" "bi_buf_len b = 64" "length (bi_contents b) < 64"
    and c: "bi_contents b @ take (min (length buf) (64 - length (bi_contents b))) buf = c"
    and dec: "length c \<le> 1 \<or> fst (sdnv_decode (drop 1 c)) = -1 \<or>
      (\<exists>fl flags. sdnv_decode (drop 1 c) = (int fl, flags) \<and> flags AND BLOCK_FLAG_EID_REFS = 0 \<and>
        fst (sdnv_decode (drop (1 + fl) c)) = -1)"
  shows "consume_preamble d b buf =
    assert_that (length (bi_contents b) + length buf \<le> 64) (Done (int (length buf), b\<lparr>bi_contents := c\<rparr>))"
proof -
  have copied: "min (length buf) (64 - length (bi_contents b)) = length buf \<longleftrightarrow> length (bi_contents b) + length buf \<le> 64"
    using b(5) by auto
  have b1: "(if bi_buf_len b = length (bi_contents b) then reserve (length (bi_contents b) + 64) b else b) = b"
    using b(4,5) by simp
  show ?thesis
    unfolding consume_preamble_def Let_def b1 unfolding b(4) c copied PREAMBLE_FIXED_LENGTH_def
    using dec b by (auto simp: preamble_eids_def split: prod.splits)
qed

lemma consume_preamble_decoded:
  assumes b: "\<not> bi_complete b" "bi_data_offset b = 0" "bi_eid_list b = []" "bi_buf_len b = 64" "length (bi_contents b) < 64"
    and c: "bi_contents b @ take (min (length buf) (64 - length (bi_contents b))) buf = c"
    and dec: "1 < length c" "sdnv_decode (drop 1 c) = (int fl, flags)" "flags AND BLOCK_FLAG_EID_REFS = 0"
      "sdnv_decode (drop (1 + fl) c) = (int m, len)" "len \<le> 0xFFFFFFFF" "length (bi_contents b) < 1 + fl + m"
  shows "consume_preamble d b buf =
    Done (int (1 + fl + m) - int (length (bi_contents b)),
      b\<lparr>bi_data_length := ucast len, bi_data_offset := of_nat (1 + fl + m), bi_contents := take (1 + fl + m) c\<rparr>)"
proof -
  have b1: "(if bi_buf_len b = length (bi_contents b) then reserve (length (bi_contents b) + 64) b else b) = b"
    using b(4,5) by simp
  show ?thesis
    unfolding consume_preamble_def Let_def b1 unfolding b(4) c PREAMBLE_FIXED_LENGTH_def
    using dec b by (simp add: preamble_eids_def not_less)
qed

lemma consume_preamble_partial:
  assumes "preamble_bytes ty flags n = p @ buf @ r" and "r \<noteq> []" and "flags AND BLOCK_FLAG_EID_REFS = 0"
  shows "consume_preamble d (block_after owner (preamble_bytes ty flags n) n p False) buf =
    Done (int (length buf), block_after owner (preamble_bytes ty flags n) n (p @ buf) False)"
proof -
  let ?pre = "preamble_bytes ty flags n"
  have len: "length p + length buf < length ?pre" using assms(2) by (simp add: assms(1))
  have fits: "length p + length buf < 64"
    using len length_preamble_bytes(2) [of ty flags n] by auto
  have b: "block_after owner ?pre n p False = (new_block owner)\<lparr>bi_contents := p\<rparr>"
    "block_after owner ?pre n (p @ buf) False = (new_block owner)\<lparr>bi_contents := p @ buf\<rparr>"
    using len by (simp_all add: block_after_def Let_def new_block_def)
  have dec: "length (p @ buf) \<le> 1 \<or> fst (sdnv_decode (drop 1 (p @ buf))) = -1 \<or>
      (\<exists>fl flags. sdnv_decode (drop 1 (p @ buf)) = (int fl, flags) \<and> flags AND BLOCK_FLAG_EID_REFS = 0 \<and>
        fst (sdnv_decode (drop (1 + fl) (p @ buf))) = -1)"
  proof (cases "length (p @ buf) \<le> 1")
    case False
    then have "1 < length (p @ buf)" by simp
    moreover have "?pre = (p @ buf) @ r" using assms(1) by simp
    ultimately show ?thesis using partial_preamble [OF _ assms(2)] assms(3) by blast
  qed simp
  show ?thesis
    using consume_preamble_undecoded [of "(new_block owner)\<lparr>bi_contents := p\<rparr>" buf "p @ buf" d] dec fits
    unfolding b by (simp add: new_block_def)
qed

lemma consume_preamble_whole:
  assumes "preamble_bytes ty flags n = p @ q" and "q \<noteq> []" and "buf = q @ r" and "flags AND BLOCK_FLAG_EID_REFS = 0"
    and "n < 2 ^ 32"
  shows "consume_preamble d (block_after owner (preamble_bytes ty flags n) n p False) buf =
    Done (int (length q), block_after owner (preamble_bytes ty flags n) n (p @ q) False)"
proof -
  let ?pre = "preamble_bytes ty flags n"
  define c where "c = ?pre @ take (64 - length p - length q) r"
  have len: "length ?pre = length p + length q" by (simp add: assms(1))
  have fits: "length p < 64" "length q \<le> 64 - length p"
    using len length_preamble_bytes(2) [of ty flags n] by auto
  have b: "block_after owner ?pre n p False = (new_block owner)\<lparr>bi_contents := p\<rparr>"
    using assms(2) by (simp add: block_after_def Let_def new_block_def len)
  have c': "p @ take (min (length buf) (64 - length p)) buf = c"
    using fits by (simp add: c_def assms(1,3) min_def)
  have longer: "1 < length c"
    using length_preamble_bytes(1) [of ty flags n] unfolding c_def by simp
  have d1: "sdnv_decode (drop 1 c) = (int (length (sdnv_bytes flags)), flags)"
    and d2: "sdnv_decode (drop (1 + length (sdnv_bytes flags)) c) = (int (length (sdnv_bytes (of_nat n))), of_nat n)"
    by (simp_all add: c_def preamble_bytes_def sdnv_decode_bytes)
  have n: "(of_nat n :: u64) \<le> 0xFFFFFFFF"
    using assms(5) by (simp add: word_le_nat_alt unat_of_nat)
  have ucast: "(ucast (of_nat n :: u64) :: u32) = of_nat n"
    using assms(5) by (simp add: word_unat_eq_iff unsigned_ucast_eq unat_of_nat take_bit_eq_mod)
  have plen: "1 + length (sdnv_bytes flags) + length (sdnv_bytes (of_nat n)) = length p + length q"
    using len by (simp add: preamble_bytes_def)
  have cut: "take (length p + length q) c = p @ q" unfolding c_def by (simp add: assms(1))
  have "consume_preamble d ((new_block owner)\<lparr>bi_contents := p\<rparr>) buf =
    Done (int (length p + length q) - int (length p),
      (new_block owner)\<lparr>bi_contents := p, bi_data_length := of_nat n, bi_data_offset := of_nat (length p + length q),
        bi_contents := p @ q\<rparr>)"
    using consume_preamble_decoded [of "(new_block owner)\<lparr>bi_contents := p\<rparr>" buf c
        "length (sdnv_bytes flags)" flags "length (sdnv_bytes (of_nat n))" "of_nat n" d]
      fits(1) c' longer d1 d2 assms(2,4) n unfolding plen ucast cut by (simp add: new_block_def)
  then show ?thesis
    unfolding b using assms(2) by (simp add: block_after_def Let_def len new_block_def assms(1))
qed

text \<open>One call of \<open>consume\<close>, at any point of a block and with any amount of data.\<close>

lemma bp_consume_step:
  assumes flags: "flags AND BLOCK_FLAG_EID_REFS = 0" and n: "length (preamble_bytes ty flags n) + n < 2 ^ 32"
    and data: "length dat = n" and str: "p @ buf @ r = preamble_bytes ty flags n @ dat @ tl'"
    and p: "length p < length (preamble_bytes ty flags n) + n"
  shows "bp_consume d (block_after owner (preamble_bytes ty flags n) n p False) buf =
    (let m = length (preamble_bytes ty flags n) + n - length p
     in Done (int (min (length buf) m),
          block_after owner (preamble_bytes ty flags n) n (p @ take m buf) (m \<le> length buf)))"
proof -
  let ?pre = "preamble_bytes ty flags n"
  have pre: "0 < length ?pre" "length ?pre < 64" using length_preamble_bytes [of ty flags n] by auto
  have inc: "\<not> bi_complete (block_after owner ?pre n p False)" by (simp add: block_after_def Let_def)
  have le: "(length ?pre + n - length p \<le> length buf) = (length ?pre + n \<le> length p + length buf)" for p
    by auto
  show ?thesis
  proof (cases "length p < length ?pre")
    case False
    have "bi_data_offset (block_after owner ?pre n p False) \<noteq> 0"
      using False pre(1) n u32_of_nat_zero [of "length ?pre"] by (simp add: block_after_def Let_def)
    then show ?thesis
      using inc consume_data_step [of ?pre n p owner buf 0] False pre n p
      by (simp add: bp_consume_def Let_def le)
  next
    case True
    have "take (length p) ?pre = p"
      using arg_cong [OF str, of "take (length p)"] True by simp
    then obtain q where q: "?pre = p @ q" "q \<noteq> []"
      using True by (metis append_take_drop_id drop_eq_Nil not_le)
    have off: "bi_data_offset (block_after owner ?pre n p False) = 0"
      using True by (simp add: block_after_def Let_def)
    show ?thesis
    proof (cases "length buf < length q")
      case True
      then obtain r' where "q = buf @ r'" "r' \<noteq> []"
        using str by (auto simp: q(1) append_eq_append_conv2)
      then have "consume_preamble d (block_after owner ?pre n p False) buf =
          Done (int (length buf), block_after owner ?pre n (p @ buf) False)"
        using consume_preamble_partial [of ty flags n p buf r' d owner] flags q by simp
      then show ?thesis
        using inc off True q by (simp add: bp_consume_def Let_def consume_data_def block_after_def)
    next
      case False
      then obtain r' where r': "buf = q @ r'"
        using str by (auto simp: q(1) append_eq_append_conv2)
      have "consume_preamble d (block_after owner ?pre n p False) buf =
          Done (int (length q), block_after owner ?pre n (p @ q) False)"
        using consume_preamble_whole [OF q(1,2) r' flags] n by simp
      then show ?thesis
        using inc off consume_data_step [of ?pre n "p @ q" owner r' "length q"] pre n
        by (simp add: bp_consume_def Let_def q(1) r')
    qed
  qed
qed


text \<open>The calls of \<open>consume\<close> with successive pieces of the input, until the block is complete.\<close>

fun consume_pieces :: "dictionary \<Rightarrow> block_info \<Rightarrow> byte list list \<Rightarrow> block_info outcome" where
  "consume_pieces d b [] = Done b"
| "consume_pieces d b (c # cs) =
     (if bi_complete b then Done b
      else bind_outcome (bp_consume d b c) (\<lambda>(n, b'). if n = -1 then Done b' else consume_pieces d b' cs))"

lemma new_block_after: "pre \<noteq> [] \<Longrightarrow> new_block owner = block_after owner pre n [] False"
  by (simp add: block_after_def Let_def new_block_def)

lemma consume_pieces_complete [simp]: "bi_complete b \<Longrightarrow> consume_pieces d b cs = Done b"
  by (cases cs) simp_all

lemma consume_pieces_from:
  assumes "flags AND BLOCK_FLAG_EID_REFS = 0" and "length (preamble_bytes ty flags n) + n < 2 ^ 32" and "length dat = n"
    and "p @ concat cs = preamble_bytes ty flags n @ dat" and "length p < length (preamble_bytes ty flags n) + n"
  shows "consume_pieces d (block_after owner (preamble_bytes ty flags n) n p False) cs =
    Done (block_after owner (preamble_bytes ty flags n) n (preamble_bytes ty flags n @ dat) True)"
  using assms(4,5)
proof (induction cs arbitrary: p)
  case Nil
  then have "p = preamble_bytes ty flags n @ dat" by simp
  then have "length p = length (preamble_bytes ty flags n) + n" using assms(3) by simp
  then show ?case using Nil.prems(2) by linarith
next
  case (Cons c cs)
  let ?pre = "preamble_bytes ty flags n"
  have all: "p @ c @ concat cs = ?pre @ dat @ []" using Cons.prems(1) by simp
  have len: "length p + length c + length (concat cs) = length ?pre + n"
    using arg_cong [OF all, of length] assms(3) by simp
  have inc: "\<not> bi_complete (block_after owner ?pre n p False)" "\<And>q. bi_complete (block_after owner ?pre n q True)"
    by (simp_all add: block_after_def Let_def)
  have step: "bp_consume d (block_after owner ?pre n p False) c =
      Done (int (length c), block_after owner ?pre n (p @ c) (length ?pre + n - length p \<le> length c))"
  proof -
    have "length c \<le> length ?pre + n - length p" using len by linarith
    then show ?thesis
      using bp_consume_step [OF assms(1,2,3) all Cons.prems(2)] by (simp add: Let_def)
  qed
  show ?case
  proof (cases "length ?pre + n - length p \<le> length c")
    case True
    then have "length (concat cs) = 0" using len by linarith
    then have "concat cs = []" by (simp only: length_0_conv)
    then have "p @ c = ?pre @ dat" using all by (simp only: append_Nil2)
    then show ?thesis using True by (simp add: step inc)
  next
    case False
    then have "length (p @ c) < length ?pre + n" by simp
    moreover have "(p @ c) @ concat cs = ?pre @ dat" using all by simp
    ultimately show ?thesis using Cons.IH False by (simp add: step inc)
  qed
qed

lemma init_block_eq:
  assumes "(ucast flags :: u64) AND BLOCK_FLAG_EID_REFS = 0" and "length bp < 2 ^ 32 - 21"
  shows "\<exists>b. init_block d (new_block owner) ty flags bp = Done (d, b) \<and>
    bi_contents b = preamble_bytes ty (ucast flags) (length bp) @ bp \<and>
    bi_data_offset b = of_nat (length (preamble_bytes ty (ucast flags) (length bp))) \<and>
    bi_data_length b = of_nat (length bp)"
proof -
  let ?pre = "preamble_bytes ty (ucast flags) (length bp)" and ?m = "length bp"
  define off where "off = length ?pre"
  have off: "0 < off" "off \<le> 21" using length_preamble_bytes [of ty "ucast flags" ?m]
    unfolding off_def by linarith+
  have sum: "PREAMBLE_FIXED_LENGTH + length (sdnv_bytes (ucast flags)) + 0 + length (sdnv_bytes (of_nat ?m)) = off"
    by (simp add: off_def preamble_bytes_def PREAMBLE_FIXED_LENGTH_def)
  have ucast: "(ucast (of_nat ?m :: u64) :: u32) = of_nat ?m"
    using assms(2) by (simp add: word_unat_eq_iff unsigned_ucast_eq unat_of_nat take_bit_eq_mod)
  define b where "b = (new_block owner)\<lparr>bi_contents := ?pre, bi_data_length := of_nat ?m, bi_data_offset := of_nat off\<rparr>"
  have gen: "generate_preamble d (new_block owner) ty (ucast flags) (of_nat ?m) = Done (d, b)"
  proof -
    have "of_nat (PREAMBLE_FIXED_LENGTH + length (sdnv_bytes (ucast flags)) + 0 + length (sdnv_bytes (of_nat ?m))) = (of_nat off :: u32)"
      by (simp only: sum)
    then show ?thesis
      using sum off by (simp add: generate_preamble_def sdnv_encoding_len_eq new_block_def Let_def ucast b_def preamble_bytes_def)
  qed
  have o: "unat (of_nat off :: u32) = off" using off(2) by (intro u32_of_nat) simp
  have fl: "unat (full_length b) = off + ?m"
    using off(2) assms(2) by (intro full_length_eq) (simp_all add: b_def full_length_def)
  have nz: "bi_data_offset b \<noteq> 0" using off u32_of_nat_zero [of off] by (simp add: b_def)
  have bo: "unat (bi_data_offset b) = off" "bi_contents b = ?pre" using o by (simp_all add: b_def)
  show ?thesis
    using nz fl bo by (auto simp: init_block_def gen reserve_def Let_def off_def b_def)
qed


section \<open>Properties\<close>

text \<open>
  C15. A block written by \<open>init_block\<close> (no EID references, a length that fits 32 bits) is
  read back by \<open>consume\<close> with the same contents, offset and length, however the bytes are
  cut into pieces: no assertion fails, also when a piece ends within an SDNV, and the block
  is complete exactly after its last byte.
\<close>

theorem block_pieces_roundtrip:
  assumes "(ucast flags :: u64) AND BLOCK_FLAG_EID_REFS = 0" and "length bp < 2 ^ 32 - 21"
  shows "\<exists>b. init_block d (new_block owner) ty flags bp = Done (d, b) \<and>
    drop (unat (bi_data_offset b)) (bi_contents b) = bp \<and> hd (bi_contents b) = ty \<and>
    (\<forall>pieces. concat pieces = bi_contents b \<longrightarrow>
       (\<exists>b'. consume_pieces d' (new_block owner') pieces = Done b' \<and> bi_contents b' = bi_contents b \<and>
          bi_data_offset b' = bi_data_offset b \<and> bi_data_length b' = bi_data_length b \<and>
          bi_owner b' = owner' \<and> bi_complete b'))"
proof -
  let ?pre = "preamble_bytes ty (ucast flags) (length bp)"
  have pre: "3 \<le> length ?pre" "length ?pre \<le> 21" by (rule length_preamble_bytes)+
  have ne: "?pre \<noteq> []" by (simp add: preamble_bytes_def)
  obtain b where b: "init_block d (new_block owner) ty flags bp = Done (d, b)" "bi_contents b = ?pre @ bp"
      "bi_data_offset b = of_nat (length ?pre)" "bi_data_length b = of_nat (length bp)"
    using init_block_eq [OF assms] by blast
  have o: "unat (of_nat (length ?pre) :: u32) = length ?pre" using pre(2) by (intro u32_of_nat) simp
  have "consume_pieces d' (new_block owner') pieces = Done (block_after owner' ?pre (length bp) (?pre @ bp) True)"
    if "concat pieces = ?pre @ bp" for pieces
    unfolding new_block_after [OF ne, of owner' "length bp"]
    by (rule consume_pieces_from) (use assms pre that in auto)
  then show ?thesis
    using b o by (auto simp: block_after_def Let_def preamble_bytes_def new_block_def)
qed

theorem block_pieces_roundtrip_witness:
  "\<exists>b. init_block empty_dictionary (new_block PayloadBP) 1 0x08 [10, 11, 12] = Done (empty_dictionary, b) \<and>
    (\<exists>b'. consume_pieces empty_dictionary (new_block PayloadBP) (map (\<lambda>x. [x]) (bi_contents b)) = Done b' \<and>
      bi_contents b' = bi_contents b \<and> bi_complete b')"
proof -
  have "(ucast (0x08 :: byte) :: u64) AND BLOCK_FLAG_EID_REFS = 0" by (simp add: BLOCK_FLAG_EID_REFS_def)
  then obtain b where b: "init_block empty_dictionary (new_block PayloadBP) 1 0x08 [10, 11, 12] = Done (empty_dictionary, b)"
    and all: "\<forall>pieces. concat pieces = bi_contents b \<longrightarrow>
       (\<exists>b'. consume_pieces empty_dictionary (new_block PayloadBP) pieces = Done b' \<and> bi_contents b' = bi_contents b
         \<and> bi_complete b')"
    using block_pieces_roundtrip [of 8 "[10, 11, 12]" empty_dictionary PayloadBP 1 empty_dictionary PayloadBP]
    by simp blast
  show ?thesis using b all [rule_format, of "map (\<lambda>x. [x]) (bi_contents b)"] by (auto simp: concat_map_singleton)
qed

text \<open>
  A peer can abort the daemon with a malformed SDNV: 64 continuation octets behind the
  type byte fill the buffer of the block without ending the number, \<open>consume\<close> takes the
  preamble for incomplete, and asserts that the whole input has been copied.
\<close>

theorem endless_sdnv_aborts:
  assumes "64 \<le> length bs" and "list_all (\<lambda>b. 128 \<le> unat b) bs"
  shows "bp_consume d (new_block owner) (ty # bs) = Panic"
proof -
  let ?c = "ty # take 63 bs"
  have len: "length ?c = 64" using assms(1) by simp
  have "\<forall>b \<in> set (take 63 bs). 128 \<le> unat b" using assms(2) by (auto simp: list_all_iff dest: in_set_takeD)
  then have und: "fst (sdnv_decode (drop 1 ?c)) = -1" by (simp add: sdnv_decode_unterminated)
  have c: "bi_contents (new_block owner) @ take (min (length (ty # bs)) (64 - length (bi_contents (new_block owner)))) (ty # bs) = ?c"
    using assms(1) by (simp add: new_block_def numeral_eq_Suc)
  have "consume_preamble d (new_block owner) (ty # bs) = Panic"
    using consume_preamble_undecoded [OF _ _ _ _ _ c, of d] und assms(1) by (simp add: new_block_def)
  then show ?thesis by (simp add: bp_consume_def new_block_def)
qed

theorem endless_sdnv_aborts_witness:
  "bp_consume empty_dictionary (new_block UnknownBP) (0x42 # replicate 64 0x80) = Panic"
  by (rule endless_sdnv_aborts) (simp_all add: list_all_iff)

text \<open>
  A peer can abort the daemon with a block length just below \<open>2 ^ 32\<close>: the 32-bit sum of
  data offset and data length wraps around, and the first byte of data fails the assertion
  that the block has room left.
\<close>

theorem block_length_wraps:
  assumes "flags AND BLOCK_FLAG_EID_REFS = 0" and "n < 2 ^ 32" and "2 ^ 32 \<le> length (preamble_bytes ty flags n) + n"
    and "rest \<noteq> []"
  shows "bp_consume d (new_block owner) (preamble_bytes ty flags n @ rest) = Panic"
proof -
  let ?pre = "preamble_bytes ty flags n"
  let ?b = "block_after owner ?pre n ?pre False"
  have pre: "3 \<le> length ?pre" "length ?pre \<le> 21" by (rule length_preamble_bytes)+
  have ne: "?pre \<noteq> []" by (simp add: preamble_bytes_def)
  have cp: "consume_preamble d (new_block owner) (?pre @ rest) = Done (int (length ?pre), ?b)"
    using consume_preamble_whole [of ty flags n "[]" ?pre "?pre @ rest" rest d owner] ne assms(1,2)
    by (simp add: new_block_after [OF ne, of owner n])
  have nz: "(of_nat n :: u32) \<noteq> 0" "(of_nat (length ?pre) :: u32) \<noteq> 0"
    using assms(2,3) pre u32_of_nat_zero [of n] u32_of_nat_zero [of "length ?pre"] by auto
  have "of_nat (length ?pre) + of_nat n = (of_nat (length ?pre + n - 2 ^ 32) :: u32)"
  proof -
    have "(of_nat (length ?pre + n) :: u32) = of_nat (length ?pre + n - 2 ^ 32 + 2 ^ 32)" using assms(3) by simp
    also have "\<dots> = of_nat (length ?pre + n - 2 ^ 32)" by (simp only: of_nat_add) simp
    finally show ?thesis by simp
  qed
  then have "unat (of_nat (length ?pre) + of_nat n :: u32) = length ?pre + n - 2 ^ 32"
    using u32_of_nat [of "length ?pre + n - 2 ^ 32"] assms(2) pre(2) by simp
  then have fl: "unat (full_length ?b) < length ?pre"
    using assms(2) pre by (simp add: full_length_def block_after_def Let_def)
  have "consume_data ?b rest (length ?pre) = Panic"
    using fl nz assms(4) by (simp add: consume_data_def block_after_def Let_def full_length_def)
  then show ?thesis using cp by (simp add: bp_consume_def new_block_def)
qed

theorem block_length_wraps_witness:
  "bp_consume empty_dictionary (new_block PayloadBP) (preamble_bytes 1 8 (2 ^ 32 - 1) @ [0]) = Panic"
proof (rule block_length_wraps)
  have "1 \<le> length (sdnv_bytes 8)" by (rule sdnv_bytes_length_bounds)
  then show "2 ^ 32 \<le> length (preamble_bytes 1 8 (2 ^ 32 - 1)) + (2 ^ 32 - 1 :: nat)"
    by (simp add: preamble_bytes_def)
qed (simp_all add: BLOCK_FLAG_EID_REFS_def)


lemma work_sdnv_grows:
  assumes "work_sdnv v (w, rest) = Done (w', rest')" and "10 \<le> length rest"
  shows "length w + 1 \<le> length w' \<and> length rest \<le> length rest' + 10"
  using assms sdnv_bytes_length_bounds [of v]
  by (auto simp: work_sdnv_def sdnv_encode_eq not_less)

lemma work_eids_grows:
  "work_eids es (d, w, rest) = Done (d', w', rest') \<Longrightarrow> 20 * length es \<le> length rest \<Longrightarrow> length w + 2 * length es \<le> length w'"
proof (induction es arbitrary: d w rest)
  case (Cons e es)
  obtain d1 fo so po w1 r1 w2 r2 where steps:
      "work_sdnv (of_nat so) (w, rest) = Done (w1, r1)" "work_sdnv (of_nat po) (w1, r1) = Done (w2, r2)"
      "work_eids es (d1, w2, r2) = Done (d', w', rest')"
    using Cons.prems(1) by (auto simp: bind_outcome_Done_iff)
  have "length w + 1 \<le> length w1 \<and> length rest \<le> length r1 + 10"
    using work_sdnv_grows [OF steps(1)] Cons.prems(2) by simp
  moreover from this have "length w1 + 1 \<le> length w2 \<and> length r1 \<le> length r2 + 10"
    using work_sdnv_grows [OF steps(2)] Cons.prems(2) by simp
  moreover from calculation have "length w2 + 2 * length es \<le> length w'"
    using Cons.IH [OF steps(3)] Cons.prems(2) by simp
  ultimately show ?case by simp
qed simp

text \<open>
  A block with 31 to 49 EID references cannot be sent: its preamble needs more than the
  64 bytes of a fresh buffer, which \<open>generate_preamble\<close> asserts instead of reserving room.
\<close>

theorem many_eids_abort:
  assumes "31 \<le> length eids" and "length eids \<le> 49"
  shows "generate_preamble d ((new_block owner)\<lparr>bi_eid_list := eids\<rparr>) ty flags n = Panic"
proof (rule ccontr)
  assume "generate_preamble d ((new_block owner)\<lparr>bi_eid_list := eids\<rparr>) ty flags n \<noteq> Panic"
  then obtain r where "generate_preamble d ((new_block owner)\<lparr>bi_eid_list := eids\<rparr>) ty flags n = Done r"
    by (cases "generate_preamble d ((new_block owner)\<lparr>bi_eid_list := eids\<rparr>) ty flags n") auto
  then obtain w1 r1 d' w2 r2 where steps:
      "work_sdnv (of_nat (length eids)) ([], replicate 1000 0) = Done (w1, r1)"
      "work_eids eids (d, w1, r1) = Done (d', w2, r2)"
    and fits: "1 + length (sdnv_bytes (flags OR BLOCK_FLAG_EID_REFS)) + length w2 + length (sdnv_bytes n) \<le> 64"
    using assms(1)
    by (auto simp: generate_preamble_def Let_def new_block_def bind_outcome_Done_iff sdnv_encoding_len_eq
        assert_that_def PREAMBLE_FIXED_LENGTH_def split: if_splits)
  have "1 \<le> length w1 \<and> 1000 \<le> length r1 + 10"
    using work_sdnv_grows [OF steps(1)] by simp
  moreover from this have "length w1 + 2 * length eids \<le> length w2"
    using work_eids_grows [OF steps(2)] assms(2) by simp
  ultimately show False
    using fits assms(1) sdnv_bytes_length_bounds(1) [of "flags OR BLOCK_FLAG_EID_REFS"] sdnv_bytes_length_bounds(1) [of n]
    by simp
qed

theorem many_eids_abort_witness:
  "generate_preamble empty_dictionary ((new_block UnknownBP)\<lparr>bi_eid_list := replicate 31 example_eid\<rparr>) 0x42 0 100 = Panic"
  by (rule many_eids_abort) simp_all

end
