(* ===== verification/Metadata_Block.thy ===== *)
theory Metadata_Block
  imports Block_Info
begin

text \<open>
  The metadata objects of a bundle (\<open>servlib/bundling/MetadataBlock.cc\<close>). An object is shared
  between the bundle and the blocks that refer to it, so that the objects of a bundle are the
  elements of a list and a reference is a position in it. A link is a number, \<open>None\<close> the
  null reference.
\<close>

type_synonym link_id = "nat option"

record outgoing_metadata =
  om_link :: link_id
  om_remove :: bool
  om_data :: "byte list"

record metadata_block =
  md_generated :: bool
  md_error :: bool
  md_source_id :: nat
  md_source :: bool
  md_flags :: u64
  md_ontology :: u64
  md_data :: "byte list"
  md_outgoing :: "outgoing_metadata list"

section \<open>Objects\<close>

text \<open>The three constructors: received, generated, and generated from another object.\<close>

definition received_metadata :: metadata_block where
  "received_metadata = \<lparr>md_generated = False, md_error = False, md_source_id = 0, md_source = False, md_flags = 0,
     md_ontology = 0, md_data = [], md_outgoing = []\<rparr>"

definition generated_metadata :: "u64 \<Rightarrow> byte list \<Rightarrow> metadata_block" where
  "generated_metadata ty buf = received_metadata\<lparr>md_generated := True, md_ontology := ty, md_data := buf\<rparr>"

definition derived_metadata :: "nat \<Rightarrow> u64 \<Rightarrow> byte list \<Rightarrow> metadata_block" where
  "derived_metadata source_id ty buf = (generated_metadata ty buf)\<lparr>md_source_id := source_id, md_source := True\<rparr>"

text \<open>The copy has neither the flags nor the outgoing modifications.\<close>

definition copied_metadata :: "metadata_block \<Rightarrow> metadata_block" where
  "copied_metadata m = m\<lparr>md_flags := 0, md_outgoing := []\<rparr>"

definition md_set_flags :: "u64 \<Rightarrow> metadata_block \<Rightarrow> metadata_block outcome" where
  "md_set_flags flags m = assert_that (md_generated m) (Done (m\<lparr>md_flags := flags\<rparr>))"

definition md_set_metadata :: "byte list \<Rightarrow> metadata_block \<Rightarrow> metadata_block outcome" where
  "md_set_metadata buf m = assert_that (\<not> md_generated m) (Done (m\<lparr>md_data := buf\<rparr>))"

definition find_outgoing_metadata :: "link_id \<Rightarrow> metadata_block \<Rightarrow> outgoing_metadata option" where
  "find_outgoing_metadata link m = find (\<lambda>o'. om_link o' = link) (md_outgoing m)"

definition has_outgoing_metadata :: "link_id \<Rightarrow> metadata_block \<Rightarrow> bool" where
  "has_outgoing_metadata link m \<longleftrightarrow> find_outgoing_metadata link m \<noteq> None"

definition remove_outgoing_metadata :: "link_id \<Rightarrow> metadata_block \<Rightarrow> bool \<times> metadata_block" where
  "remove_outgoing_metadata link m =
     (if has_outgoing_metadata link m then (False, m)
      else (True, m\<lparr>md_outgoing := md_outgoing m @ [\<lparr>om_link = link, om_remove = True, om_data = []\<rparr>]\<rparr>))"

definition modify_outgoing_metadata :: "link_id \<Rightarrow> byte list \<Rightarrow> metadata_block \<Rightarrow> bool \<times> metadata_block" where
  "modify_outgoing_metadata link buf m =
     (if has_outgoing_metadata link m then (False, m)
      else (True, m\<lparr>md_outgoing := md_outgoing m @ [\<lparr>om_link = link, om_remove = False, om_data = buf\<rparr>]\<rparr>))"

definition metadata_removed :: "link_id \<Rightarrow> metadata_block \<Rightarrow> bool" where
  "metadata_removed link m \<longleftrightarrow>
     (case find_outgoing_metadata link m of None \<Rightarrow> False | Some o' \<Rightarrow> om_remove o')"

definition metadata_modified :: "link_id \<Rightarrow> metadata_block \<Rightarrow> byte list option" where
  "metadata_modified link m =
     (case find_outgoing_metadata link m of
        None \<Rightarrow> None
      | Some o' \<Rightarrow> if om_remove o' then None else Some (om_data o'))"

fun remove_first_outgoing :: "link_id \<Rightarrow> outgoing_metadata list \<Rightarrow> outgoing_metadata list" where
  "remove_first_outgoing link [] = []"
| "remove_first_outgoing link (o' # os) = (if om_link o' = link then os else o' # remove_first_outgoing link os)"

definition delete_outgoing_metadata :: "link_id \<Rightarrow> metadata_block \<Rightarrow> metadata_block" where
  "delete_outgoing_metadata link m = m\<lparr>md_outgoing := remove_first_outgoing link (md_outgoing m)\<rparr>"

section \<open>Objects per link\<close>

type_synonym link_metadata_set = "(link_id \<times> nat list) list"

definition lms_find_blocks :: "link_id \<Rightarrow> link_metadata_set \<Rightarrow> nat list option" where
  "lms_find_blocks link s = map_of s link"

definition lms_create_blocks :: "link_id \<Rightarrow> link_metadata_set \<Rightarrow> link_metadata_set outcome" where
  "lms_create_blocks link s = assert_that (lms_find_blocks link s = None) (Done (s @ [(link, [])]))"

fun lms_delete_blocks :: "link_id \<Rightarrow> link_metadata_set \<Rightarrow> link_metadata_set" where
  "lms_delete_blocks link [] = []"
| "lms_delete_blocks link (e # es) = (if fst e = link then es else e # lms_delete_blocks link es)"

section \<open>The contents of a metadata block\<close>

text \<open>
  The part of \<open>parse_metadata\<close> behind the creation of the object: the ontology, a length that
  must be what is left of the block, and the data. A failure only marks the object.
\<close>

definition parse_metadata_data :: "byte list \<Rightarrow> metadata_block \<Rightarrow> metadata_block outcome" where
  "parse_metadata_data buf m =
     (case sdnv_decode buf of (ontology_len, ontology) \<Rightarrow>
        if ontology_len < 0 then Done (m\<lparr>md_error := True\<rparr>)
        else let buf1 = drop (nat ontology_len) buf; m1 = m\<lparr>md_ontology := ontology\<rparr>
             in case sdnv_decode buf1 of (length_len, len) \<Rightarrow>
                  if length_len < 0 then Done (m1\<lparr>md_error := True\<rparr>)
                  else let buf2 = drop (nat length_len) buf1
                       in if length buf2 \<noteq> unat len then Done (m1\<lparr>md_error := True\<rparr>)
                          else md_set_metadata buf2 m1)"

text \<open>
  The end of \<open>generate\<close>, for metadata that is written anew behind a preamble: the room for the
  data is reserved and made part of the contents, the two SDNVs are written, and then the
  code asserts that the buffer has, beyond its contents, room for the data.
\<close>

definition generate_metadata_data :: "u64 \<Rightarrow> byte list \<Rightarrow> block_info \<Rightarrow> block_info outcome" where
  "generate_metadata_data ontology buf block =
     bind_outcome (sdnv_encoding_len ontology) (\<lambda>ol.
     bind_outcome (sdnv_encoding_len (of_nat (length buf))) (\<lambda>ll.
       (let block_data_len = ol + ll + length buf; data_offset = unat (bi_data_offset block);
            b1 = reserve (data_offset + block_data_len) block
        in bind_outcome (sdnv_encode ontology (replicate block_data_len 0)) (\<lambda>(n, w).
           bind_outcome (sdnv_encode (of_nat (length buf)) (drop (nat n) w)) (\<lambda>(m, w').
             assert_that (bi_buf_len b1 - (data_offset + block_data_len) \<ge> length buf)
              (Done (b1\<lparr>bi_contents := take data_offset (bi_contents block) @ take (nat n) w @ take (nat m) w' @ buf\<rparr>)))))))"

section \<open>Objects and their modifications\<close>

lemma remove_outgoing_removed:
  "\<not> has_outgoing_metadata link m \<Longrightarrow> metadata_removed link (snd (remove_outgoing_metadata link m))"
  by (simp add: has_outgoing_metadata_def remove_outgoing_metadata_def metadata_removed_def find_outgoing_metadata_def
      find_None_iff split: option.splits)
    (auto simp: find_None_iff find_Some_iff nth_append split: if_splits)

lemma generate_metadata_eq:
  assumes "unat (bi_data_offset block) = length (bi_contents block)" and "length buf < 2 ^ 64"
  shows "generate_metadata_data ontology buf block =
    (let image = bi_contents block @ sdnv_bytes ontology @ sdnv_bytes (of_nat (length buf)) @ buf
     in assert_that (length image + length buf \<le> max (bi_buf_len block) (length image))
          (Done ((reserve (length image) block)\<lparr>bi_contents := image\<rparr>)))"
proof -
  let ?o = "sdnv_bytes ontology" and ?l = "sdnv_bytes (of_nat (length buf))"
  have pos: "0 < length ?o" using sdnv_bytes_length_bounds(1) [of ontology] by linarith
  have res: "bi_buf_len (reserve n block) = max (bi_buf_len block) n" if "0 < n" for n
    using that by (auto simp: reserve_def max_def)
  define n where "n = length (bi_contents block) + (length ?o + length ?l + length buf)"
  have n: "length (bi_contents block @ ?o @ ?l @ buf) = n" "0 < n" using pos by (simp_all add: n_def)
  have "(max (bi_buf_len block) n - n \<ge> length buf) = (n + length buf \<le> max (bi_buf_len block) n)" by auto
  then show ?thesis
    unfolding generate_metadata_data_def sdnv_encoding_len_eq bind_outcome.simps Let_def assms(1) n_def [symmetric] n(1) res [OF n(2)]
    by (simp add: sdnv_encode_eq)
qed

section \<open>Properties\<close>

text \<open>
  C17. Metadata that has been generated is parsed back, with its ontology and its data and no
  error, from the part of the block behind the preamble.
\<close>

theorem metadata_roundtrip:
  assumes "unat (bi_data_offset block) = length (bi_contents block)" and "length buf < 2 ^ 64"
    and "generate_metadata_data ontology buf block = Done b"
  shows "parse_metadata_data (drop (unat (bi_data_offset block)) (bi_contents b)) received_metadata =
    Done (received_metadata\<lparr>md_ontology := ontology, md_data := buf\<rparr>)"
proof -
  have "bi_contents b = bi_contents block @ sdnv_bytes ontology @ sdnv_bytes (of_nat (length buf)) @ buf"
    using assms(3) unfolding generate_metadata_eq [OF assms(1,2)] by (auto simp: Let_def assert_that_def split: if_splits)
  then show ?thesis
    using assms(1,2) by (simp add: parse_metadata_data_def sdnv_decode_bytes u64_of_nat md_set_metadata_def
        received_metadata_def)
qed

theorem metadata_roundtrip_witness:
  "\<exists>b. generate_metadata_data 7 [1, 2, 3] ((new_block MetadataBP)\<lparr>bi_contents := [8, 0, 5], bi_data_offset := 3\<rparr>) = Done b \<and>
    parse_metadata_data (drop 3 (bi_contents b)) received_metadata = Done (received_metadata\<lparr>md_ontology := 7, md_data := [1, 2, 3]\<rparr>)"
proof -
  let ?block = "(new_block MetadataBP)\<lparr>bi_contents := [8, 0, 5], bi_data_offset := 3\<rparr>"
  have pre: "unat (bi_data_offset ?block) = length (bi_contents ?block)" by simp
  have "length (sdnv_bytes 7) \<le> 10" "length (sdnv_bytes (of_nat 3)) \<le> 10" by (rule sdnv_bytes_length_bounds)+
  then have "\<exists>b. generate_metadata_data 7 [1, 2, 3] ?block = Done b"
    using generate_metadata_eq [OF pre, of "[1, 2, 3]" 7] by (simp add: Let_def new_block_def)
  then obtain b where b: "generate_metadata_data 7 [1, 2, 3] ?block = Done b" ..
  then show ?thesis using metadata_roundtrip [OF pre _ b] by auto
qed

text \<open>
  Metadata of 30 bytes or more cannot be sent: the assertion on the free room of the buffer
  is checked after the room has been made part of the contents, so that it fails unless the
  initial buffer of 64 bytes has room for the data twice.
\<close>

theorem large_metadata_aborts:
  assumes "unat (bi_data_offset block) = length (bi_contents block)" and "bi_buf_len block = 64"
    and "3 \<le> length (bi_contents block)" and "30 \<le> length buf" and "length buf < 2 ^ 64"
  shows "generate_metadata_data ontology buf block = Panic"
proof -
  have "1 \<le> length (sdnv_bytes ontology)" "1 \<le> length (sdnv_bytes (of_nat (length buf)))"
    by (rule sdnv_bytes_length_bounds)+
  then have "\<not> length (bi_contents block @ sdnv_bytes ontology @ sdnv_bytes (of_nat (length buf)) @ buf) + length buf
      \<le> max 64 (length (bi_contents block @ sdnv_bytes ontology @ sdnv_bytes (of_nat (length buf)) @ buf))"
    using assms(3,4) by (auto simp: max_def)
  then show ?thesis
    unfolding generate_metadata_eq [OF assms(1,5)] Let_def assms(2) by simp
qed

theorem large_metadata_aborts_witness:
  "generate_metadata_data 1 (replicate 30 0) ((new_block MetadataBP)\<lparr>bi_contents := [8, 0, 32], bi_data_offset := 3\<rparr>) = Panic"
  by (rule large_metadata_aborts) (simp_all add: new_block_def)

end
