(* ===== verification/Bundle_Payload.thy ===== *)
theory Bundle_Payload
  imports Dtn_Prelude
begin

text \<open>
  The payload of a bundle (\<open>servlib/bundling/BundlePayload.cc\<close>): bytes in memory or in a file
  whose descriptor keeps a position. \<open>pl_store\<close> is what has been written to the buffer or the
  file, \<open>pl_cur_offset\<close> the member \<open>cur_offset_\<close>, the position the code believes the
  descriptor has, and \<open>pl_file_pos\<close> the position it really has, which \<open>lseek\<close>, reading and
  writing move. A write behind the end of a file fills the gap with zeros. Failing system
  calls, hard links and the cache of open descriptors are not modelled.
\<close>

section \<open>Model\<close>

datatype location = MEMORY | DISK | NODATA

record payload =
  pl_location :: location
  pl_store :: "byte list"
  pl_length :: nat
  pl_cur_offset :: nat
  pl_file_pos :: nat

text \<open>
  The constructor and \<open>init\<close>; \<open>old\<close> is the contents of a file that is already there, which is
  opened without being truncated.
\<close>

definition payload_init :: "bool \<Rightarrow> location \<Rightarrow> byte list \<Rightarrow> payload" where
  "payload_init no_payload_files loc old =
     (let loc' = (if loc = DISK \<and> no_payload_files then MEMORY else loc)
      in \<lparr>pl_location = loc', pl_store = (if loc' = DISK then old else []), pl_length = 0,
          pl_cur_offset = 0, pl_file_pos = 0\<rparr>)"

definition pl_set_length :: "nat \<Rightarrow> payload \<Rightarrow> payload" where
  "pl_set_length len p = p\<lparr>pl_length := len\<rparr>"

text \<open>\<open>pin_file\<close>, when the descriptor is no longer in the cache: the file is opened again.\<close>

definition pin_reopen :: "payload \<Rightarrow> payload" where
  "pin_reopen p = (if pl_location p \<noteq> DISK then p else p\<lparr>pl_cur_offset := 0, pl_file_pos := 0\<rparr>)"

definition overwrite :: "nat \<Rightarrow> byte list \<Rightarrow> byte list \<Rightarrow> byte list" where
  "overwrite off bs st = take off (st @ replicate (off - length st) 0) @ bs @ drop (off + length bs) st"

definition pl_truncate :: "nat \<Rightarrow> payload \<Rightarrow> payload outcome" where
  "pl_truncate len p =
     assert_that (len \<le> pl_length p)
      (let p1 = p\<lparr>pl_length := len, pl_cur_offset := len\<rparr>
       in case pl_location p of
            MEMORY \<Rightarrow> Done p1
          | DISK \<Rightarrow> Done (p1\<lparr>pl_store := take len (pl_store p @ replicate (len - length (pl_store p)) 0)\<rparr>)
          | NODATA \<Rightarrow> Panic)"

definition internal_write :: "byte list \<Rightarrow> nat \<Rightarrow> payload \<Rightarrow> payload outcome" where
  "internal_write bp off p =
     assert_that (pl_length p \<ge> off + length bp)
      (case pl_location p of
         MEMORY \<Rightarrow> Done (p\<lparr>pl_store := overwrite off bp (pl_store p)\<rparr>)
       | DISK \<Rightarrow>
           (let p1 = (if pl_cur_offset p \<noteq> off then p\<lparr>pl_file_pos := off, pl_cur_offset := off\<rparr> else p)
            in Done (p1\<lparr>pl_store := overwrite (pl_file_pos p1) bp (pl_store p1),
                        pl_file_pos := pl_file_pos p1 + length bp,
                        pl_cur_offset := pl_cur_offset p1 + length bp\<rparr>))
       | NODATA \<Rightarrow> Panic)"

definition write_data :: "byte list \<Rightarrow> nat \<Rightarrow> payload \<Rightarrow> payload outcome" where
  "write_data bp off p = assert_that (pl_length p \<ge> length bp + off) (internal_write bp off p)"

definition set_data :: "byte list \<Rightarrow> payload \<Rightarrow> payload outcome" where
  "set_data bp p = write_data bp 0 (pl_set_length (length bp) p)"

definition append_data :: "byte list \<Rightarrow> payload \<Rightarrow> payload outcome" where
  "append_data bp p = internal_write bp (pl_length p) (pl_set_length (pl_length p + length bp) p)"

text \<open>\<open>read_data\<close> returns the bytes it puts into the buffer; at the end of a file these are fewer.\<close>

definition read_data :: "nat \<Rightarrow> nat \<Rightarrow> payload \<Rightarrow> (byte list \<times> payload) outcome" where
  "read_data off len p =
     assert_that (pl_length p \<ge> off + len)
      (case pl_location p of
         MEMORY \<Rightarrow> Done (take len (drop off (pl_store p)), p)
       | DISK \<Rightarrow>
           (let pos = (if off \<noteq> pl_cur_offset p then off else pl_file_pos p);
                bs = take len (drop pos (pl_store p))
            in Done (bs, p\<lparr>pl_cur_offset := off + len, pl_file_pos := pos + length bs\<rparr>))
       | NODATA \<Rightarrow> Panic)"

definition write_data_from :: "payload \<Rightarrow> nat \<Rightarrow> nat \<Rightarrow> nat \<Rightarrow> payload \<Rightarrow> (payload \<times> payload) outcome" where
  "write_data_from src src_offset len dst_offset p =
     assert_that (pl_length p \<ge> dst_offset + len) (assert_that (pl_length src \<ge> src_offset + len)
      (bind_outcome (read_data src_offset len src)
        (\<lambda>(bs, src'). bind_outcome (internal_write bs dst_offset p) (\<lambda>p'. Done (src', p')))))"

section \<open>Byte stores\<close>

text \<open>What the users of a payload rely on: bytes can be put at the end and read back.\<close>

locale byte_store =
  fixes ok :: "'s \<Rightarrow> bool"
    and bytes :: "'s \<Rightarrow> byte list"
    and put :: "byte list \<Rightarrow> 's \<Rightarrow> 's outcome"
    and get :: "nat \<Rightarrow> nat \<Rightarrow> 's \<Rightarrow> (byte list \<times> 's) outcome"
  assumes put_bytes: "ok s \<Longrightarrow> \<exists>s'. put bs s = Done s' \<and> ok s' \<and> bytes s' = bytes s @ bs"
    and get_bytes: "ok s \<Longrightarrow> off + len \<le> length (bytes s) \<Longrightarrow>
      \<exists>s'. get off len s = Done (take len (drop off (bytes s)), s') \<and> ok s' \<and> bytes s' = bytes s"
begin

text \<open>Data that arrives in pieces is stored as a whole.\<close>

lemma put_pieces:
  "ok s \<Longrightarrow> \<exists>s'. fold_outcome put pieces s = Done s' \<and> ok s' \<and> bytes s' = bytes s @ concat pieces"
proof (induction pieces arbitrary: s)
  case (Cons bs pieces)
  obtain s1 where s1: "put bs s = Done s1" "ok s1" "bytes s1 = bytes s @ bs"
    using put_bytes [OF Cons.prems] by blast
  then show ?case using Cons.IH [OF s1(2)] by auto
qed simp

lemma put_get:
  assumes "ok s"
  shows "\<exists>s' s''. put bs s = Done s' \<and> get (length (bytes s)) (length bs) s' = Done (bs, s'') \<and> ok s''"
proof -
  obtain s1 where s1: "put bs s = Done s1" "ok s1" "bytes s1 = bytes s @ bs"
    using put_bytes [OF assms] by blast
  then show ?thesis using get_bytes [OF s1(2), of "length (bytes s)" "length bs"] by auto
qed

end

text \<open>
  The condition under which a payload is a byte store: all its bytes have been written, and
  the code is right about the position of the descriptor.
\<close>

definition payload_ok :: "payload \<Rightarrow> bool" where
  "payload_ok p \<longleftrightarrow> pl_location p \<noteq> NODATA \<and> pl_length p \<le> length (pl_store p) \<and>
     (pl_location p = DISK \<longrightarrow> pl_cur_offset p = pl_file_pos p)"

definition pl_bytes :: "payload \<Rightarrow> byte list" where
  "pl_bytes p = take (pl_length p) (pl_store p)"

lemma length_pl_bytes: "payload_ok p \<Longrightarrow> length (pl_bytes p) = pl_length p"
  by (simp add: payload_ok_def pl_bytes_def)

lemma payload_init_ok: "loc \<noteq> NODATA \<Longrightarrow> payload_ok (payload_init npf loc old) \<and> pl_bytes (payload_init npf loc old) = []"
  by (simp add: payload_init_def payload_ok_def pl_bytes_def Let_def)

lemma length_overwrite: "length (overwrite off bs st) = max (length st) (off + length bs)"
  by (auto simp: overwrite_def)

lemma take_overwrite: "off \<le> length st \<Longrightarrow> take (off + length bs) (overwrite off bs st) = take off st @ bs"
  by (simp add: overwrite_def)

text \<open>A write within the length, on a payload whose bytes up to the offset are there.\<close>

lemma internal_write_ok:
  assumes "pl_location p \<noteq> NODATA" and "pl_location p = DISK \<longrightarrow> pl_cur_offset p = pl_file_pos p"
    and "off + length bs \<le> pl_length p"
  shows "\<exists>p'. internal_write bs off p = Done p' \<and> pl_location p' = pl_location p \<and> pl_length p' = pl_length p \<and>
    pl_store p' = overwrite off bs (pl_store p) \<and> (pl_location p' = DISK \<longrightarrow> pl_cur_offset p' = pl_file_pos p')"
  using assms by (cases "pl_location p") (auto simp: internal_write_def Let_def)

lemma append_data_ok:
  assumes "payload_ok p"
  shows "\<exists>p'. append_data bs p = Done p' \<and> payload_ok p' \<and> pl_bytes p' = pl_bytes p @ bs \<and> pl_location p' = pl_location p"
proof -
  let ?q = "pl_set_length (pl_length p + length bs) p"
  have "pl_location ?q \<noteq> NODATA" "pl_location ?q = DISK \<longrightarrow> pl_cur_offset ?q = pl_file_pos ?q"
      "pl_length p + length bs \<le> pl_length ?q"
    using assms by (simp_all add: payload_ok_def pl_set_length_def)
  then obtain p' where "internal_write bs (pl_length p) ?q = Done p'" "pl_location p' = pl_location ?q"
      "pl_length p' = pl_length ?q" "pl_store p' = overwrite (pl_length p) bs (pl_store ?q)"
      "pl_location p' = DISK \<longrightarrow> pl_cur_offset p' = pl_file_pos p'"
    using internal_write_ok [of ?q "pl_length p" bs] by blast
  then show ?thesis
    using assms
    by (auto simp: append_data_def payload_ok_def pl_bytes_def pl_set_length_def length_overwrite take_overwrite)
qed

lemma read_data_ok:
  assumes "payload_ok p" and "off + len \<le> length (pl_bytes p)"
  shows "\<exists>p'. read_data off len p = Done (take len (drop off (pl_bytes p)), p') \<and> payload_ok p' \<and>
    pl_bytes p' = pl_bytes p \<and> pl_location p' = pl_location p"
proof -
  have len: "off + len \<le> pl_length p" "off + len \<le> length (pl_store p)"
    using assms by (auto simp: length_pl_bytes payload_ok_def)
  have "take len (drop off (pl_bytes p)) = take len (drop off (pl_store p))"
    using len by (simp add: pl_bytes_def drop_take)
  then show ?thesis
    using assms(1) len by (cases "pl_location p") (auto simp: read_data_def Let_def payload_ok_def pl_bytes_def)
qed

interpretation pl: byte_store payload_ok pl_bytes append_data read_data
  by unfold_locales (use append_data_ok read_data_ok in blast)+

lemma pin_reopen_ok: "payload_ok p \<Longrightarrow> payload_ok (pin_reopen p) \<and> pl_bytes (pin_reopen p) = pl_bytes p"
  by (simp add: payload_ok_def pin_reopen_def pl_bytes_def)

text \<open>A payload that can be written to; some of its bytes may be missing.\<close>

definition writable :: "payload \<Rightarrow> bool" where
  "writable p \<longleftrightarrow> pl_location p \<noteq> NODATA \<and> (pl_location p = DISK \<longrightarrow> pl_cur_offset p = pl_file_pos p)"

lemma set_data_ok:
  assumes "pl_location p \<noteq> NODATA" and "pl_location p = DISK \<longrightarrow> pl_cur_offset p = pl_file_pos p"
  shows "\<exists>p'. set_data bs p = Done p' \<and> payload_ok p' \<and> pl_bytes p' = bs"
proof -
  let ?q = "pl_set_length (length bs) p"
  have "pl_location ?q \<noteq> NODATA" "pl_location ?q = DISK \<longrightarrow> pl_cur_offset ?q = pl_file_pos ?q"
      "0 + length bs \<le> pl_length ?q"
    using assms by (simp_all add: pl_set_length_def)
  then obtain p' where "internal_write bs 0 ?q = Done p'" "pl_location p' = pl_location ?q"
      "pl_length p' = pl_length ?q" "pl_store p' = overwrite 0 bs (pl_store ?q)"
      "pl_location p' = DISK \<longrightarrow> pl_cur_offset p' = pl_file_pos p'"
    using internal_write_ok [of ?q 0 bs] by blast
  then show ?thesis
    using assms by (auto simp: set_data_def write_data_def payload_ok_def pl_bytes_def pl_set_length_def overwrite_def)
qed

section \<open>Properties\<close>

text \<open>
  Truncating a payload on disk sets \<open>cur_offset_\<close> to the new length, but does not move the
  file descriptor. Data appended afterwards is written at the old position: the payload has
  zeros where the data should be.
\<close>

theorem truncate_misplaces_data:
  assumes "payload_ok p" and "pl_location p = DISK" and "pl_file_pos p = pl_length p" and "pl_store p = pl_bytes p"
    and "len < pl_length p"
  shows "\<exists>p1 p2. pl_truncate len p = Done p1 \<and> append_data bs p1 = Done p2 \<and>
    pl_bytes p2 = take len (pl_bytes p) @ take (length bs) (replicate (pl_length p - len) 0 @ bs)"
proof -
  have store: "length (pl_store p) = pl_length p" using assms(1,4) by (simp add: length_pl_bytes)
  define p1 where "p1 = p\<lparr>pl_length := len, pl_cur_offset := len, pl_store := take len (pl_store p)\<rparr>"
  have p1: "pl_truncate len p = Done p1"
    using assms(2,5) store by (simp add: pl_truncate_def Let_def p1_def)
  let ?st = "overwrite (pl_length p) bs (take len (pl_store p))"
  have "append_data bs p1 = Done (p1\<lparr>pl_length := len + length bs, pl_store := ?st,
      pl_file_pos := pl_length p + length bs, pl_cur_offset := len + length bs\<rparr>)"
    using assms(2,3) by (simp add: append_data_def pl_set_length_def internal_write_def Let_def p1_def)
  moreover have "take (len + length bs) ?st = take len (pl_bytes p) @ take (length bs) (replicate (pl_length p - len) 0 @ bs)"
    using assms(5) store by (simp add: overwrite_def assms(4))
  ultimately show ?thesis using p1 by (simp add: pl_bytes_def)
qed

theorem truncate_misplaces_data_witness:
  "\<exists>p0 p1 p2. set_data [1, 2, 3, 4] (payload_init False DISK []) = Done p0 \<and> pl_truncate 2 p0 = Done p1 \<and>
    append_data [9] p1 = Done p2 \<and> pl_bytes p2 = [1, 2, 0]"
proof -
  define p0 where "p0 = \<lparr>pl_location = DISK, pl_store = [1, 2, 3, 4], pl_length = 4, pl_cur_offset = 4, pl_file_pos = 4\<rparr>"
  have p0: "set_data [1, 2, 3, 4] (payload_init False DISK []) = Done p0"
    by (simp add: set_data_def payload_init_def write_data_def internal_write_def pl_set_length_def overwrite_def p0_def)
  have "payload_ok p0" "pl_location p0 = DISK" "pl_file_pos p0 = pl_length p0" "pl_store p0 = pl_bytes p0" "2 < pl_length p0"
    by (simp_all add: p0_def payload_ok_def pl_bytes_def)
  from truncate_misplaces_data [OF this, of "[9]"] show ?thesis
    using p0 by (auto simp: p0_def pl_bytes_def numeral_eq_Suc)
qed

end
