(* ===== verification/Dtn_Bundle.thy ===== *)
theory Dtn_Bundle
  imports Sequence_Id Metadata_Block Bundle_Payload "HOL-Library.List_Lexorder" "HOL-Library.Char_ord"
    "HOL-Library.Product_Lexorder"
begin

text \<open>
  The bundle (\<open>servlib/bundling/Bundle.cc\<close>), its creation timestamp and its identity
  (\<open>BundleTimestamp.h\<close>, \<open>GbofId.cc\<close>). The record has the members of the class that the modelled
  components use; the lock, the mappings to bundle lists, the timers and the forwarding log are
  left out, and \<open>b_metadata\<close> holds the metadata objects that the other members and the blocks
  refer to. The clock and the identifier of a new bundle are arguments.
\<close>

section \<open>Timestamps\<close>

datatype bundle_timestamp = BundleTimestamp (ts_seconds: u64) (ts_seqno: u64)

definition TIMEVAL_CONVERSION :: nat where
  "TIMEVAL_CONVERSION = 946684800"

text \<open>\<open>get_current_time\<close>, from the seconds of the clock.\<close>

definition get_current_time :: "nat \<Rightarrow> u32 outcome" where
  "get_current_time tv_sec =
     assert_that (unat (of_nat tv_sec :: u32) \<ge> TIMEVAL_CONVERSION) (Done (of_nat (tv_sec - TIMEVAL_CONVERSION)))"

definition check_local_clock :: "nat \<Rightarrow> bool" where
  "check_local_clock tv_sec \<longleftrightarrow> \<not> unat (of_nat tv_sec :: u32) < TIMEVAL_CONVERSION"

definition ts_equals :: "bundle_timestamp \<Rightarrow> bundle_timestamp \<Rightarrow> bool" where
  "ts_equals a b \<longleftrightarrow> ts_seconds a = ts_seconds b \<and> ts_seqno a = ts_seqno b"

definition ts_less :: "bundle_timestamp \<Rightarrow> bundle_timestamp \<Rightarrow> bool" where
  "ts_less a b \<longleftrightarrow>
     (if ts_seconds a < ts_seconds b then True
      else if ts_seconds a > ts_seconds b then False
      else ts_seqno a < ts_seqno b)"

definition ts_greater :: "bundle_timestamp \<Rightarrow> bundle_timestamp \<Rightarrow> bool" where
  "ts_greater a b \<longleftrightarrow>
     (if ts_seconds a > ts_seconds b then True
      else if ts_seconds a < ts_seconds b then False
      else ts_seqno a > ts_seqno b)"

text \<open>The operator is a strict linear order; timestamps are an instance of the class.\<close>

instantiation bundle_timestamp :: linorder
begin

definition less_bundle_timestamp :: "bundle_timestamp \<Rightarrow> bundle_timestamp \<Rightarrow> bool" where
  "less_bundle_timestamp = ts_less"

definition less_eq_bundle_timestamp :: "bundle_timestamp \<Rightarrow> bundle_timestamp \<Rightarrow> bool" where
  "less_eq_bundle_timestamp a b \<longleftrightarrow> ts_less a b \<or> a = b"

instance
proof
  fix a b c :: bundle_timestamp
  show "a < b \<longleftrightarrow> a \<le> b \<and> \<not> b \<le> a"
    by (cases a; cases b) (auto simp: less_bundle_timestamp_def less_eq_bundle_timestamp_def ts_less_def)
  show "a \<le> a" by (simp add: less_eq_bundle_timestamp_def)
  show "a \<le> b \<or> b \<le> a"
    by (cases a; cases b) (auto simp: less_eq_bundle_timestamp_def ts_less_def)
  show "a \<le> b \<Longrightarrow> b \<le> c \<Longrightarrow> a \<le> c"
    by (cases a; cases b; cases c) (auto simp: less_eq_bundle_timestamp_def ts_less_def split: if_splits)
  show "a \<le> b \<Longrightarrow> b \<le> a \<Longrightarrow> a = b"
    by (cases a; cases b) (auto simp: less_eq_bundle_timestamp_def ts_less_def split: if_splits)
qed

end

lemma ts_equals_iff [simp]: "ts_equals a b \<longleftrightarrow> a = b"
  by (cases a; cases b) (simp add: ts_equals_def)

lemma ts_less_iff [simp]: "ts_less a b \<longleftrightarrow> a < b"
  by (simp add: less_bundle_timestamp_def)

lemma ts_greater_iff [simp]: "ts_greater a b \<longleftrightarrow> b < a"
  by (simp add: less_bundle_timestamp_def ts_less_def ts_greater_def del: ts_less_iff)

section \<open>Global bundle or fragment identifiers\<close>

record gbof_id =
  gb_source :: endpoint_id
  gb_creation_ts :: bundle_timestamp
  gb_is_fragment :: bool
  gb_frag_length :: u32
  gb_frag_offset :: u32

definition gbof_equals :: "gbof_id \<Rightarrow> gbof_id \<Rightarrow> bool" where
  "gbof_equals a b \<longleftrightarrow>
     ts_seconds (gb_creation_ts a) = ts_seconds (gb_creation_ts b) \<and>
     ts_seqno (gb_creation_ts a) = ts_seqno (gb_creation_ts b) \<and>
     gb_is_fragment a = gb_is_fragment b \<and>
     (\<not> gb_is_fragment a \<or> (gb_frag_length a = gb_frag_length b \<and> gb_frag_offset a = gb_frag_offset b)) \<and>
     eid_equals (gb_source a) (gb_source b)"

text \<open>\<open>operator<\<close>; endpoint identifiers are ordered by their text.\<close>

definition eid_less :: "endpoint_id \<Rightarrow> endpoint_id \<Rightarrow> bool" where
  "eid_less a b \<longleftrightarrow> eid_str a < eid_str b"

definition gbof_less :: "gbof_id \<Rightarrow> gbof_id \<Rightarrow> bool" where
  "gbof_less a b \<longleftrightarrow>
     (if eid_less (gb_source a) (gb_source b) then True
      else if eid_less (gb_source b) (gb_source a) then False
      else if ts_less (gb_creation_ts a) (gb_creation_ts b) then True
      else if ts_greater (gb_creation_ts a) (gb_creation_ts b) then False
      else if gb_is_fragment a \<and> \<not> gb_is_fragment b then True
      else if \<not> gb_is_fragment a \<and> gb_is_fragment b then False
      else if gb_is_fragment a then
        (if gb_frag_length a < gb_frag_length b then True
         else if gb_frag_length b < gb_frag_length a then False
         else if gb_frag_offset a < gb_frag_offset b then True
         else if gb_frag_offset b < gb_frag_offset a then False
         else False)
      else False)"

section \<open>Bundles\<close>

datatype priority_values = COS_INVALID | COS_BULK | COS_NORMAL | COS_EXPEDITED | COS_RESERVED

fun priority_value :: "priority_values \<Rightarrow> int" where
  "priority_value COS_INVALID = -1"
| "priority_value COS_BULK = 0"
| "priority_value COS_NORMAL = 1"
| "priority_value COS_EXPEDITED = 2"
| "priority_value COS_RESERVED = 3"

record dtn_bundle =
  b_source :: endpoint_id
  b_dest :: endpoint_id
  b_custodian :: endpoint_id
  b_replyto :: endpoint_id
  b_prevhop :: endpoint_id
  b_is_fragment :: bool
  b_is_admin :: bool
  b_do_not_fragment :: bool
  b_custody_requested :: bool
  b_singleton_dest :: bool
  b_priority :: byte
  b_receive_rcpt :: bool
  b_custody_rcpt :: bool
  b_forward_rcpt :: bool
  b_delivery_rcpt :: bool
  b_deletion_rcpt :: bool
  b_app_acked_rcpt :: bool
  b_creation_ts :: bundle_timestamp
  b_expiration :: u64
  b_frag_offset :: u32
  b_orig_length :: u32
  b_sequence_id :: sequence_id
  b_obsoletes_id :: sequence_id
  b_session_eid :: endpoint_id
  b_session_flags :: byte
  b_payload :: payload
  b_bundleid :: u32
  b_in_datastore :: bool
  b_local_custody :: bool
  b_owner :: string
  b_extended_id :: bundle_timestamp
  b_fragmented_incoming :: bool
  b_recv_blocks :: block_info_vec
  b_api_blocks :: block_info_vec
  b_metadata :: "metadata_block list"
  b_recv_metadata :: "nat list"
  b_generated_metadata :: link_metadata_set

text \<open>The constructor and \<open>init\<close>, at a time and with a fresh identifier.\<close>

definition new_bundle :: "u32 \<Rightarrow> u32 \<Rightarrow> payload \<Rightarrow> dtn_bundle" where
  "new_bundle now bid pl =
     (let ts = BundleTimestamp (ucast now) (ucast bid)
      in \<lparr>b_source = empty_eid, b_dest = empty_eid, b_custodian = empty_eid, b_replyto = empty_eid, b_prevhop = empty_eid,
          b_is_fragment = False, b_is_admin = False, b_do_not_fragment = False, b_custody_requested = False,
          b_singleton_dest = True, b_priority = of_int (priority_value COS_NORMAL),
          b_receive_rcpt = False, b_custody_rcpt = False, b_forward_rcpt = False, b_delivery_rcpt = False,
          b_deletion_rcpt = False, b_app_acked_rcpt = False,
          b_creation_ts = ts, b_expiration = 0, b_frag_offset = 0, b_orig_length = 0,
          b_sequence_id = [], b_obsoletes_id = [], b_session_eid = empty_eid, b_session_flags = 0,
          b_payload = pl, b_bundleid = bid, b_in_datastore = False, b_local_custody = False, b_owner = [],
          b_extended_id = ts, b_fragmented_incoming = False, b_recv_blocks = empty_biv, b_api_blocks = empty_biv,
          b_metadata = [], b_recv_metadata = [], b_generated_metadata = []\<rparr>)"

definition copy_metadata :: "dtn_bundle \<Rightarrow> dtn_bundle \<Rightarrow> dtn_bundle" where
  "copy_metadata b new =
     new\<lparr>b_is_admin := b_is_admin b, b_is_fragment := b_is_fragment b, b_do_not_fragment := b_do_not_fragment b,
         b_source := b_source b, b_dest := b_dest b, b_custodian := b_custodian b, b_replyto := b_replyto b,
         b_priority := b_priority b, b_custody_requested := b_custody_requested b, b_local_custody := False,
         b_singleton_dest := b_singleton_dest b, b_custody_rcpt := b_custody_rcpt b,
         b_receive_rcpt := b_receive_rcpt b, b_forward_rcpt := b_forward_rcpt b,
         b_delivery_rcpt := b_delivery_rcpt b, b_deletion_rcpt := b_deletion_rcpt b,
         b_app_acked_rcpt := b_app_acked_rcpt b, b_creation_ts := b_creation_ts b, b_expiration := b_expiration b\<rparr>"

definition receipt_requested :: "dtn_bundle \<Rightarrow> bool" where
  "receipt_requested b \<longleftrightarrow>
     b_receive_rcpt b \<or> b_custody_rcpt b \<or> b_forward_rcpt b \<or> b_delivery_rcpt b \<or> b_deletion_rcpt b"

definition bundle_validate :: "dtn_bundle \<Rightarrow> bool" where
  "bundle_validate b =
     (if \<not> eid_valid (b_source b) then False
      else if \<not> eid_valid (b_dest b) then False
      else if \<not> eid_valid (b_replyto b) then False
      else if \<not> eid_valid (b_custodian b) then False
      else True)"

text \<open>
  Reference counting. \<open>add_ref\<close> also says whether the bundle enters the list of all bundles,
  which takes a reference of its own, and \<open>del_ref\<close> whether the free event is posted.
\<close>

record ref_state =
  refcount :: int
  freed :: bool

definition add_ref :: "ref_state \<Rightarrow> (int \<times> bool \<times> ref_state) outcome" where
  "add_ref r =
     assert_that (\<not> freed r) (assert_that (refcount r \<ge> 0)
      (let ret = refcount r + 1 in Done (ret, ret = 1, r\<lparr>refcount := ret\<rparr>)))"

definition del_ref :: "ref_state \<Rightarrow> (int \<times> bool \<times> ref_state) outcome" where
  "del_ref r =
     (let ret = refcount r - 1; r' = r\<lparr>refcount := ret\<rparr>
      in if ret > 1 then assert_that (\<not> freed r) (Done (ret, False, r'))
         else if ret = 1 then assert_that (\<not> freed r) (Done (0, True, r'\<lparr>freed := True\<rparr>))
         else if ret = 0 then assert_that (freed r) (Done (0, False, r'))
         else Done (0, False, r'))"

section \<open>Properties\<close>

text \<open>
  What identifies a bundle or fragment: text of the source, creation timestamp, whether it is
  a fragment (fragments come first), and for a fragment its length and offset.
\<close>

definition gbof_key :: "gbof_id \<Rightarrow> string \<times> bundle_timestamp \<times> bool \<times> u32 \<times> u32" where
  "gbof_key g = (eid_str (gb_source g), gb_creation_ts g, \<not> gb_is_fragment g,
     (if gb_is_fragment g then (gb_frag_length g, gb_frag_offset g) else (0, 0)))"

text \<open>
  C18. The comparison of GBOF identifiers is the lexicographic order of what identifies a
  bundle, and their equality is equality of the same: as keys of a map, two identifiers of
  which neither is smaller are equal, and the length and offset of a bundle that is not a
  fragment play no part.
\<close>

theorem gbof_order:
  "(gbof_less a b \<longleftrightarrow> gbof_key a < gbof_key b) \<and> (gbof_equals a b \<longleftrightarrow> gbof_key a = gbof_key b)"
proof
  show "gbof_less a b \<longleftrightarrow> gbof_key a < gbof_key b"
    by (simp add: gbof_less_def gbof_key_def eid_less_def less_prod_def' not_less_iff_gr_or_eq) auto
  show "gbof_equals a b \<longleftrightarrow> gbof_key a = gbof_key b"
    by (cases "gb_creation_ts a"; cases "gb_creation_ts b") (auto simp: gbof_equals_def gbof_key_def eid_equals_def)
qed

end
