(* ===== verification/Primary_Block.thy ===== *)
theory Primary_Block
  imports Dtn_Bundle
begin

text \<open>
  The primary block (\<open>servlib/bundling/PrimaryBlockProcessor.cc\<close>): processing flags, the
  computation of the length, the generation of the block and its consumption, and the checks
  of a received bundle. The pointer into the buffer and the remaining length are the list of
  bytes that are left; every SDNV advances it.
\<close>

section \<open>Flags\<close>

definition BUNDLE_IS_FRAGMENT :: u64 where "BUNDLE_IS_FRAGMENT = 0x01"
definition BUNDLE_IS_ADMIN :: u64 where "BUNDLE_IS_ADMIN = 0x02"
definition BUNDLE_DO_NOT_FRAGMENT :: u64 where "BUNDLE_DO_NOT_FRAGMENT = 0x04"
definition BUNDLE_CUSTODY_XFER_REQUESTED :: u64 where "BUNDLE_CUSTODY_XFER_REQUESTED = 0x08"
definition BUNDLE_SINGLETON_DESTINATION :: u64 where "BUNDLE_SINGLETON_DESTINATION = 0x10"
definition BUNDLE_ACK_BY_APP :: u64 where "BUNDLE_ACK_BY_APP = 0x20"

definition STATUS_RECEIVED :: u64 where "STATUS_RECEIVED = 0x4000"
definition STATUS_CUSTODY_ACCEPTED :: u64 where "STATUS_CUSTODY_ACCEPTED = 0x8000"
definition STATUS_FORWARDED :: u64 where "STATUS_FORWARDED = 0x10000"
definition STATUS_DELIVERED :: u64 where "STATUS_DELIVERED = 0x20000"
definition STATUS_DELETED :: u64 where "STATUS_DELETED = 0x40000"
definition STATUS_ACKED_BY_APP :: u64 where "STATUS_ACKED_BY_APP = 0x80000"

definition set_if :: "bool \<Rightarrow> u64 \<Rightarrow> u64 \<Rightarrow> u64" where
  "set_if c flag flags = (if c then flags OR flag else flags)"

definition format_bundle_flags :: "dtn_bundle \<Rightarrow> u64" where
  "format_bundle_flags b =
     set_if (b_app_acked_rcpt b) BUNDLE_ACK_BY_APP
     (set_if (b_singleton_dest b) BUNDLE_SINGLETON_DESTINATION
     (set_if (b_custody_requested b) BUNDLE_CUSTODY_XFER_REQUESTED
     (set_if (b_do_not_fragment b) BUNDLE_DO_NOT_FRAGMENT
     (set_if (b_is_admin b) BUNDLE_IS_ADMIN
     (set_if (b_is_fragment b) BUNDLE_IS_FRAGMENT 0)))))"

definition parse_bundle_flags :: "u64 \<Rightarrow> dtn_bundle \<Rightarrow> dtn_bundle" where
  "parse_bundle_flags flags b =
     b\<lparr>b_is_fragment := (flags AND BUNDLE_IS_FRAGMENT \<noteq> 0),
       b_is_admin := (flags AND BUNDLE_IS_ADMIN \<noteq> 0),
       b_do_not_fragment := (flags AND BUNDLE_DO_NOT_FRAGMENT \<noteq> 0),
       b_custody_requested := (flags AND BUNDLE_CUSTODY_XFER_REQUESTED \<noteq> 0),
       b_singleton_dest := (flags AND BUNDLE_SINGLETON_DESTINATION \<noteq> 0),
       b_app_acked_rcpt := (flags AND BUNDLE_ACK_BY_APP \<noteq> 0)\<rparr>"

definition format_cos_flags :: "dtn_bundle \<Rightarrow> u64" where
  "format_cos_flags b = push_bit 7 (ucast (b_priority b AND 0x3))"

definition parse_cos_flags :: "u64 \<Rightarrow> dtn_bundle \<Rightarrow> dtn_bundle" where
  "parse_cos_flags cos_flags b = b\<lparr>b_priority := ucast (drop_bit 7 cos_flags AND 0x3)\<rparr>"

definition format_srr_flags :: "dtn_bundle \<Rightarrow> u64" where
  "format_srr_flags b =
     set_if (b_deletion_rcpt b) STATUS_DELETED
     (set_if (b_delivery_rcpt b) STATUS_DELIVERED
     (set_if (b_forward_rcpt b) STATUS_FORWARDED
     (set_if (b_custody_rcpt b) STATUS_CUSTODY_ACCEPTED
     (set_if (b_receive_rcpt b) STATUS_RECEIVED 0))))"

text \<open>The receipt flags are only ever set.\<close>

definition parse_srr_flags :: "u64 \<Rightarrow> dtn_bundle \<Rightarrow> dtn_bundle" where
  "parse_srr_flags srr_flags b =
     b\<lparr>b_receive_rcpt := (if srr_flags AND STATUS_RECEIVED \<noteq> 0 then True else b_receive_rcpt b),
       b_custody_rcpt := (if srr_flags AND STATUS_CUSTODY_ACCEPTED \<noteq> 0 then True else b_custody_rcpt b),
       b_forward_rcpt := (if srr_flags AND STATUS_FORWARDED \<noteq> 0 then True else b_forward_rcpt b),
       b_delivery_rcpt := (if srr_flags AND STATUS_DELIVERED \<noteq> 0 then True else b_delivery_rcpt b),
       b_deletion_rcpt := (if srr_flags AND STATUS_DELETED \<noteq> 0 then True else b_deletion_rcpt b)\<rparr>"

section \<open>Generating the block\<close>

definition CURRENT_VERSION :: byte where
  "CURRENT_VERSION = 0x06"

record primary_block =
  pb_processing_flags :: u64
  pb_block_length :: u64
  pb_dest_scheme_offset :: nat
  pb_dest_ssp_offset :: nat
  pb_source_scheme_offset :: nat
  pb_source_ssp_offset :: nat
  pb_replyto_scheme_offset :: nat
  pb_replyto_ssp_offset :: nat
  pb_custodian_scheme_offset :: nat
  pb_custodian_ssp_offset :: nat
  pb_dictionary_length :: nat

text \<open>
  \<open>get_primary_len\<close>: the length of the block and the fields that \<open>generate_primary\<close> writes.
  The results of \<open>get_offsets\<close> are ignored; an offset that is not assigned is 0 from the start.
\<close>

definition get_primary_len :: "dtn_bundle \<Rightarrow> dictionary \<Rightarrow> (nat \<times> primary_block) outcome" where
  "get_primary_len b dict =
     bind_outcome (get_offsets dict (b_dest b) 0) (\<lambda>(_, ds, dp).
     bind_outcome (get_offsets dict (b_source b) 0) (\<lambda>(_, ss, sp).
     bind_outcome (get_offsets dict (b_replyto b) 0) (\<lambda>(_, rs, rp).
     bind_outcome (get_offsets dict (b_custodian b) 0) (\<lambda>(_, cs, cp).
       (let dictionary_length = length (d_bytes dict);
            enc = (\<lambda>vs. fold_outcome (\<lambda>v n. bind_outcome (sdnv_encoding_len v) (\<lambda>l. Done (n + l))) vs 0)
        in bind_outcome
             (enc ([of_nat ds, of_nat dp, of_nat ss, of_nat sp, of_nat rs, of_nat rp, of_nat cs, of_nat cp,
                    ts_seconds (b_creation_ts b), ts_seqno (b_creation_ts b), b_expiration b, of_nat dictionary_length]
                   @ (if b_is_fragment b then [ucast (b_frag_offset b), ucast (b_orig_length b)] else [])))
             (\<lambda>n. let block_length = of_nat (n + dictionary_length);
                      processing_flags = format_bundle_flags b OR format_cos_flags b OR format_srr_flags b
                  in bind_outcome (enc [processing_flags, block_length])
                       (\<lambda>m. Done (1 + m + unat block_length,
                          \<lparr>pb_processing_flags = processing_flags, pb_block_length = block_length,
                           pb_dest_scheme_offset = ds, pb_dest_ssp_offset = dp,
                           pb_source_scheme_offset = ss, pb_source_ssp_offset = sp,
                           pb_replyto_scheme_offset = rs, pb_replyto_ssp_offset = rp,
                           pb_custodian_scheme_offset = cs, pb_custodian_ssp_offset = cp,
                           pb_dictionary_length = dictionary_length\<rparr>))))))))"

text \<open>\<open>PBP_WRITE_SDNV\<close>: the bytes written so far, and the rest of the buffer.\<close>

definition pbp_write_sdnv :: "u64 \<Rightarrow> byte list \<times> byte list \<Rightarrow> (byte list \<times> byte list) outcome" where
  "pbp_write_sdnv value w =
     (case w of (written, rest) \<Rightarrow>
        bind_outcome (sdnv_encode value rest)
          (\<lambda>(sdnv_len, rest'). assert_that (sdnv_len > 0)
             (Done (written @ take (nat sdnv_len) rest', drop (nat sdnv_len) rest'))))"

text \<open>A copy of the dictionary past the end of the buffer is \<open>Panic\<close>.\<close>

definition generate_primary :: "dtn_bundle \<Rightarrow> dictionary \<Rightarrow> block_info \<Rightarrow> block_info outcome" where
  "generate_primary b dict block =
     bind_outcome (get_primary_len b dict) (\<lambda>(primary_len, primary).
       (let b1 = (reserve primary_len block)\<lparr>bi_data_length := of_nat primary_len\<rparr>;
            w = ([CURRENT_VERSION], replicate (primary_len - 1) 0)
        in bind_outcome
             (fold_outcome pbp_write_sdnv
               [pb_processing_flags primary, pb_block_length primary,
                of_nat (pb_dest_scheme_offset primary), of_nat (pb_dest_ssp_offset primary),
                of_nat (pb_source_scheme_offset primary), of_nat (pb_source_ssp_offset primary),
                of_nat (pb_replyto_scheme_offset primary), of_nat (pb_replyto_ssp_offset primary),
                of_nat (pb_custodian_scheme_offset primary), of_nat (pb_custodian_ssp_offset primary),
                ts_seconds (b_creation_ts b), ts_seqno (b_creation_ts b), b_expiration b,
                of_nat (pb_dictionary_length primary)] w)
             (\<lambda>(written, rest).
                assert_that (length (d_bytes dict) \<le> length rest)
                 (bind_outcome
                   (fold_outcome pbp_write_sdnv
                     (if b_is_fragment b then [ucast (b_frag_offset b), ucast (b_orig_length b)] else [])
                     (written @ d_bytes dict, drop (length (d_bytes dict)) rest))
                   (\<lambda>(written', rest'). assert_that (rest' = [])
                      (Done (b1\<lparr>bi_contents := written'\<rparr>)))))))"

text \<open>\<open>prepare\<close> and \<open>generate\<close> (which only asserts that the block is not the last).\<close>

definition primary_prepare :: "dtn_bundle \<Rightarrow> source_ref option \<Rightarrow> block_info_vec \<Rightarrow> block_info_vec outcome" where
  "primary_prepare b source xmit =
     assert_that (biv_blocks xmit = [])
      (bind_outcome (fold_outcome add_eid [b_dest b, b_source b, b_replyto b, b_custodian b] (biv_dict xmit))
        (\<lambda>dict. Done (xmit\<lparr>biv_dict := dict, biv_blocks := new_block_of PrimaryBP source # biv_blocks xmit\<rparr>)))"

definition primary_generate :: "bool \<Rightarrow> unit outcome" where
  "primary_generate last' = assert_that (\<not> last') (Done ())"

section \<open>Consuming the block\<close>

definition recv_dict :: "dtn_bundle \<Rightarrow> dictionary" where
  "recv_dict b = biv_dict (b_recv_blocks b)"

definition set_recv_dict :: "dictionary \<Rightarrow> dtn_bundle \<Rightarrow> dtn_bundle" where
  "set_recv_dict d b = b\<lparr>b_recv_blocks := (b_recv_blocks b)\<lparr>biv_dict := d\<rparr>\<rparr>"

text \<open>
  What follows the dictionary of a fragment: two SDNVs that must fit 32 bits. The result is
  whether the block is accepted.
\<close>

definition read_fragment :: "byte list \<Rightarrow> dtn_bundle \<Rightarrow> bool \<times> dtn_bundle" where
  "read_fragment rest b =
     (if \<not> b_is_fragment b then (True, b)
      else case sdnv_take rest of
        None \<Rightarrow> (False, b)
      | Some (off, rest') \<Rightarrow>
          if off > 0xffffffff then (False, b)
          else let b1 = b\<lparr>b_frag_offset := ucast off\<rparr>
               in case sdnv_take rest' of
                    None \<Rightarrow> (False, b1)
                  | Some (len, _) \<Rightarrow>
                      if len > 0xffffffff then (False, b1) else (True, b1\<lparr>b_orig_length := ucast len\<rparr>))"

text \<open>
  The dictionary and the fields behind it. The byte before the end of the dictionary is read
  at its position in the whole block, also when the dictionary is empty.
\<close>

definition read_dictionary ::
    "byte list \<Rightarrow> byte list \<Rightarrow> u64 list \<Rightarrow> dtn_bundle \<Rightarrow> (bool \<times> dtn_bundle) outcome" where
  "read_dictionary contents rest vs b =
     (let dl = unat (vs ! 11); pos = length contents - length rest
      in if length rest < dl then Done (False, b)
         else if contents ! (pos + dl - 1) \<noteq> 0 then Done (False, b)
         else bind_outcome (set_dict (take dl rest) (recv_dict b)) (\<lambda>d.
              bind_outcome (extract_eid64 d (vs ! 2) (vs ! 3) (b_source b)) (\<lambda>(_, source).
              bind_outcome (extract_eid64 d (vs ! 0) (vs ! 1) (b_dest b)) (\<lambda>(_, dest).
              bind_outcome (extract_eid64 d (vs ! 4) (vs ! 5) (b_replyto b)) (\<lambda>(_, replyto).
              bind_outcome (extract_eid64 d (vs ! 6) (vs ! 7) (b_custodian b)) (\<lambda>(_, custodian).
                Done (read_fragment (drop dl rest)
                  ((set_recv_dict d b)\<lparr>b_source := source, b_dest := dest, b_replyto := replyto,
                                        b_custodian := custodian\<rparr>))))))))"

text \<open>The complete block: \<open>False\<close> is the protocol error.\<close>

definition parse_primary :: "block_info \<Rightarrow> dtn_bundle \<Rightarrow> (bool \<times> dtn_bundle) outcome" where
  "parse_primary block b =
     (let contents = bi_contents block
      in assert_that (unat (full_length block) = length contents)
       (case contents of
          [] \<Rightarrow> Panic
        | version # rest \<Rightarrow>
            if version \<noteq> CURRENT_VERSION then Done (False, b)
            else case sdnv_take rest of
              None \<Rightarrow> Done (False, b)
            | Some (processing_flags, rest1) \<Rightarrow>
                (case sdnv_take rest1 of
                   None \<Rightarrow> Done (False, b)
                 | Some (block_length, rest2) \<Rightarrow>
                     (let b1 = parse_srr_flags processing_flags (parse_cos_flags processing_flags
                                 (parse_bundle_flags processing_flags b))
                      in assert_that (length rest2 = unat (bi_data_length block))
                       (case take_items sdnv_take 12 rest2 of
                          None \<Rightarrow> Done (False, b1)
                        | Some (vs, rest3) \<Rightarrow>
                            read_dictionary contents rest3 vs
                              (b1\<lparr>b_creation_ts := BundleTimestamp (vs ! 8) (vs ! 9),
                                  b_expiration := vs ! 10\<rparr>))))))"

definition primary_consume :: "dtn_bundle \<Rightarrow> block_info \<Rightarrow> byte list \<Rightarrow> (int \<times> dtn_bundle \<times> block_info) outcome" where
  "primary_consume b block buf =
     assert_that (\<not> bi_complete block)
      (bind_outcome (bp_consume (recv_dict b) block buf) (\<lambda>(cc, block').
         if cc = -1 then Done (-1, b, block')
         else if \<not> bi_complete block' then assert_that (cc = int (length buf)) (Done (cc, b, block'))
         else bind_outcome (parse_primary block' b) (\<lambda>(ok, b').
                Done (if ok then cc else -1, b', block'))))"

section \<open>Checks of a received bundle\<close>

text \<open>\<open>validate\<close>; the reason for the deletion is always \<open>REASON_BLOCK_UNINTELLIGIBLE\<close>.\<close>

definition primary_validate :: "dtn_bundle \<Rightarrow> bool outcome" where
  "primary_validate b =
     bind_outcome NULL_EID (\<lambda>null.
       Done (if \<not> (eid_valid (b_source b) \<and> eid_valid (b_dest b) \<and> eid_valid (b_custodian b) \<and> eid_valid (b_replyto b))
             then False
             else if eid_equals (b_source b) null \<and> (receipt_requested b \<or> b_app_acked_rcpt b) then False
             else if eid_equals (b_source b) null \<and> b_custody_requested b then False
             else if eid_equals (b_source b) null \<and> \<not> b_do_not_fragment b then False
             else if b_is_admin b \<and> b_custody_requested b then False
             else if b_is_admin b \<and> (b_receive_rcpt b \<or> b_custody_rcpt b \<or> b_forward_rcpt b \<or>
                       b_delivery_rcpt b \<or> b_deletion_rcpt b \<or> b_app_acked_rcpt b) then False
             else True))"

section \<open>Flags round trip\<close>

text \<open>Every flag is one bit.\<close>

lemma and_pow_bit: "(w :: u64) AND 2 ^ k \<noteq> 0 \<longleftrightarrow> bit w k"
  using and_exp_eq_0_iff_not_bit [of w k] by simp

lemmas flag_defs = BUNDLE_IS_FRAGMENT_def BUNDLE_IS_ADMIN_def BUNDLE_DO_NOT_FRAGMENT_def
  BUNDLE_CUSTODY_XFER_REQUESTED_def BUNDLE_SINGLETON_DESTINATION_def BUNDLE_ACK_BY_APP_def
  STATUS_RECEIVED_def STATUS_CUSTODY_ACCEPTED_def STATUS_FORWARDED_def STATUS_DELIVERED_def STATUS_DELETED_def

lemma flag_bits:
  "w AND BUNDLE_IS_FRAGMENT \<noteq> 0 \<longleftrightarrow> bit w 0" "w AND BUNDLE_IS_ADMIN \<noteq> 0 \<longleftrightarrow> bit w 1"
  "w AND BUNDLE_DO_NOT_FRAGMENT \<noteq> 0 \<longleftrightarrow> bit w 2" "w AND BUNDLE_CUSTODY_XFER_REQUESTED \<noteq> 0 \<longleftrightarrow> bit w 3"
  "w AND BUNDLE_SINGLETON_DESTINATION \<noteq> 0 \<longleftrightarrow> bit w 4" "w AND BUNDLE_ACK_BY_APP \<noteq> 0 \<longleftrightarrow> bit w 5"
  "w AND BLOCK_FLAG_EID_REFS \<noteq> 0 \<longleftrightarrow> bit w 6"
  "w AND STATUS_RECEIVED \<noteq> 0 \<longleftrightarrow> bit w 14" "w AND STATUS_CUSTODY_ACCEPTED \<noteq> 0 \<longleftrightarrow> bit w 15"
  "w AND STATUS_FORWARDED \<noteq> 0 \<longleftrightarrow> bit w 16" "w AND STATUS_DELIVERED \<noteq> 0 \<longleftrightarrow> bit w 17"
  "w AND STATUS_DELETED \<noteq> 0 \<longleftrightarrow> bit w 18"
  using and_pow_bit [of w 0] and_pow_bit [of w 1] and_pow_bit [of w 2] and_pow_bit [of w 3] and_pow_bit [of w 4]
    and_pow_bit [of w 5] and_pow_bit [of w 6] and_pow_bit [of w 14] and_pow_bit [of w 15] and_pow_bit [of w 16]
    and_pow_bit [of w 17] and_pow_bit [of w 18]
  by (simp_all add: flag_defs BLOCK_FLAG_EID_REFS_def)

lemma bit_set_if: "k < 64 \<Longrightarrow> bit (set_if c (2 ^ j) w) k \<longleftrightarrow> bit w k \<or> (c \<and> j = k)"
  by (auto simp: set_if_def bit_or_iff bit_exp_iff)

lemma flag_pow:
  "BUNDLE_IS_FRAGMENT = 2 ^ 0" "BUNDLE_IS_ADMIN = 2 ^ 1" "BUNDLE_DO_NOT_FRAGMENT = 2 ^ 2"
  "BUNDLE_CUSTODY_XFER_REQUESTED = 2 ^ 3" "BUNDLE_SINGLETON_DESTINATION = 2 ^ 4" "BUNDLE_ACK_BY_APP = 2 ^ 5"
  "STATUS_RECEIVED = 2 ^ 14" "STATUS_CUSTODY_ACCEPTED = 2 ^ 15" "STATUS_FORWARDED = 2 ^ 16"
  "STATUS_DELIVERED = 2 ^ 17" "STATUS_DELETED = 2 ^ 18"
  by (simp_all add: flag_defs)

lemma bit_bundle_flags:
  "k < 64 \<Longrightarrow> bit (format_bundle_flags b) k \<longleftrightarrow>
     (b_is_fragment b \<and> k = 0) \<or> (b_is_admin b \<and> k = 1) \<or> (b_do_not_fragment b \<and> k = 2) \<or>
     (b_custody_requested b \<and> k = 3) \<or> (b_singleton_dest b \<and> k = 4) \<or> (b_app_acked_rcpt b \<and> k = 5)"
  unfolding format_bundle_flags_def flag_pow by (simp only: bit_set_if) auto

lemma bit_srr_flags:
  "k < 64 \<Longrightarrow> bit (format_srr_flags b) k \<longleftrightarrow>
     (b_receive_rcpt b \<and> k = 14) \<or> (b_custody_rcpt b \<and> k = 15) \<or> (b_forward_rcpt b \<and> k = 16) \<or>
     (b_delivery_rcpt b \<and> k = 17) \<or> (b_deletion_rcpt b \<and> k = 18)"
  unfolding format_srr_flags_def flag_pow by (simp only: bit_set_if) auto

lemma bit_and_3: "bit (x AND 3 :: 'a::len word) k \<longleftrightarrow> bit x k \<and> k < 2"
proof -
  have "(3 :: 'a word) = mask 2" by (simp add: mask_eq_exp_minus_1)
  then show ?thesis by (simp only: bit_and_iff bit_mask_iff) (auto dest: bit_imp_possible_bit)
qed

lemma bit_cos_flags: "k < 64 \<Longrightarrow> bit (format_cos_flags b) k \<longleftrightarrow> 7 \<le> k \<and> k < 9 \<and> bit (b_priority b) (k - 7)"
  by (auto simp: format_cos_flags_def bit_push_bit_iff bit_unsigned_iff bit_and_3)

definition primary_flags :: "dtn_bundle \<Rightarrow> u64" where
  "primary_flags b = format_bundle_flags b OR format_cos_flags b OR format_srr_flags b"

lemma bit_primary_flags:
  "k < 64 \<Longrightarrow> bit (primary_flags b) k \<longleftrightarrow>
     bit (format_bundle_flags b) k \<or> bit (format_cos_flags b) k \<or> bit (format_srr_flags b) k"
  by (simp add: primary_flags_def bit_or_iff)

lemma priority_back: "ucast (drop_bit 7 (primary_flags b) AND 0x3) = b_priority b AND (3 :: byte)"
proof (rule bit_eqI)
  fix k
  assume "possible_bit TYPE(byte) k"
  then have k: "k < 8" by simp
  show "bit (ucast (drop_bit 7 (primary_flags b) AND 0x3) :: byte) k \<longleftrightarrow> bit (b_priority b AND 3) k"
    using k by (auto simp: bit_unsigned_iff bit_and_3 bit_drop_bit_eq bit_primary_flags bit_bundle_flags bit_cos_flags bit_srr_flags)
qed

lemma no_eid_refs: "primary_flags b AND BLOCK_FLAG_EID_REFS = 0"
  using flag_bits(7) [of "primary_flags b"]
  by (simp add: bit_primary_flags bit_bundle_flags bit_cos_flags bit_srr_flags)

text \<open>What the flags of the sender make of a bundle at the receiver.\<close>

lemma parse_primary_flags:
  "parse_srr_flags (primary_flags b) (parse_cos_flags (primary_flags b) (parse_bundle_flags (primary_flags b) r)) =
    r\<lparr>b_is_fragment := b_is_fragment b, b_is_admin := b_is_admin b, b_do_not_fragment := b_do_not_fragment b,
      b_custody_requested := b_custody_requested b, b_singleton_dest := b_singleton_dest b,
      b_app_acked_rcpt := b_app_acked_rcpt b, b_priority := b_priority b AND 3,
      b_receive_rcpt := b_receive_rcpt b \<or> b_receive_rcpt r, b_custody_rcpt := b_custody_rcpt b \<or> b_custody_rcpt r,
      b_forward_rcpt := b_forward_rcpt b \<or> b_forward_rcpt r, b_delivery_rcpt := b_delivery_rcpt b \<or> b_delivery_rcpt r,
      b_deletion_rcpt := b_deletion_rcpt b \<or> b_deletion_rcpt r\<rparr>"
proof -
  have bits: "\<And>k. k < 64 \<Longrightarrow> bit (primary_flags b) k \<longleftrightarrow>
      bit (format_bundle_flags b) k \<or> bit (format_cos_flags b) k \<or> bit (format_srr_flags b) k"
    by (rule bit_primary_flags)
  show ?thesis
    unfolding parse_srr_flags_def parse_cos_flags_def parse_bundle_flags_def flag_bits priority_back
    by (simp add: bits bit_bundle_flags bit_cos_flags bit_srr_flags)
qed


section \<open>The bytes of the block\<close>

definition primary_fields :: "dtn_bundle \<Rightarrow> dictionary \<Rightarrow> u64 list outcome" where
  "primary_fields b d =
     bind_outcome (get_offsets d (b_dest b) 0) (\<lambda>(_, ds, dp).
     bind_outcome (get_offsets d (b_source b) 0) (\<lambda>(_, ss, sp).
     bind_outcome (get_offsets d (b_replyto b) 0) (\<lambda>(_, rs, rp).
     bind_outcome (get_offsets d (b_custodian b) 0) (\<lambda>(_, cs, cp).
       Done [of_nat ds, of_nat dp, of_nat ss, of_nat sp, of_nat rs, of_nat rp, of_nat cs, of_nat cp,
             ts_seconds (b_creation_ts b), ts_seqno (b_creation_ts b), b_expiration b, of_nat (length (d_bytes d))]))))"

definition fragment_fields :: "dtn_bundle \<Rightarrow> u64 list" where
  "fragment_fields b = (if b_is_fragment b then [ucast (b_frag_offset b), ucast (b_orig_length b)] else [])"

definition primary_body :: "dtn_bundle \<Rightarrow> dictionary \<Rightarrow> u64 list \<Rightarrow> byte list" where
  "primary_body b d vs = concat (map sdnv_bytes vs) @ d_bytes d @ concat (map sdnv_bytes (fragment_fields b))"

lemma write_sdnvs:
  "length (concat (map sdnv_bytes vs)) \<le> length rest \<Longrightarrow>
   fold_outcome pbp_write_sdnv vs (w, rest) =
     Done (w @ concat (map sdnv_bytes vs), drop (length (concat (map sdnv_bytes vs))) rest)"
proof (induction vs arbitrary: w rest)
  case (Cons v vs)
  then have "pbp_write_sdnv v (w, rest) = Done (w @ sdnv_bytes v, drop (length (sdnv_bytes v)) rest)"
    using sdnv_bytes_length_bounds [of v] by (simp add: pbp_write_sdnv_def sdnv_encode_eq not_less)
  then show ?case using Cons by (simp add: add.commute)
qed simp

lemma add_encoding_lens:
  "fold_outcome (\<lambda>v n. bind_outcome (sdnv_encoding_len v) (\<lambda>l. Done (n + l))) vs n =
     Done (n + length (concat (map sdnv_bytes vs)))"
  by (induction vs arbitrary: n) (simp_all add: sdnv_encoding_len_eq add.assoc)

lemma get_primary_len_eq:
  assumes "get_offsets d (b_dest b) 0 = Done (f1, ds, dp)" and "get_offsets d (b_source b) 0 = Done (f2, ss, sp)"
    and "get_offsets d (b_replyto b) 0 = Done (f3, rs, rp)" and "get_offsets d (b_custodian b) 0 = Done (f4, cs, cp)"
    and "primary_fields b d = Done vs" and "length (primary_body b d vs) < 2 ^ 64"
  shows "get_primary_len b d = Done (length (preamble_bytes CURRENT_VERSION (primary_flags b) (length (primary_body b d vs)))
      + length (primary_body b d vs),
    \<lparr>pb_processing_flags = primary_flags b, pb_block_length = of_nat (length (primary_body b d vs)),
     pb_dest_scheme_offset = ds, pb_dest_ssp_offset = dp, pb_source_scheme_offset = ss, pb_source_ssp_offset = sp,
     pb_replyto_scheme_offset = rs, pb_replyto_ssp_offset = rp, pb_custodian_scheme_offset = cs,
     pb_custodian_ssp_offset = cp, pb_dictionary_length = length (d_bytes d)\<rparr>)"
proof -
  have vs: "vs = [of_nat ds, of_nat dp, of_nat ss, of_nat sp, of_nat rs, of_nat rp, of_nat cs, of_nat cp,
             ts_seconds (b_creation_ts b), ts_seqno (b_creation_ts b), b_expiration b, of_nat (length (d_bytes d))]"
    using assms(1-5) by (simp add: primary_fields_def)
  have len: "length (concat (map sdnv_bytes (vs @ fragment_fields b))) + length (d_bytes d) = length (primary_body b d vs)"
    by (simp add: primary_body_def)
  have u: "unat (of_nat (length (primary_body b d vs)) :: u64) = length (primary_body b d vs)"
    by (rule u64_of_nat [OF assms(6)])
  show ?thesis
    unfolding get_primary_len_def assms(1-4) fragment_fields_def [symmetric] bind_outcome.simps prod.case Let_def
      vs [symmetric] add_encoding_lens add_0 len primary_flags_def [symmetric] u
    by (simp add: preamble_bytes_def)
qed

lemma generate_primary_eq:
  assumes "get_offsets d (b_dest b) 0 = Done (f1, ds, dp)" and "get_offsets d (b_source b) 0 = Done (f2, ss, sp)"
    and "get_offsets d (b_replyto b) 0 = Done (f3, rs, rp)" and "get_offsets d (b_custodian b) 0 = Done (f4, cs, cp)"
    and "primary_fields b d = Done vs" and "length (primary_body b d vs) < 2 ^ 64"
  shows "generate_primary b d block =
    (let image = preamble_bytes CURRENT_VERSION (primary_flags b) (length (primary_body b d vs)) @ primary_body b d vs
     in Done ((reserve (length image) block)\<lparr>bi_data_length := of_nat (length image), bi_contents := image\<rparr>))"
proof -
  let ?body = "primary_body b d vs"
  let ?image = "preamble_bytes CURRENT_VERSION (primary_flags b) (length ?body) @ ?body"
  have vs: "vs = [of_nat ds, of_nat dp, of_nat ss, of_nat sp, of_nat rs, of_nat rp, of_nat cs, of_nat cp,
             ts_seconds (b_creation_ts b), ts_seqno (b_creation_ts b), b_expiration b, of_nat (length (d_bytes d))]"
    using assms(1-5) by (simp add: primary_fields_def)
  let ?ws = "primary_flags b # of_nat (length ?body) # vs"
  have image: "?image = [CURRENT_VERSION] @ concat (map sdnv_bytes ?ws) @ d_bytes d @ concat (map sdnv_bytes (fragment_fields b))"
    by (simp add: preamble_bytes_def primary_body_def)
  define n where "n = length ?image"
  have n: "n - 1 = length (concat (map sdnv_bytes ?ws)) + length (d_bytes d) + length (concat (map sdnv_bytes (fragment_fields b)))"
    unfolding n_def image by simp
  have w1: "fold_outcome pbp_write_sdnv ?ws ([CURRENT_VERSION], replicate (n - 1) 0) =
      Done ([CURRENT_VERSION] @ concat (map sdnv_bytes ?ws),
        replicate (length (d_bytes d) + length (concat (map sdnv_bytes (fragment_fields b)))) 0)"
    by (subst write_sdnvs) (use n in simp_all)
  have w2: "fold_outcome pbp_write_sdnv (fragment_fields b)
      (([CURRENT_VERSION] @ concat (map sdnv_bytes ?ws)) @ d_bytes d,
       replicate (length (concat (map sdnv_bytes (fragment_fields b)))) 0) = Done (?image, [])"
    unfolding image by (subst write_sdnvs) simp_all
  show ?thesis
    unfolding generate_primary_def get_primary_len_eq [OF assms] bind_outcome.simps prod.case Let_def length_append [symmetric]
      n_def [symmetric] primary_block.simps vs [symmetric] w1 fragment_fields_def [symmetric]
    using w2 by simp
qed


section \<open>Reading the block back\<close>

text \<open>The identifier a receiver assembles from the two strings in the dictionary.\<close>

definition eid_over_wire :: "endpoint_id \<Rightarrow> endpoint_id" where
  "eid_over_wire e = (case make_eid (eid_scheme_str e @ '':'' @ eid_ssp e) of Done e' \<Rightarrow> e' | Panic \<Rightarrow> empty_eid)"

lemma eid_assign_parts_wire: "eid_assign_parts (eid_scheme_str e) (eid_ssp e) empty_eid = Done (eid_over_wire e)"
proof -
  have "eid_assign_parts (eid_scheme_str e) (eid_ssp e) empty_eid = make_eid (eid_scheme_str e @ '':'' @ eid_ssp e)"
    by (simp add: eid_assign_parts_def eid_assign_def make_eid_def uri_assign_def empty_eid_def new_uri_def)
  then show ?thesis
    using make_eid_total [of "eid_scheme_str e @ '':'' @ eid_ssp e"] by (auto simp: eid_over_wire_def)
qed

definition eid_at :: "dictionary \<Rightarrow> endpoint_id \<Rightarrow> nat \<times> nat \<Rightarrow> bool" where
  "eid_at d e mn \<longleftrightarrow> get_offset d (eid_scheme_str e) = Done (True, fst mn) \<and> get_offset d (eid_ssp e) = Done (True, snd mn)"

lemma eid_at_offsets: "eid_at d e (m, n) \<Longrightarrow> get_offsets d e 0 = Done (True, m, n)"
  by (simp add: eid_at_def get_offsets_def)

lemma ucast_of_nat_u32: "n < 2 ^ 32 \<Longrightarrow> unat (ucast (of_nat n :: u64) :: u32) = n"
  by (simp add: unsigned_ucast_eq unat_of_nat take_bit_eq_mod)

lemma extract_wire:
  assumes "dict_inv d" and "length (d_bytes d) < 2 ^ 32" and "eid_at d e (m, n)" and "eid_text_ok e"
  shows "extract_eid64 (received_dict d) (of_nat m) (of_nat n) empty_eid =
    Done (eid_valid (eid_over_wire e), eid_over_wire e)"
proof -
  have at: "get_offset d (eid_scheme_str e) = Done (True, m)" "get_offset d (eid_ssp e) = Done (True, n)"
    using assms(3) by (simp_all add: eid_at_def)
  have "m < 2 ^ 32" "n < 2 ^ 32"
    using get_offset_bound [OF assms(1) at(1)] get_offset_bound [OF assms(1) at(2)] assms(2) by simp_all
  then have off: "unat (ucast (of_nat m :: u64) :: u32) = m" "unat (ucast (of_nat n :: u64) :: u32) = n"
    by (simp_all only: ucast_of_nat_u32)
  show ?thesis
    unfolding extract_eid64_def Let_def off
    using extract_received [OF assms(1) at] assms(4) by (simp add: eid_text_ok_def eid_strings_def eid_assign_parts_wire)
qed

text \<open>The bundle \<open>r\<close> of the receiver, with what it gets from the primary block of \<open>b\<close>.\<close>

definition with_primary_of :: "dtn_bundle \<Rightarrow> dictionary \<Rightarrow> dtn_bundle \<Rightarrow> dtn_bundle" where
  "with_primary_of b d r =
    (set_recv_dict (received_dict d) r)
     \<lparr>b_is_fragment := b_is_fragment b, b_is_admin := b_is_admin b, b_do_not_fragment := b_do_not_fragment b,
      b_custody_requested := b_custody_requested b, b_singleton_dest := b_singleton_dest b,
      b_app_acked_rcpt := b_app_acked_rcpt b, b_priority := b_priority b AND 3,
      b_receive_rcpt := b_receive_rcpt b, b_custody_rcpt := b_custody_rcpt b, b_forward_rcpt := b_forward_rcpt b,
      b_delivery_rcpt := b_delivery_rcpt b, b_deletion_rcpt := b_deletion_rcpt b,
      b_creation_ts := b_creation_ts b, b_expiration := b_expiration b,
      b_source := eid_over_wire (b_source b), b_dest := eid_over_wire (b_dest b),
      b_replyto := eid_over_wire (b_replyto b), b_custodian := eid_over_wire (b_custodian b),
      b_frag_offset := (if b_is_fragment b then b_frag_offset b else b_frag_offset r),
      b_orig_length := (if b_is_fragment b then b_orig_length b else b_orig_length r)\<rparr>"

text \<open>A bundle object before its primary block has been read.\<close>

definition blank_bundle :: "dtn_bundle \<Rightarrow> bool" where
  "blank_bundle r \<longleftrightarrow> recv_dict r = empty_dictionary \<and> b_source r = empty_eid \<and> b_dest r = empty_eid \<and>
     b_replyto r = empty_eid \<and> b_custodian r = empty_eid \<and> \<not> receipt_requested r"

lemma new_bundle_blank: "blank_bundle (new_bundle now bid pl)"
  by (simp add: blank_bundle_def new_bundle_def recv_dict_def empty_biv_def receipt_requested_def Let_def)

lemma ucast_u32_u64: "(ucast (ucast (x :: u32) :: u64) :: u32) = x"
proof -
  have "unat x < 2 ^ 32" using unsigned_less [of x] by simp
  then show ?thesis by (simp add: word_unat_eq_iff unsigned_ucast_eq take_bit_word_eq_self)
qed

lemma ucast_u32_small: "\<not> (ucast (x :: u32) :: u64) > 0xffffffff"
proof -
  have "unat x < 2 ^ 32" using unsigned_less [of x] by simp
  then show ?thesis by (simp add: word_less_nat_alt unsigned_ucast_eq take_bit_eq_mod)
qed

lemma sdnv_take_bytes [simp]: "sdnv_take (sdnv_bytes v @ r) = Some (v, r)" "sdnv_take (sdnv_bytes v) = Some (v, [])"
  using sdnv.dec_enc sdnv.dec_enc_exact by simp_all

lemma read_fragment_fields:
  assumes "b_is_fragment r = b_is_fragment b"
  shows "read_fragment (concat (map sdnv_bytes (fragment_fields b))) r =
    (True, r\<lparr>b_frag_offset := (if b_is_fragment b then b_frag_offset b else b_frag_offset r),
             b_orig_length := (if b_is_fragment b then b_orig_length b else b_orig_length r)\<rparr>)"
  using assms by (auto simp: read_fragment_def fragment_fields_def ucast_u32_u64 ucast_u32_small Let_def)

lemma last_dict_bytes: "ss \<noteq> [] \<Longrightarrow> last (dict_bytes ss) = 0"
proof (induction ss)
  case (Cons s ss)
  then show ?case by (cases ss) auto
qed simp

lemma dict_ends_with_NUL:
  assumes "dict_inv d" and "get_offset d s = Done (True, n)"
  shows "d_bytes d \<noteq> [] \<and> last (d_bytes d) = 0"
proof -
  obtain ss where ss: "dict_strings d ss" using assms(1) by (auto simp: dict_inv_def)
  then have "ss \<noteq> []" using assms(2) by (auto simp: get_offset_eq)
  then show ?thesis using ss last_dict_bytes [of ss] by (cases ss) (auto simp: dict_strings_def)
qed


lemma read_dictionary_image:
  assumes inv: "dict_inv d" and len: "length (d_bytes d) < 2 ^ 32"
    and at: "eid_at d (b_dest b) (ds, dp)" "eid_at d (b_source b) (ss, sp)" "eid_at d (b_replyto b) (rs, rp)"
      "eid_at d (b_custodian b) (cs, cp)"
    and tx: "list_all eid_text_ok [b_dest b, b_source b, b_replyto b, b_custodian b]"
    and r: "recv_dict r = empty_dictionary" "b_source r = empty_eid" "b_dest r = empty_eid" "b_replyto r = empty_eid"
      "b_custodian r = empty_eid" "b_is_fragment r = b_is_fragment b"
    and rest: "rest = d_bytes d @ concat (map sdnv_bytes (fragment_fields b))"
    and vs: "vs = [of_nat ds, of_nat dp, of_nat ss, of_nat sp, of_nat rs, of_nat rp, of_nat cs, of_nat cp, t1, t2, ex,
      of_nat (length (d_bytes d))]"
  shows "read_dictionary (front @ rest) rest vs r =
    Done (True, (set_recv_dict (received_dict d) r)
      \<lparr>b_source := eid_over_wire (b_source b), b_dest := eid_over_wire (b_dest b),
       b_replyto := eid_over_wire (b_replyto b), b_custodian := eid_over_wire (b_custodian b),
       b_frag_offset := (if b_is_fragment b then b_frag_offset b else b_frag_offset r),
       b_orig_length := (if b_is_fragment b then b_orig_length b else b_orig_length r)\<rparr>)"
proof -
  have dl: "unat (of_nat (length (d_bytes d)) :: u64) = length (d_bytes d)"
    using len by (intro u64_of_nat) simp
  have nul: "d_bytes d \<noteq> []" "last (d_bytes d) = 0"
    using dict_ends_with_NUL [OF inv] at(1) by (auto simp: eid_at_def)
  have "(front @ rest) ! (length (front @ rest) - length rest + length (d_bytes d) - 1) = last (d_bytes d)"
  proof -
    obtain k where k: "length (d_bytes d) = Suc k" using nul(1) by (cases "d_bytes d") auto
    then have "(front @ rest) ! (length front + k) = d_bytes d ! k" unfolding nth_append_length_plus by (simp add: rest nth_append)
    then show ?thesis using k nul(1) by (simp add: last_conv_nth)
  qed
  then have ends: "(front @ rest) ! (length (front @ rest) - length rest + length (d_bytes d) - 1) = 0"
    using nul(2) by simp
  have v11: "unat (vs ! 11) = length (d_bytes d)" using dl by (simp add: vs)
  have take: "take (length (d_bytes d)) rest = d_bytes d" "drop (length (d_bytes d)) rest = concat (map sdnv_bytes (fragment_fields b))"
    by (simp_all add: rest)
  have dict: "set_dict (d_bytes d) (recv_dict r) = Done (received_dict d)" by (simp add: r set_dict_empty)
  have off: "vs ! 0 = of_nat ds" "vs ! 1 = of_nat dp" "vs ! 2 = of_nat ss" "vs ! 3 = of_nat sp"
    "vs ! 4 = of_nat rs" "vs ! 5 = of_nat rp" "vs ! 6 = of_nat cs" "vs ! 7 = of_nat cp" by (simp_all add: vs)
  have ex: "extract_eid64 (received_dict d) (vs ! 2) (vs ! 3) (b_source r) = Done (eid_valid (eid_over_wire (b_source b)), eid_over_wire (b_source b))"
    "extract_eid64 (received_dict d) (vs ! 0) (vs ! 1) (b_dest r) = Done (eid_valid (eid_over_wire (b_dest b)), eid_over_wire (b_dest b))"
    "extract_eid64 (received_dict d) (vs ! 4) (vs ! 5) (b_replyto r) = Done (eid_valid (eid_over_wire (b_replyto b)), eid_over_wire (b_replyto b))"
    "extract_eid64 (received_dict d) (vs ! 6) (vs ! 7) (b_custodian r) = Done (eid_valid (eid_over_wire (b_custodian b)), eid_over_wire (b_custodian b))"
    unfolding off r using extract_wire [OF inv len] at tx by simp_all
  have enough: "\<not> length rest < length (d_bytes d)" by (simp add: rest)
  show ?thesis
    unfolding read_dictionary_def Let_def v11 ends take dict bind_outcome.simps ex prod.case
    using enough r(6) by (simp add: read_fragment_fields set_recv_dict_def)
qed

lemma parse_primary_image:
  assumes inv: "dict_inv d"
    and at: "eid_at d (b_dest b) (ds, dp)" "eid_at d (b_source b) (ss, sp)" "eid_at d (b_replyto b) (rs, rp)"
      "eid_at d (b_custodian b) (cs, cp)"
    and tx: "list_all eid_text_ok [b_dest b, b_source b, b_replyto b, b_custodian b]"
    and vs: "primary_fields b d = Done vs" and body: "body = primary_body b d vs"
    and pre: "pre = preamble_bytes CURRENT_VERSION (primary_flags b) (length body)" and len: "length pre + length body < 2 ^ 32"
    and r: "blank_bundle r"
    and block: "bi_contents block = pre @ body" "bi_data_length block = of_nat (length body)"
      "bi_data_offset block = of_nat (length pre)"
  shows "parse_primary block r = Done (True, with_primary_of b d r)"
proof -
  let ?f = "concat (map sdnv_bytes (fragment_fields b))"
  have vs': "vs = [of_nat ds, of_nat dp, of_nat ss, of_nat sp, of_nat rs, of_nat rp, of_nat cs, of_nat cp,
      ts_seconds (b_creation_ts b), ts_seqno (b_creation_ts b), b_expiration b, of_nat (length (d_bytes d))]"
    using vs by (simp add: primary_fields_def at [THEN eid_at_offsets])
  have body': "body = concat (map sdnv_bytes vs) @ (d_bytes d @ ?f)" by (simp add: body primary_body_def)
  have contents: "bi_contents block = CURRENT_VERSION # sdnv_bytes (primary_flags b) @ sdnv_bytes (of_nat (length body)) @ body"
    by (simp add: block(1) pre preamble_bytes_def)
  have fl: "unat (full_length block) = length (bi_contents block)"
    using len by (intro trans [OF full_length_eq [of block "length pre + length body"]])
      (simp_all add: full_length_def block)
  have dlen: "unat (bi_data_length block) = length body"
    unfolding block(2) by (rule u32_of_nat) (use len in simp)
  have items: "take_items sdnv_take 12 body = Some (vs, d_bytes d @ ?f)"
  proof -
    have "length vs = 12" "list_all (\<lambda>_. True) vs" by (simp_all add: vs' list_all_iff)
    then show ?thesis using sdnv.take_items_enc [of vs "d_bytes d @ ?f"] unfolding body' by metis
  qed
  define r1 where "r1 = parse_srr_flags (primary_flags b) (parse_cos_flags (primary_flags b) (parse_bundle_flags (primary_flags b) r))"
  have r1: "r1 = r\<lparr>b_is_fragment := b_is_fragment b, b_is_admin := b_is_admin b, b_do_not_fragment := b_do_not_fragment b,
      b_custody_requested := b_custody_requested b, b_singleton_dest := b_singleton_dest b,
      b_app_acked_rcpt := b_app_acked_rcpt b, b_priority := b_priority b AND 3,
      b_receive_rcpt := b_receive_rcpt b, b_custody_rcpt := b_custody_rcpt b, b_forward_rcpt := b_forward_rcpt b,
      b_delivery_rcpt := b_delivery_rcpt b, b_deletion_rcpt := b_deletion_rcpt b\<rparr>"
    unfolding r1_def parse_primary_flags using r by (simp add: blank_bundle_def receipt_requested_def)
  define r2 where "r2 = r1\<lparr>b_creation_ts := BundleTimestamp (vs ! 8) (vs ! 9), b_expiration := vs ! 10\<rparr>"
  have front: "bi_contents block = (pre @ concat (map sdnv_bytes vs)) @ (d_bytes d @ ?f)"
    by (simp add: block(1) body')
  have blank: "recv_dict r2 = empty_dictionary" "b_source r2 = empty_eid" "b_dest r2 = empty_eid" "b_replyto r2 = empty_eid"
      "b_custodian r2 = empty_eid" "b_is_fragment r2 = b_is_fragment b"
    using r by (simp_all add: r2_def r1 blank_bundle_def recv_dict_def)
  have dl: "length (d_bytes d) < 2 ^ 32" using len by (simp add: body')
  have rd: "read_dictionary (bi_contents block) (d_bytes d @ ?f) vs r2 = Done (True, with_primary_of b d r)"
  proof -
    have "set_recv_dict (received_dict d) r2 = r2\<lparr>b_recv_blocks := (b_recv_blocks r)\<lparr>biv_dict := received_dict d\<rparr>\<rparr>"
      by (simp add: set_recv_dict_def r2_def r1)
    then show ?thesis
      unfolding front by (subst read_dictionary_image [OF inv dl at tx blank refl vs'])
        (simp add: with_primary_of_def set_recv_dict_def r2_def r1 vs')
  qed
  show ?thesis
    unfolding parse_primary_def Let_def fl
    using dlen items rd by (simp add: contents r1_def [symmetric] r2_def [symmetric])
qed

end
