(* ===== verification/Block_Processors.thy ===== *)
theory Block_Processors
  imports Primary_Block
begin

text \<open>
  The block processors beside the primary one (\<open>PayloadBlockProcessor.cc\<close>,
  \<open>UnknownBlockProcessor.cc\<close>, \<open>PreviousHopBlockProcessor.cc\<close>, \<open>SessionBlockProcessor.cc\<close>,
  \<open>SequenceIDBlockProcessor.cc\<close>, \<open>MetadataBlockProcessor.cc\<close>, \<open>APIBlockProcessor.cc\<close>): what
  each does with arriving data, with a received block and with a block to send. A virtual
  call is a function of the owner of the block. A read behind the bytes of a block is
  \<open>Panic\<close>, like a failed assertion.
\<close>

section \<open>Consuming\<close>

text \<open>The data of a block, behind the preamble.\<close>

definition bi_data :: "block_info \<Rightarrow> byte list" where
  "bi_data block = drop (unat (bi_data_offset block)) (bi_contents block)"

text \<open>
  The common shape: the default \<open>consume\<close> first, and the rest only for a complete block. The
  continuation says whether the block is accepted.
\<close>

definition consume_then ::
    "(block_info \<Rightarrow> dtn_bundle \<Rightarrow> (bool \<times> dtn_bundle \<times> block_info) outcome) \<Rightarrow>
     dtn_bundle \<Rightarrow> block_info \<Rightarrow> byte list \<Rightarrow> (int \<times> dtn_bundle \<times> block_info) outcome" where
  "consume_then k b block buf =
     bind_outcome (bp_consume (recv_dict b) block buf) (\<lambda>(cc, block').
       if cc = -1 then Done (-1, b, block')
       else if \<not> bi_complete block' then assert_that (cc = int (length buf)) (Done (cc, b, block'))
       else bind_outcome (k block' b) (\<lambda>(ok, b', block''). Done (if ok then cc else -1, b', block'')))"

definition unknown_consume :: "dtn_bundle \<Rightarrow> block_info \<Rightarrow> byte list \<Rightarrow> (int \<times> dtn_bundle \<times> block_info) outcome" where
  "unknown_consume b block buf =
     bind_outcome (bp_consume (recv_dict b) block buf) (\<lambda>(cc, block'). Done (cc, b, block'))"

text \<open>The payload is not kept in the block but written to the payload of the bundle.\<close>

definition payload_store ::
    "dtn_bundle \<Rightarrow> block_info \<Rightarrow> byte list \<Rightarrow> nat \<Rightarrow> (int \<times> dtn_bundle \<times> block_info) outcome" where
  "payload_store b block buf consumed =
     (if bi_data_offset block = 0 then assert_that (buf = []) (Done (int consumed, b, block))
      else if pl_location (b_payload b) = NODATA then Done (int consumed, b, block\<lparr>bi_complete := True\<rparr>)
      else if bi_data_length block = 0 then Done (int consumed, b, block\<lparr>bi_complete := True\<rparr>)
      else if buf = [] then Done (int consumed, b, block)
      else assert_that (length (bi_contents block) = unat (bi_data_offset block))
       (assert_that (unat (bi_data_length block) > pl_length (b_payload b))
         (let rcvd = pl_length (b_payload b); remainder = unat (bi_data_length block) - rcvd;
              (block', tocopy) = (if length buf \<ge> remainder then (block\<lparr>bi_complete := True\<rparr>, remainder)
                                  else (block, length buf))
          in bind_outcome (write_data (take tocopy buf) rcvd (pl_set_length (rcvd + tocopy) (b_payload b)))
               (\<lambda>pl. Done (int (consumed + tocopy), b\<lparr>b_payload := pl\<rparr>, block')))))"

definition payload_consume :: "dtn_bundle \<Rightarrow> block_info \<Rightarrow> byte list \<Rightarrow> (int \<times> dtn_bundle \<times> block_info) outcome" where
  "payload_consume b block buf =
     (if bi_data_offset block = 0
      then bind_outcome (consume_preamble (recv_dict b) block buf) (\<lambda>(cc, block').
             if cc = -1 then Done (-1, b, block')
             else assert_that (pl_length (b_payload b) = 0) (payload_store b block' (drop (nat cc) buf) (nat cc)))
      else payload_store b block buf 0)"

definition previous_hop_parse :: "block_info \<Rightarrow> dtn_bundle \<Rightarrow> (bool \<times> dtn_bundle \<times> block_info) outcome" where
  "previous_hop_parse block b =
     assert_that (unat (bi_data_length block) \<le> length (bi_data block))
      (bind_outcome (eid_assign (map char_of_byte (take (unat (bi_data_length block)) (bi_data block))) (b_prevhop b))
        (\<lambda>e. Done (eid_valid e, b\<lparr>b_prevhop := e\<rparr>, block)))"

definition session_parse :: "block_info \<Rightarrow> dtn_bundle \<Rightarrow> (bool \<times> dtn_bundle \<times> block_info) outcome" where
  "session_parse block b =
     (case bi_eid_list block of
        [eid] \<Rightarrow> (case bi_data block of
                    [] \<Rightarrow> Panic
                  | flags # _ \<Rightarrow> Done (True, b\<lparr>b_session_eid := eid, b_session_flags := flags\<rparr>, block))
      | _ \<Rightarrow> Done (False, b, block))"

text \<open>
  The loop over the entries of a sequence or obsoletes identifier, one for each EID: whether
  all could be read, and the vector with those that were. The length of an identifier is not
  checked against what is left of the block.
\<close>

fun read_entries :: "endpoint_id list \<Rightarrow> byte list \<Rightarrow> sequence_id \<Rightarrow> (bool \<times> sequence_id) outcome" where
  "read_entries [] bp s = Done (True, s)"
| "read_entries (eid # eids) bp s =
     (case bp of
        [] \<Rightarrow> Panic
      | ty # rest \<Rightarrow>
          if ty = 1 then
            (case sdnv_decode rest of (n, counter) \<Rightarrow>
               if n = -1 then Done (False, s)
               else read_entries eids (drop (nat n) rest) (add_counter s (eid_str eid) counter))
          else if ty = 2 then
            (case sdnv_decode rest of (n, id_len) \<Rightarrow>
               if n = -1 then Done (False, s)
               else let rest' = drop (nat n) rest
                    in assert_that (unat id_len \<le> length rest')
                         (read_entries eids (drop (unat id_len) rest')
                           (add_identifier s (eid_str eid) (map char_of_byte (take (unat id_len) rest')))))
          else Done (False, s))"

definition sequence_parse :: "bool \<Rightarrow> block_info \<Rightarrow> dtn_bundle \<Rightarrow> (bool \<times> dtn_bundle \<times> block_info) outcome" where
  "sequence_parse obsoletes block b =
     (if bi_eid_list block = [] then Done (False, b, block)
      else bind_outcome
             (read_entries (bi_eid_list block) (bi_data block) (if obsoletes then b_obsoletes_id b else b_sequence_id b))
             (\<lambda>(ok, s). Done (ok, (if obsoletes then b\<lparr>b_obsoletes_id := s\<rparr> else b\<lparr>b_sequence_id := s\<rparr>), block)))"

text \<open>\<open>parse_metadata\<close>; its result is ignored by \<open>consume\<close>.\<close>

definition metadata_parse :: "block_info \<Rightarrow> dtn_bundle \<Rightarrow> (bool \<times> dtn_bundle \<times> block_info) outcome" where
  "metadata_parse block b =
     bind_outcome (bi_type block) (\<lambda>ty.
       assert_that (bi_owner block = MetadataBP \<and> ty = 8 \<and> bi_complete block \<and> bi_data_offset block > 0)
        (bind_outcome (parse_metadata_data (take (unat (bi_data_length block)) (bi_data block)) received_metadata)
          (\<lambda>m. let i = length (b_metadata b)
               in Done (True, b\<lparr>b_metadata := b_metadata b @ [m], b_recv_metadata := b_recv_metadata b @ [i]\<rparr>,
                        block\<lparr>bi_locals := Some i\<rparr>))))"

fun processor_consume ::
    "processor \<Rightarrow> dtn_bundle \<Rightarrow> block_info \<Rightarrow> byte list \<Rightarrow> (int \<times> dtn_bundle \<times> block_info) outcome" where
  "processor_consume PrimaryBP = primary_consume"
| "processor_consume PayloadBP = payload_consume"
| "processor_consume PreviousHopBP = consume_then previous_hop_parse"
| "processor_consume MetadataBP = consume_then metadata_parse"
| "processor_consume SessionBP = consume_then session_parse"
| "processor_consume SequenceIDBP = consume_then (sequence_parse False)"
| "processor_consume ObsoletesIDBP = consume_then (sequence_parse True)"
| "processor_consume APIBlockBP = (\<lambda>b block buf. Done (-1, b, block))"
| "processor_consume UnknownBP = unknown_consume"

section \<open>Checking\<close>

text \<open>
  The reasons a check may set: whether the reception reason becomes
  \<open>REASON_BLOCK_UNINTELLIGIBLE\<close>, and whether the bundle is kept; a bundle that is not kept
  has that reason for its deletion.
\<close>

definition payload_validate :: "dtn_bundle \<Rightarrow> block_info \<Rightarrow> bool outcome" where
  "payload_validate b block =
     bind_outcome (bp_validate (b_is_admin b) block) (\<lambda>ok.
       if \<not> ok then Done False
       else if \<not> bi_complete block \<and>
         (bi_data_offset block = 0 \<or> (bi_data_length block \<noteq> 0 \<and> pl_length (b_payload b) = 0) \<or> b_do_not_fragment b)
       then Done False
       else Done True)"

definition error_flags :: "block_info \<Rightarrow> (bool \<times> bool) outcome" where
  "error_flags block =
     bind_outcome (bi_flags block)
       (\<lambda>flags. Done (flags AND BLOCK_FLAG_REPORT_ONERROR \<noteq> 0, flags AND BLOCK_FLAG_DISCARD_BUNDLE_ONERROR = 0))"

definition unknown_validate :: "dtn_bundle \<Rightarrow> block_info \<Rightarrow> (bool \<times> bool) outcome" where
  "unknown_validate b block =
     bind_outcome (bp_validate (b_is_admin b) block) (\<lambda>ok. if \<not> ok then Done (False, False) else error_flags block)"

text \<open>The metadata object of the block is looked up, and marked when the default check fails.\<close>

definition metadata_validate :: "dtn_bundle \<Rightarrow> block_info \<Rightarrow> (bool \<times> bool \<times> dtn_bundle) outcome" where
  "metadata_validate b block =
     bind_outcome (bi_type block) (\<lambda>ty.
       assert_that (bi_owner block = MetadataBP \<and> ty = 8)
        (case bi_locals block of
           None \<Rightarrow> Panic
         | Some i \<Rightarrow>
             assert_that (i < length (b_metadata b))
              (if md_error (b_metadata b ! i)
               then bind_outcome (error_flags block) (\<lambda>(report, keep). Done (report, keep, b))
               else bind_outcome (bp_validate (b_is_admin b) block)
                 (\<lambda>ok. Done (False, ok,
                    if ok then b
                    else b\<lparr>b_metadata := (b_metadata b)[i := (b_metadata b ! i)\<lparr>md_error := True\<rparr>]\<rparr>)))))"

definition processor_validate :: "dtn_bundle \<Rightarrow> block_info \<Rightarrow> (bool \<times> bool \<times> dtn_bundle) outcome" where
  "processor_validate b block =
     (case bi_owner block of
        PrimaryBP \<Rightarrow> bind_outcome (primary_validate b) (\<lambda>ok. Done (False, ok, b))
      | PayloadBP \<Rightarrow> bind_outcome (payload_validate b block) (\<lambda>ok. Done (False, ok, b))
      | UnknownBP \<Rightarrow> bind_outcome (unknown_validate b block) (\<lambda>(report, ok). Done (report, ok, b))
      | MetadataBP \<Rightarrow> metadata_validate b block
      | _ \<Rightarrow> bind_outcome (bp_validate (b_is_admin b) block) (\<lambda>ok. Done (False, ok, b)))"

end
