(* ===== verification/Block_Output.thy ===== *)
theory Block_Output
  imports Block_Processors
begin

text \<open>
  What the block processors do for a bundle that is sent: \<open>prepare\<close> decides whether a block is
  in the list for the link, \<open>generate\<close> fills it in, \<open>finalize\<close> checks it and \<open>produce\<close> copies
  out a part of it. The link is described by what the processors ask about it.
\<close>

record xmit_env =
  env_link :: link_id
  env_prevhop_hdr :: bool
  env_local_eid :: string

text \<open>The block behind the \<open>source_\<close> pointer.\<close>

definition source_block :: "dtn_bundle \<Rightarrow> source_ref option \<Rightarrow> block_info option" where
  "source_block b r =
     (case r of
        None \<Rightarrow> None
      | Some (ReceivedBlock i) \<Rightarrow> if i < length (biv_blocks (b_recv_blocks b)) then Some (biv_blocks (b_recv_blocks b) ! i) else None
      | Some (APIBlock i) \<Rightarrow> if i < length (biv_blocks (b_api_blocks b)) then Some (biv_blocks (b_api_blocks b) ! i) else None)"

section \<open>Preparing\<close>

text \<open>The lists a block can come from, as far as the processors distinguish them.\<close>

datatype list_owner = LIST_NONE | LIST_RECEIVED | LIST_API

text \<open>\<open>prepare\<close> of each processor; a block that is left out leaves the list as it is.\<close>

definition unknown_prepare ::
    "dtn_bundle \<Rightarrow> source_ref option \<Rightarrow> list_owner \<Rightarrow> block_info_vec \<Rightarrow> block_info_vec outcome" where
  "unknown_prepare b source lst xmit =
     (case source_block b source of
        None \<Rightarrow> Panic
      | Some src \<Rightarrow>
          assert_that (bi_owner src = UnknownBP)
           (bind_outcome (bi_flags src) (\<lambda>flags.
             if flags AND BLOCK_FLAG_DISCARD_BLOCK_ONERROR \<noteq> 0 then Done xmit
             else bind_outcome (bi_type src) (\<lambda>ty.
               if ty = 2 then Done xmit else bp_prepare UnknownBP source (lst = LIST_RECEIVED) xmit))))"

definition metadata_prepare ::
    "dtn_bundle \<Rightarrow> xmit_env \<Rightarrow> source_ref option \<Rightarrow> list_owner \<Rightarrow> block_info_vec \<Rightarrow> block_info_vec outcome" where
  "metadata_prepare b env source lst xmit =
     (if source = None then Done xmit
      else case source_block b source of
        None \<Rightarrow> Panic
      | Some src \<Rightarrow>
          bind_outcome (bi_type src) (\<lambda>ty.
            assert_that (bi_owner src = MetadataBP \<and> ty = 8)
             (case bi_locals src of
                None \<Rightarrow> Done xmit
              | Some i \<Rightarrow>
                  assert_that (i < length (b_metadata b))
                   (bind_outcome (if md_error (b_metadata b ! i) then bi_flags src else Done 0) (\<lambda>flags.
                      if flags AND BLOCK_FLAG_DISCARD_BLOCK_ONERROR \<noteq> 0 then Done xmit
                      else if metadata_removed (env_link env) (b_metadata b ! i) then Done xmit
                      else bp_prepare MetadataBP source (lst = LIST_RECEIVED) xmit)))))"

definition session_prepare ::
    "dtn_bundle \<Rightarrow> source_ref option \<Rightarrow> list_owner \<Rightarrow> block_info_vec \<Rightarrow> block_info_vec outcome" where
  "session_prepare b source lst xmit =
     (if eid_str (b_session_eid b) = [] then Done xmit
      else bind_outcome NULL_EID (\<lambda>null.
        assert_that (\<not> eid_equals (b_session_eid b) null) (bp_prepare SessionBP source (lst = LIST_RECEIVED) xmit)))"

definition processor_prepare ::
    "processor \<Rightarrow> dtn_bundle \<Rightarrow> xmit_env \<Rightarrow> source_ref option \<Rightarrow> list_owner \<Rightarrow> block_info_vec \<Rightarrow> block_info_vec outcome" where
  "processor_prepare owner b env source lst xmit =
     (case owner of
        PrimaryBP \<Rightarrow> primary_prepare b source xmit
      | PreviousHopBP \<Rightarrow>
          if env_link env = None \<or> \<not> env_prevhop_hdr env then Done xmit
          else bp_prepare PreviousHopBP source (lst = LIST_RECEIVED) xmit
      | SessionBP \<Rightarrow> session_prepare b source lst xmit
      | SequenceIDBP \<Rightarrow>
          if b_sequence_id b = [] then Done xmit else bp_prepare SequenceIDBP source (lst = LIST_RECEIVED) xmit
      | ObsoletesIDBP \<Rightarrow>
          if b_obsoletes_id b = [] then Done xmit else bp_prepare ObsoletesIDBP source (lst = LIST_RECEIVED) xmit
      | MetadataBP \<Rightarrow> metadata_prepare b env source lst xmit
      | UnknownBP \<Rightarrow> unknown_prepare b source lst xmit
      | PayloadBP \<Rightarrow> bp_prepare PayloadBP source (lst = LIST_RECEIVED) xmit
      | APIBlockBP \<Rightarrow> bp_prepare APIBlockBP source (lst = LIST_RECEIVED) xmit)"

section \<open>Generating\<close>

definition last_flag :: "bool \<Rightarrow> byte \<Rightarrow> byte" where
  "last_flag last' flags = (if last' then flags OR 0x08 else flags)"

text \<open>The contents behind the preamble: room is reserved, the length set, the data copied.\<close>

definition put_data :: "byte list \<Rightarrow> block_info \<Rightarrow> block_info" where
  "put_data bs block =
     (let n = unat (bi_data_offset block) + length bs
      in (reserve n block)\<lparr>bi_contents := take (unat (bi_data_offset block)) (bi_contents block) @ bs\<rparr>)"

text \<open>
  The flags of a block that is passed on: the 64-bit flags of the source are cut to 8 bits.
\<close>

definition forwarded_flags :: "bool \<Rightarrow> u64 \<Rightarrow> byte" where
  "forwarded_flags last' flags = (if last' then ucast flags OR 0x08 else ucast flags AND NOT 0x08)"

definition unknown_generate ::
    "dtn_bundle \<Rightarrow> dictionary \<Rightarrow> block_info \<Rightarrow> bool \<Rightarrow> (dictionary \<times> block_info) outcome" where
  "unknown_generate b d block last' =
     (case source_block b (bi_source block) of
        None \<Rightarrow> Panic
      | Some src \<Rightarrow>
          assert_that (bi_owner src = UnknownBP)
           (bind_outcome (bi_flags src) (\<lambda>flags.
             assert_that (flags AND BLOCK_FLAG_DISCARD_BUNDLE_ONERROR = 0)
              (assert_that (flags AND BLOCK_FLAG_DISCARD_BLOCK_ONERROR = 0)
                (assert_that (bi_contents src \<noteq> []) (assert_that (bi_data_offset src \<noteq> 0)
                  (bind_outcome (bi_type src) (\<lambda>ty.
                   bind_outcome
                    (generate_preamble d (block\<lparr>bi_eid_list := bi_eid_list src\<rparr>) (of_nat ty)
                      (ucast (forwarded_flags last' flags OR 0x20)) (ucast (bi_data_length src)))
                    (\<lambda>(d', b1). assert_that (bi_data_length b1 = bi_data_length src)
                      (assert_that (unat (bi_data_length src) \<le> length (bi_data src))
                        (Done (d', put_data (take (unat (bi_data_length src)) (bi_data src)) b1))))))))))))"

definition previous_hop_generate ::
    "xmit_env \<Rightarrow> dictionary \<Rightarrow> block_info \<Rightarrow> bool \<Rightarrow> (dictionary \<times> block_info) outcome" where
  "previous_hop_generate env d block last' =
     assert_that (env_prevhop_hdr env)
      (bind_outcome
        (generate_preamble d block 0x05 (ucast (last_flag last' 0x04)) (of_nat (length (env_local_eid env))))
        (\<lambda>(d', b1). Done (d', put_data (map byte_of_char (env_local_eid env)) b1)))"

definition session_generate ::
    "dtn_bundle \<Rightarrow> dictionary \<Rightarrow> block_info \<Rightarrow> bool \<Rightarrow> (dictionary \<times> block_info) outcome" where
  "session_generate b d block last' =
     assert_that (eid_str (b_session_eid b) \<noteq> [])
      (bind_outcome
        (generate_preamble d (block\<lparr>bi_eid_list := bi_eid_list block @ [b_session_eid b]\<rparr>) 0x09
          (ucast (last_flag last' 0x06)) 1)
        (\<lambda>(d', b1). Done (d', put_data [b_session_flags b] b1)))"

text \<open>
  The entries of a sequence identifier on the wire. The identifiers of the model are the
  texts of endpoint identifiers, which are parsed again for the dictionary.
\<close>

fun entry_bytes :: "entry list \<Rightarrow> byte list outcome" where
  "entry_bytes [] = Done []"
| "entry_bytes (e # es) =
     bind_outcome
      (case ent_type e of
         COUNTER \<Rightarrow> Done (1 # sdnv_bytes (ent_counter e))
       | IDENTIFIER \<Rightarrow>
           Done (2 # sdnv_bytes (of_nat (length (ent_identifier e))) @ map byte_of_char (ent_identifier e))
       | EMPTY \<Rightarrow> Panic)
      (\<lambda>bs. bind_outcome (entry_bytes es) (\<lambda>cs. Done (bs @ cs)))"

definition sequence_generate ::
    "bool \<Rightarrow> dtn_bundle \<Rightarrow> dictionary \<Rightarrow> block_info \<Rightarrow> bool \<Rightarrow> (dictionary \<times> block_info) outcome" where
  "sequence_generate obsoletes b d block last' =
     (let s = (if obsoletes then b_obsoletes_id b else b_sequence_id b)
      in bind_outcome (fold_outcome (\<lambda>e es. bind_outcome (make_eid (ent_eid e)) (\<lambda>eid. Done (es @ [eid]))) s (bi_eid_list block))
          (\<lambda>eids. bind_outcome (entry_bytes s) (\<lambda>bs.
             bind_outcome
              (generate_preamble d (block\<lparr>bi_eid_list := eids\<rparr>) (if obsoletes then 0x11 else 0x10)
                (ucast (last_flag last' 0x01)) (of_nat (length bs)))
              (\<lambda>(d', b1). Done (d', put_data bs b1)))))"

text \<open>
  A received metadata block that has not been modified is copied; the bytes are taken from
  the source at the data offset of the new block.
\<close>

definition metadata_generate ::
    "dtn_bundle \<Rightarrow> xmit_env \<Rightarrow> dictionary \<Rightarrow> block_info \<Rightarrow> bool \<Rightarrow> (dictionary \<times> block_info) outcome" where
  "metadata_generate b env d block last' =
     assert_that (bi_owner block = MetadataBP)
      (case (source_block b (bi_source block), bi_locals block) of
         (Some src, None) \<Rightarrow>
           (case bi_locals src of
              None \<Rightarrow> Panic
            | Some i \<Rightarrow>
                assert_that (i < length (b_metadata b) \<and> bi_owner src = MetadataBP)
                 (bind_outcome (bi_flags src) (\<lambda>flags.
                   assert_that (md_error (b_metadata b ! i) \<longrightarrow>
                       flags AND BLOCK_FLAG_DISCARD_BUNDLE_ONERROR = 0 \<and> flags AND BLOCK_FLAG_DISCARD_BLOCK_ONERROR = 0)
                    (case metadata_modified (env_link env) (b_metadata b ! i) of
                       None \<Rightarrow>
                         bind_outcome
                          (generate_preamble d block 0x08 (ucast (forwarded_flags last' flags)) (ucast (bi_data_length src)))
                          (\<lambda>(d', b1).
                             let off = unat (bi_data_offset b1)
                             in assert_that (off + unat (bi_data_length b1) \<le> length (bi_contents src))
                                 (Done (d', put_data (take (unat (bi_data_length b1)) (drop off (bi_contents src))) b1)))
                     | Some buf \<Rightarrow>
                         bind_outcome (sdnv_encoding_len (md_ontology (b_metadata b ! i))) (\<lambda>ol.
                         bind_outcome (sdnv_encoding_len (of_nat (length buf))) (\<lambda>ll.
                         bind_outcome
                          (generate_preamble d block 0x08 (ucast (forwarded_flags last' flags)) (of_nat (ol + ll + length buf)))
                          (\<lambda>(d', b1). bind_outcome (generate_metadata_data (md_ontology (b_metadata b ! i)) buf b1)
                             (\<lambda>b2. Done (d', b2)))))))))
       | (None, Some i) \<Rightarrow>
           assert_that (i < length (b_metadata b))
            (let m = b_metadata b ! i
             in bind_outcome (sdnv_encoding_len (md_ontology m)) (\<lambda>ol.
                bind_outcome (sdnv_encoding_len (of_nat (length (md_data m)))) (\<lambda>ll.
                bind_outcome
                  (generate_preamble d block 0x08 (ucast (forwarded_flags last' (md_flags m)))
                    (of_nat (ol + ll + length (md_data m))))
                  (\<lambda>(d', b1). bind_outcome (generate_metadata_data (md_ontology m) (md_data m) b1)
                     (\<lambda>b2. Done (d', b2))))))
       | _ \<Rightarrow> Panic)"

definition api_generate ::
    "dtn_bundle \<Rightarrow> dictionary \<Rightarrow> block_info \<Rightarrow> bool \<Rightarrow> (dictionary \<times> block_info) outcome" where
  "api_generate b d block last' =
     (case source_block b (bi_source block) of
        None \<Rightarrow> Panic
      | Some src \<Rightarrow>
          assert_that (bi_owner src = APIBlockBP) (assert_that (bi_contents src \<noteq> []) (assert_that (bi_data_offset src \<noteq> 0)
           (bind_outcome (bi_flags src) (\<lambda>flags.
            bind_outcome (bi_type src) (\<lambda>ty.
            bind_outcome
              (generate_preamble d block (of_nat ty) (ucast (forwarded_flags last' flags)) (ucast (bi_data_length src)))
              (\<lambda>(d', b1). assert_that (bi_data_offset b1 = bi_data_offset src) (assert_that (bi_data_length b1 = bi_data_length src)
                (assert_that (unat (bi_data_length src) \<le> length (bi_data src))
                  (Done (d', put_data (take (unat (bi_data_length src)) (bi_data src)) b1)))))))))))"

definition processor_generate ::
    "dtn_bundle \<Rightarrow> xmit_env \<Rightarrow> dictionary \<Rightarrow> block_info \<Rightarrow> bool \<Rightarrow> (dictionary \<times> block_info) outcome" where
  "processor_generate b env d block last' =
     (case bi_owner block of
        PrimaryBP \<Rightarrow> bind_outcome (primary_generate last') (\<lambda>_. Done (d, block))
      | PayloadBP \<Rightarrow>
          generate_preamble d block 0x01 (if last' then BLOCK_FLAG_LAST_BLOCK else 0) (of_nat (pl_length (b_payload b)))
      | PreviousHopBP \<Rightarrow> previous_hop_generate env d block last'
      | SessionBP \<Rightarrow> session_generate b d block last'
      | SequenceIDBP \<Rightarrow> sequence_generate False b d block last'
      | ObsoletesIDBP \<Rightarrow> sequence_generate True b d block last'
      | MetadataBP \<Rightarrow> metadata_generate b env d block last'
      | UnknownBP \<Rightarrow> unknown_generate b d block last'
      | APIBlockBP \<Rightarrow> api_generate b d block last')"

section \<open>Producing\<close>

text \<open>
  The bytes of a block from an offset on. Reading the payload moves the descriptor, so the
  bundle is part of the result. The subtraction of the offset from the length of the payload
  wraps around when the offset is behind its end.
\<close>

definition payload_produce :: "dtn_bundle \<Rightarrow> block_info \<Rightarrow> nat \<Rightarrow> nat \<Rightarrow> (byte list \<times> dtn_bundle) outcome" where
  "payload_produce b block offset len =
     (let data_offset = unat (bi_data_offset block);
          head = (if offset < data_offset then min len (data_offset - offset) else 0);
          bs = take head (drop offset (bi_contents block)); offset' = offset + head; len' = len - head
      in if len' = 0 then Done (bs, b)
         else let payload_offset = offset' - data_offset;
                  tocopy = (if payload_offset \<le> pl_length (b_payload b)
                            then min len' (pl_length (b_payload b) - payload_offset) else len')
              in bind_outcome (read_data payload_offset tocopy (b_payload b))
                   (\<lambda>(data, pl). Done (bs @ data, b\<lparr>b_payload := pl\<rparr>)))"

definition processor_produce :: "dtn_bundle \<Rightarrow> block_info \<Rightarrow> nat \<Rightarrow> nat \<Rightarrow> (byte list \<times> dtn_bundle) outcome" where
  "processor_produce b block offset len =
     (if bi_owner block = PayloadBP then payload_produce b block offset len
      else bind_outcome (bp_produce block offset len) (\<lambda>bs. Done (bs, b)))"

end
