(* ===== verification/Bundle_Protocol.thy ===== *)
theory Bundle_Protocol
  imports Block_Output
begin

text \<open>
  The bundle protocol (\<open>servlib/bundling/BundleProtocol.cc\<close>): the list of blocks for a link and
  its contents, copying out any part of a formatted bundle, taking in a bundle in pieces of
  any length, the checks of a received bundle, timestamps and the type of an administrative
  record.
\<close>

section \<open>The blocks of a bundle that is sent\<close>

text \<open>The loop of \<open>prepare_blocks\<close> over the received blocks; \<open>i\<close> is the position.\<close>

fun prepare_received ::
    "dtn_bundle \<Rightarrow> xmit_env \<Rightarrow> nat \<Rightarrow> block_info list \<Rightarrow> block_info_vec \<Rightarrow> block_info_vec outcome" where
  "prepare_received b env i [] xmit = Done xmit"
| "prepare_received b env i (r # rs) xmit =
     bind_outcome (if b_fragmented_incoming b then find_block 1 xmit else Done None) (\<lambda>found.
       bind_outcome
         (if b_fragmented_incoming b \<and> found \<noteq> None then Done xmit
          else processor_prepare (bi_owner r) b env (Some (ReceivedBlock i)) LIST_RECEIVED xmit)
         (prepare_received b env (i + 1) rs))"

fun prepare_api ::
    "dtn_bundle \<Rightarrow> xmit_env \<Rightarrow> nat \<Rightarrow> block_info list \<Rightarrow> block_info_vec \<Rightarrow> block_info_vec outcome" where
  "prepare_api b env i [] xmit = Done xmit"
| "prepare_api b env i (r # rs) xmit =
     bind_outcome (processor_prepare (bi_owner r) b env (Some (APIBlock i)) LIST_API xmit) (prepare_api b env (i + 1) rs)"

definition prepare_missing :: "dtn_bundle \<Rightarrow> xmit_env \<Rightarrow> block_info_vec \<Rightarrow> block_info_vec outcome" where
  "prepare_missing b env =
     fold_outcome
       (\<lambda>i xmit.
          let owner = find_processor (of_nat i)
          in if owner = UnknownBP then Done xmit
             else bind_outcome (find_block (of_nat i) xmit) (\<lambda>found.
               if found = None then processor_prepare owner b env None LIST_NONE xmit else Done xmit))
       [0..<256]"

text \<open>\<open>prepare_generated_metadata\<close>: objects for this link, then those for all links.\<close>

definition metadata_blocks :: "nat list \<Rightarrow> block_info_vec \<Rightarrow> block_info_vec" where
  "metadata_blocks is xmit =
     xmit\<lparr>biv_blocks := biv_blocks xmit @ map (\<lambda>i. (new_block MetadataBP)\<lparr>bi_locals := Some i\<rparr>) is\<rparr>"

definition prepare_generated_metadata :: "dtn_bundle \<Rightarrow> xmit_env \<Rightarrow> block_info_vec \<Rightarrow> block_info_vec" where
  "prepare_generated_metadata b env xmit =
     (let md = lms_find_blocks (env_link env) (b_generated_metadata b);
          nulldata = lms_find_blocks None (b_generated_metadata b);
          x1 = (case md of None \<Rightarrow> xmit
                | Some is \<Rightarrow> metadata_blocks (filter (\<lambda>i. length (md_data (b_metadata b ! i)) > 0) is) xmit)
      in case nulldata of None \<Rightarrow> x1
         | Some is \<Rightarrow>
             metadata_blocks
               (filter (\<lambda>i. \<not> (case md of None \<Rightarrow> False
                               | Some js \<Rightarrow> list_ex (\<lambda>j. md_source (b_metadata b ! j) \<and> md_source_id (b_metadata b ! j) = i) js)) is)
               x1)"

definition prepare_blocks :: "dtn_bundle \<Rightarrow> xmit_env \<Rightarrow> block_info_vec outcome" where
  "prepare_blocks b env =
     (let recv = biv_blocks (b_recv_blocks b)
      in bind_outcome
          (case recv of
             [] \<Rightarrow> bind_outcome (processor_prepare PrimaryBP b env None LIST_NONE empty_biv)
                     (processor_prepare PayloadBP b env None LIST_NONE)
           | r # rs \<Rightarrow>
               bind_outcome (bi_type r) (\<lambda>t. assert_that (t = 0) (prepare_received b env 0 recv empty_biv)))
          (\<lambda>x1. bind_outcome (prepare_api b env 0 (biv_blocks (b_api_blocks b)) x1)
            (\<lambda>x2. bind_outcome (prepare_missing b env x2)
              (\<lambda>x3. Done (prepare_generated_metadata b env x3)))))"

text \<open>The first pass of \<open>generate_blocks\<close>; a block is the last when none follows.\<close>

fun generate_each ::
    "dtn_bundle \<Rightarrow> xmit_env \<Rightarrow> dictionary \<Rightarrow> block_info list \<Rightarrow> (dictionary \<times> block_info list) outcome" where
  "generate_each b env d [] = Done (d, [])"
| "generate_each b env d (x # xs) =
     bind_outcome (processor_generate b env d x (xs = [])) (\<lambda>(d1, x1).
       bind_outcome (bi_flags x1) (\<lambda>flags.
         assert_that ((flags AND BLOCK_FLAG_LAST_BLOCK \<noteq> 0) = (xs = []))
          (bind_outcome (generate_each b env d1 xs) (\<lambda>(d2, xs1). Done (d2, x1 # xs1)))))"

definition generate_blocks :: "dtn_bundle \<Rightarrow> xmit_env \<Rightarrow> block_info_vec \<Rightarrow> (nat \<times> block_info_vec) outcome" where
  "generate_blocks b env v =
     assert_that (length (biv_blocks v) \<ge> 2)
      (bind_outcome (bi_type (hd (biv_blocks v))) (\<lambda>t. assert_that (t = 0)
        (bind_outcome (generate_each b env (biv_dict v) (biv_blocks v)) (\<lambda>(d, xs).
          assert_that (bi_owner (hd xs) = PrimaryBP)
           (bind_outcome (generate_primary b d (hd xs)) (\<lambda>p.
             let xs' = p # tl xs
             in bind_outcome (fold_outcome (\<lambda>x u. bp_finalize (b_is_admin b) x) (rev xs') ())
                  (\<lambda>_. Done (sum_list (map (\<lambda>x. unat (full_length x)) xs'), v\<lparr>biv_dict := d, biv_blocks := xs'\<rparr>)))))))) "

definition total_length :: "block_info_vec \<Rightarrow> nat" where
  "total_length v = sum_list (map (\<lambda>x. unat (full_length x)) (biv_blocks v))"

fun payload_offset_in :: "block_info list \<Rightarrow> nat outcome" where
  "payload_offset_in [] = Done 0"
| "payload_offset_in (x # xs) =
     bind_outcome (bi_type x) (\<lambda>t.
       if t = 1 then Done (unat (bi_data_offset x))
       else bind_outcome (payload_offset_in xs) (\<lambda>n. Done (unat (full_length x) + n)))"

definition payload_offset :: "block_info_vec \<Rightarrow> nat outcome" where
  "payload_offset v = payload_offset_in (biv_blocks v)"

section \<open>Copying out a part of the bundle\<close>

text \<open>Skipping the blocks before the offset; then the copying, block by block.\<close>

fun produce_skip :: "block_info list \<Rightarrow> nat \<Rightarrow> (block_info list \<times> nat) outcome" where
  "produce_skip [] offset = Panic"
| "produce_skip (x # xs) offset =
     (if offset \<ge> unat (full_length x) then produce_skip xs (offset - unat (full_length x))
      else Done (x # xs, offset))"

fun produce_from ::
    "dtn_bundle \<Rightarrow> block_info list \<Rightarrow> nat \<Rightarrow> nat \<Rightarrow> (byte list \<times> nat \<times> bool \<times> dtn_bundle) outcome" where
  "produce_from b [] offset len = Panic"
| "produce_from b (x # xs) offset len =
     (let remainder = unat (full_length x) - offset; tocopy = min len remainder
      in bind_outcome (processor_produce b x offset tocopy) (\<lambda>(bs, b1).
           let len' = len - tocopy
           in if len' = 0
              then bind_outcome (if tocopy = remainder then bi_flags x else Done 0) (\<lambda>flags.
                     if flags AND BLOCK_FLAG_LAST_BLOCK \<noteq> 0 then assert_that (xs = []) (Done (bs, len', True, b1))
                     else Done (bs, len', False, b1))
              else assert_that (tocopy = remainder)
                (bind_outcome (bi_flags x) (\<lambda>flags.
                   if flags AND BLOCK_FLAG_LAST_BLOCK \<noteq> 0 then assert_that (xs = []) (Done (bs, len', True, b1))
                   else bind_outcome (produce_from b1 xs 0 len') (\<lambda>(cs, n, last', b2). Done (bs @ cs, n, last', b2))))))"

definition produce :: "dtn_bundle \<Rightarrow> block_info list \<Rightarrow> nat \<Rightarrow> nat \<Rightarrow> (byte list \<times> nat \<times> bool \<times> dtn_bundle) outcome" where
  "produce b blocks offset len =
     (if len = 0 then Done ([], 0, False, b)
      else bind_outcome (produce_skip blocks offset) (\<lambda>(xs, off).
           bind_outcome (produce_from b xs off len) (\<lambda>(bs, rest, last', b'). Done (bs, len - rest, last', b'))))"

section \<open>Taking in a bundle\<close>

datatype consume_result =
    ProtocolError dtn_bundle
  | LastBlockDone dtn_bundle "byte list"
  | MoreBlocks dtn_bundle "byte list"

text \<open>
  One round of the loop of \<open>consume\<close>, on data that is not empty. The block that is worked on
  is the last of the received blocks, a new one when that is complete.
\<close>

definition set_recv_blocks :: "block_info list \<Rightarrow> dtn_bundle \<Rightarrow> dtn_bundle" where
  "set_recv_blocks xs b = b\<lparr>b_recv_blocks := (b_recv_blocks b)\<lparr>biv_blocks := xs\<rparr>\<rparr>"

definition consume_round :: "dtn_bundle \<Rightarrow> byte list \<Rightarrow> consume_result outcome" where
  "consume_round b buf =
     (let xs = biv_blocks (b_recv_blocks b);
          xs' = (if bi_complete (last xs) then xs @ [new_block (find_processor (hd buf))] else xs);
          info = last xs'
      in bind_outcome (processor_consume (bi_owner info) (set_recv_blocks xs' b) info buf) (\<lambda>(cc, b1, info').
           let b2 = set_recv_blocks (butlast xs' @ [info']) b1; rest = drop (nat cc) buf
           in if cc < 0 then Done (ProtocolError b2)
              else if bi_complete info'
              then bind_outcome (bi_flags info')
                     (\<lambda>flags. Done (if flags AND BLOCK_FLAG_LAST_BLOCK \<noteq> 0 then LastBlockDone b2 rest else MoreBlocks b2 rest))
              else assert_that (rest = []) (Done (MoreBlocks b2 rest))))"

text \<open>
  The loop: the number of bytes that are left (\<open>None\<close> for a protocol error), whether the
  bundle is complete, and the bundle. The outer \<open>None\<close> would be a loop that does not end.
\<close>

partial_function (option) consume_loop ::
    "dtn_bundle \<Rightarrow> byte list \<Rightarrow> (nat option \<times> bool \<times> dtn_bundle) outcome option" where
  "consume_loop b buf =
     (if buf = [] then Some (Done (Some 0, False, b))
      else case consume_round b buf of
             Panic \<Rightarrow> Some Panic
           | Done (ProtocolError b') \<Rightarrow> Some (Done (None, False, b'))
           | Done (LastBlockDone b' rest) \<Rightarrow> Some (Done (Some (length rest), True, b'))
           | Done (MoreBlocks b' rest) \<Rightarrow> consume_loop b' rest)"

definition first_block :: "dtn_bundle \<Rightarrow> dtn_bundle" where
  "first_block b = (if biv_blocks (b_recv_blocks b) = [] then set_recv_blocks [new_block PrimaryBP] b else b)"

definition bundle_consume :: "dtn_bundle \<Rightarrow> byte list \<Rightarrow> (int \<times> bool \<times> dtn_bundle) outcome option" where
  "bundle_consume b buf =
     map_option
       (\<lambda>r. bind_outcome r (\<lambda>(rest, last', b').
          Done (case rest of None \<Rightarrow> (-1, last', b') | Some n \<Rightarrow> (int (length buf - n), last', b'))))
       (consume_loop (first_block b) buf)"

section \<open>Checking a received bundle\<close>

text \<open>
  The loop of \<open>validate\<close> over the blocks, those already checked and the rest: whether the
  bundle is kept, the numbers of primary and payload blocks, whether a reception reason was
  set, and the bundle, whose last block is removed when it does not have its whole preamble;
  then the block before it is checked again, as the last one.
\<close>

definition check_last :: "dtn_bundle \<Rightarrow> bool \<Rightarrow> block_info \<Rightarrow> bool outcome" where
  "check_last b is_last x =
     bind_outcome (last_block x)
       (\<lambda>flagged. Done (if is_last then flagged \<or> b_fragmented_incoming b else \<not> flagged))"

fun validate_from ::
    "dtn_bundle \<Rightarrow> block_info list \<Rightarrow> block_info list \<Rightarrow> nat \<Rightarrow> nat \<Rightarrow> bool
     \<Rightarrow> (bool \<times> nat \<times> nat \<times> bool \<times> dtn_bundle) outcome" where
  "validate_from b seen [] primary payload report = Done (True, primary, payload, report, b)"
| "validate_from b seen (x # xs) primary payload report =
     (if bi_data_offset x = 0
      then (if xs \<noteq> [] then Done (False, primary, payload, report, b)
            else let b1 = set_recv_blocks seen b
                 in if length seen < 2 then Done (False, primary, payload, report, b1)
                    else bind_outcome (processor_validate b1 (last seen)) (\<lambda>(r, ok, b2).
                           if \<not> ok then Done (False, primary, payload, report \<or> r, b2)
                           else bind_outcome (check_last b2 True (last seen))
                             (\<lambda>ok'. Done (ok', primary, payload, report \<or> r, b2))))
      else bind_outcome (bi_type x) (\<lambda>t.
           bind_outcome (processor_validate b x) (\<lambda>(r, ok, b2).
             let primary' = (if t = 0 then primary + 1 else primary);
                 payload' = (if t = 1 then payload + 1 else payload)
             in if \<not> ok then Done (False, primary', payload', report \<or> r, b2)
                else bind_outcome (check_last b2 (xs = []) x) (\<lambda>ok'.
                  if \<not> ok' then Done (False, primary', payload', report \<or> r, b2)
                  else validate_from b2 (seen @ [x]) xs primary' payload' (report \<or> r)))))"

definition validate_bundle :: "dtn_bundle \<Rightarrow> (bool \<times> bool \<times> dtn_bundle) outcome" where
  "validate_bundle b =
     (let xs = biv_blocks (b_recv_blocks b)
      in if length xs < 2 then Done (False, False, b)
         else bind_outcome (bi_type (hd xs)) (\<lambda>t.
           if t \<noteq> 0 then Done (False, False, b)
           else bind_outcome (validate_from b [] xs 0 0 False) (\<lambda>(ok, primary, payload, report, b').
             Done (ok \<and> primary = 1 \<and> payload \<le> 1, report, b'))))"

section \<open>Timestamps and administrative records\<close>

text \<open>\<open>set_timestamp\<close> at the front of a buffer, and the return value.\<close>

definition set_timestamp :: "bundle_timestamp \<Rightarrow> byte list \<Rightarrow> (int \<times> byte list) outcome" where
  "set_timestamp tv buf =
     bind_outcome (sdnv_encode (ts_seconds tv) buf) (\<lambda>(n, buf1).
       if n < 0 then Done (-1, buf1)
       else bind_outcome (sdnv_encode (ts_seqno tv) (drop (nat n) buf1)) (\<lambda>(m, buf2).
         let buf3 = take (nat n) buf1 @ buf2
         in Done (if m < 0 then (-1, buf3) else (n + m, buf3))))"

text \<open>\<open>get_timestamp\<close>: -1 or the length, and the timestamp, of which a part may have been set.\<close>

definition get_timestamp :: "byte list \<Rightarrow> bundle_timestamp \<Rightarrow> int \<times> bundle_timestamp" where
  "get_timestamp buf tv =
     (case sdnv_decode buf of (n, sec) \<Rightarrow>
        if n < 0 then (-1, tv)
        else case sdnv_decode (drop (nat n) buf) of (m, seq) \<Rightarrow>
               if m < 0 then (-1, BundleTimestamp sec (ts_seqno tv)) else (n + m, BundleTimestamp sec seq))"

definition ts_encoding_len :: "bundle_timestamp \<Rightarrow> nat outcome" where
  "ts_encoding_len tv =
     bind_outcome (sdnv_encoding_len (ts_seconds tv)) (\<lambda>n. bind_outcome (sdnv_encoding_len (ts_seqno tv)) (\<lambda>m. Done (n + m)))"

datatype admin_record_type = ADMIN_STATUS_REPORT | ADMIN_CUSTODY_SIGNAL | ADMIN_ANNOUNCE

text \<open>\<open>get_admin_type\<close> reads sixteen bytes of the payload to look at the first.\<close>

definition get_admin_type :: "dtn_bundle \<Rightarrow> (admin_record_type option \<times> dtn_bundle) outcome" where
  "get_admin_type b =
     (if \<not> b_is_admin b then Done (None, b)
      else bind_outcome (read_data 0 16 (b_payload b)) (\<lambda>(bs, pl).
        case bs of
          [] \<Rightarrow> Panic
        | x # _ \<Rightarrow>
            Done ((if unat x div 16 = 1 then Some ADMIN_STATUS_REPORT
                   else if unat x div 16 = 2 then Some ADMIN_CUSTODY_SIGNAL
                   else if unat x div 16 = 5 then Some ADMIN_ANNOUNCE else None), b\<lparr>b_payload := pl\<rparr>)))"

section \<open>Blocks per link\<close>

text \<open>\<open>LinkBlockSet\<close>, and \<open>delete_blocks\<close>, which also forgets the metadata for the link.\<close>

type_synonym link_block_set = "(link_id \<times> block_info_vec) list"

definition lbs_find_blocks :: "link_id \<Rightarrow> link_block_set \<Rightarrow> block_info_vec option" where
  "lbs_find_blocks link s = map_of s link"

definition lbs_create_blocks :: "link_id \<Rightarrow> link_block_set \<Rightarrow> link_block_set outcome" where
  "lbs_create_blocks link s = assert_that (lbs_find_blocks link s = None) (Done (s @ [(link, empty_biv)]))"

fun lbs_delete_blocks :: "link_id \<Rightarrow> link_block_set \<Rightarrow> link_block_set outcome" where
  "lbs_delete_blocks link [] = Panic"
| "lbs_delete_blocks link (e # es) =
     (if fst e = link then Done es else bind_outcome (lbs_delete_blocks link es) (\<lambda>es'. Done (e # es')))"

definition delete_generated_metadata :: "link_id \<Rightarrow> dtn_bundle \<Rightarrow> dtn_bundle" where
  "delete_generated_metadata link b =
     b\<lparr>b_generated_metadata := lms_delete_blocks link (b_generated_metadata b),
       b_metadata := fold (\<lambda>i ms. if i < length ms then ms[i := delete_outgoing_metadata link (ms ! i)] else ms)
                       (b_recv_metadata b) (b_metadata b)\<rparr>"

definition delete_blocks :: "link_id \<Rightarrow> link_block_set \<Rightarrow> dtn_bundle \<Rightarrow> (link_block_set \<times> dtn_bundle) outcome" where
  "delete_blocks link s b =
     bind_outcome (lbs_delete_blocks link s) (\<lambda>s'. Done (s', delete_generated_metadata link b))"

end
