(* ===== verification/Bundle_Transfer.thy ===== *)
theory Bundle_Transfer
  imports Bundle_Protocol
begin

text \<open>
  A bundle on its way: what \<open>produce\<close> copies out of the formatted blocks, in parts of any
  length, and what \<open>consume\<close> makes of the same bytes, in pieces of any other lengths.
\<close>

section \<open>Any part of a formatted bundle\<close>

text \<open>The bytes of a block of a formatted bundle; the payload is not in the block.\<close>

definition block_image :: "dtn_bundle \<Rightarrow> block_info \<Rightarrow> byte list" where
  "block_image b x = bi_contents x @ (if bi_owner x = PayloadBP then pl_bytes (b_payload b) else [])"

definition bundle_image :: "dtn_bundle \<Rightarrow> block_info list \<Rightarrow> byte list" where
  "bundle_image b xs = concat (map (block_image b) xs)"

definition formatted :: "dtn_bundle \<Rightarrow> bool \<Rightarrow> block_info \<Rightarrow> bool" where
  "formatted b is_last x \<longleftrightarrow>
     bi_contents x \<noteq> [] \<and> unat (full_length x) = length (block_image b x) \<and>
     (bi_owner x = PayloadBP \<longrightarrow> unat (bi_data_offset x) = length (bi_contents x)) \<and>
     (\<exists>f. bi_flags x = Done f \<and> (f AND BLOCK_FLAG_LAST_BLOCK \<noteq> 0) = is_last)"

fun formatted_blocks :: "dtn_bundle \<Rightarrow> block_info list \<Rightarrow> bool" where
  "formatted_blocks b [] \<longleftrightarrow> True"
| "formatted_blocks b (x # xs) \<longleftrightarrow> formatted b (xs = []) x \<and> formatted_blocks b xs"

text \<open>Reading the payload moves the file position only.\<close>

definition same_but_position :: "dtn_bundle \<Rightarrow> dtn_bundle \<Rightarrow> bool" where
  "same_but_position b b' \<longleftrightarrow>
     b' = b\<lparr>b_payload := b_payload b'\<rparr> \<and> payload_ok (b_payload b') \<and> pl_bytes (b_payload b') = pl_bytes (b_payload b)"

lemma same_refl: "payload_ok (b_payload b) \<Longrightarrow> same_but_position b b"
  by (simp add: same_but_position_def)

lemma same_trans: "same_but_position b b1 \<Longrightarrow> same_but_position b1 b2 \<Longrightarrow> same_but_position b b2"
  by (cases b; cases b1; cases b2) (auto simp: same_but_position_def)

lemma block_image_same [simp]: "same_but_position b b' \<Longrightarrow> block_image b' = block_image b"
  by (rule ext) (simp add: block_image_def same_but_position_def)

lemma bundle_image_same [simp]: "same_but_position b b' \<Longrightarrow> bundle_image b' xs = bundle_image b xs"
  by (simp add: bundle_image_def)

lemma formatted_same [simp]: "same_but_position b b' \<Longrightarrow> formatted b' l x = formatted b l x"
  by (simp add: formatted_def)

lemma formatted_blocks_same [simp]: "same_but_position b b' \<Longrightarrow> formatted_blocks b' xs = formatted_blocks b xs"
  by (induction xs) simp_all

lemma bundle_image_simps [simp]:
  "bundle_image b [] = []" "bundle_image b (x # xs) = block_image b x @ bundle_image b xs"
  by (simp_all add: bundle_image_def)

lemma processor_produce_part:
  assumes "payload_ok (b_payload b)" and f: "formatted b l x" and "offset + n \<le> length (block_image b x)" and "0 < n"
  shows "\<exists>b'. processor_produce b x offset n = Done (take n (drop offset (block_image b x)), b') \<and> same_but_position b b'"
proof (cases "bi_owner x = PayloadBP")
  case False
  then show ?thesis
    using assms by (auto simp: processor_produce_def bp_produce_def block_image_def intro: same_refl)
next
  case True
  let ?c = "bi_contents x" and ?pl = "b_payload b"
  have image: "block_image b x = ?c @ pl_bytes ?pl" and off: "unat (bi_data_offset x) = length ?c"
    using f True by (auto simp: block_image_def formatted_def)
  have pl: "length (pl_bytes ?pl) = pl_length ?pl" by (rule length_pl_bytes [OF assms(1)])
  define h where "h = (if offset < length ?c then min n (length ?c - offset) else 0)"
  show ?thesis
  proof (cases "n = h")
    case True
    then have "payload_produce b x offset n = Done (take n (drop offset ?c), b)"
      unfolding payload_produce_def Let_def off h_def [symmetric] using True by simp
    moreover have "take n (drop offset (block_image b x)) = take n (drop offset ?c)"
      using True assms(4) by (auto simp: image h_def split: if_splits)
    ultimately show ?thesis
      using \<open>bi_owner x = PayloadBP\<close> assms(1) by (auto simp: processor_produce_def intro: same_refl)
  next
    case False
    then have h: "h = length ?c - offset" "h < n" using assms(3,4) by (auto simp: h_def)
    let ?po = "offset + h - length ?c" and ?m = "n - h"
    have bound: "?po + ?m \<le> length (pl_bytes ?pl)" using assms(3) h by (auto simp: image)
    then obtain pl' where r: "read_data ?po ?m ?pl = Done (take ?m (drop ?po (pl_bytes ?pl)), pl')"
        "payload_ok pl'" "pl_bytes pl' = pl_bytes ?pl"
      using pl.get_bytes [OF assms(1), of ?po ?m] by blast
    have mn: "min ?m (pl_length ?pl - ?po) = ?m" "?po \<le> pl_length ?pl" using bound pl by auto
    have "payload_produce b x offset n =
        Done (take h (drop offset ?c) @ take ?m (drop ?po (pl_bytes ?pl)), b\<lparr>b_payload := pl'\<rparr>)"
      unfolding payload_produce_def Let_def off h_def [symmetric] using h(2) mn r(1) by simp
    moreover have "take h (drop offset ?c) = drop offset ?c" using h(1) by simp
    moreover have "take n (drop offset (block_image b x)) = drop offset ?c @ take ?m (drop ?po (pl_bytes ?pl))"
      using h by (cases "offset \<le> length ?c") (auto simp: image)
    ultimately show ?thesis
      using \<open>bi_owner x = PayloadBP\<close> r(2,3) by (auto simp: processor_produce_def same_but_position_def)
  qed
qed

lemma produce_from_part:
  "payload_ok (b_payload b) \<Longrightarrow> formatted_blocks b (x # xs) \<Longrightarrow> offset < length (block_image b x) \<Longrightarrow> 0 < len \<Longrightarrow>
   \<exists>b'. produce_from b (x # xs) offset len =
     Done (take len (drop offset (bundle_image b (x # xs))), len - (length (bundle_image b (x # xs)) - offset),
       length (bundle_image b (x # xs)) \<le> offset + len, b') \<and> same_but_position b b'"
proof (induction xs arbitrary: x b offset len)
  case (Nil x)
  obtain f where f: "bi_flags x = Done f" "f AND BLOCK_FLAG_LAST_BLOCK \<noteq> 0" and fl: "unat (full_length x) = length (block_image b x)"
    using Nil.prems(2) by (auto simp: formatted_def)
  let ?n = "min len (length (block_image b x) - offset)"
  have n: "offset + ?n \<le> length (block_image b x)" "0 < ?n" and fx: "formatted b True x" using Nil.prems(2-4) by auto
  obtain b1 where b1: "processor_produce b x offset ?n = Done (take ?n (drop offset (block_image b x)), b1)" "same_but_position b b1"
    using processor_produce_part [OF Nil.prems(1) fx n] by blast
  have "produce_from b [x] offset len =
      Done (take len (drop offset (block_image b x)), len - (length (block_image b x) - offset),
        length (block_image b x) \<le> offset + len, b1)"
  proof (cases "len \<le> length (block_image b x) - offset")
    case True
    then have m: "?n = len" by simp
    have "(len = length (block_image b x) - offset) = (length (block_image b x) \<le> offset + len)"
      using True Nil.prems(3) by linarith
    then show ?thesis using b1(1) f True unfolding m by (simp add: Let_def fl m)
  next
    case False
    then have m: "?n = length (block_image b x) - offset" by simp
    show ?thesis using b1(1) f False unfolding m by (simp add: Let_def fl m)
  qed
  then show ?case using b1(2) by simp
next
  case (Cons y ys x)
  obtain f where f: "bi_flags x = Done f" "f AND BLOCK_FLAG_LAST_BLOCK = 0" and fl: "unat (full_length x) = length (block_image b x)"
    using Cons.prems(2) by (auto simp: formatted_def)
  let ?n = "min len (length (block_image b x) - offset)"
  have n: "offset + ?n \<le> length (block_image b x)" "0 < ?n" and fx: "formatted b False x" using Cons.prems(2-4) by auto
  obtain b1 where b1: "processor_produce b x offset ?n = Done (take ?n (drop offset (block_image b x)), b1)" "same_but_position b b1"
    using processor_produce_part [OF Cons.prems(1) fx n] by blast
  have pos: "0 < length (block_image b y)"
    using Cons.prems(2) by (auto simp: formatted_def block_image_def)
  show ?case
  proof (cases "len \<le> length (block_image b x) - offset")
    case True
    then have "produce_from b (x # y # ys) offset len = Done (take ?n (drop offset (block_image b x)), 0, False, b1)"
    proof -
      have m: "?n = len" using True by simp
      show ?thesis
        using b1(1) f True unfolding m by (subst produce_from.simps) (simp add: Let_def fl m del: bundle_image_simps produce_from.simps)
    qed
    moreover have "take len (drop offset (bundle_image b (x # y # ys))) = take ?n (drop offset (block_image b x))"
      "len - (length (bundle_image b (x # y # ys)) - offset) = 0" "\<not> length (bundle_image b (x # y # ys)) \<le> offset + len"
      using True Cons.prems(3) pos unfolding bundle_image_simps length_append by (simp_all only: take_append drop_append) auto
    ultimately show ?thesis using b1(2) by (simp del: bundle_image_simps produce_from.simps)
  next
    case False
    let ?len = "len - (length (block_image b x) - offset)"
    have b1': "payload_ok (b_payload b1)" using b1(2) by (simp add: same_but_position_def)
    have "\<exists>b'. produce_from b1 (y # ys) 0 ?len =
       Done (take ?len (drop 0 (bundle_image b1 (y # ys))), ?len - (length (bundle_image b1 (y # ys)) - 0),
         length (bundle_image b1 (y # ys)) \<le> 0 + ?len, b') \<and> same_but_position b1 b'"
      using False Cons.prems pos b1(2) by (intro Cons.IH [OF b1']) simp_all
    then obtain b2 where b2: "produce_from b1 (y # ys) 0 ?len =
       Done (take ?len (bundle_image b (y # ys)), ?len - length (bundle_image b (y # ys)),
         length (bundle_image b (y # ys)) \<le> ?len, b2)" "same_but_position b1 b2"
      using b1(2) by (auto simp del: bundle_image_simps produce_from.simps)
    have "produce_from b (x # y # ys) offset len =
        Done (drop offset (block_image b x) @ take ?len (bundle_image b (y # ys)), ?len - length (bundle_image b (y # ys)),
          length (bundle_image b (y # ys)) \<le> ?len, b2)"
    proof -
      have m: "?n = length (block_image b x) - offset" using False by simp
      have "0 < ?len" using False by simp
      then show ?thesis
        using b1(1) f b2(1) unfolding m
        by (subst produce_from.simps) (simp add: Let_def fl m del: bundle_image_simps produce_from.simps)
    qed
    then show ?thesis using same_trans [OF b1(2) b2(2)] False Cons.prems(3) by auto
  qed
qed

lemma produce_skip_block:
  "formatted_blocks b xs \<Longrightarrow> offset < length (bundle_image b xs) \<Longrightarrow>
   \<exists>y ys k. produce_skip xs offset = Done (y # ys, k) \<and> formatted_blocks b (y # ys) \<and> k < length (block_image b y) \<and>
     drop offset (bundle_image b xs) = drop k (bundle_image b (y # ys)) \<and>
     length (bundle_image b xs) - offset = length (bundle_image b (y # ys)) - k"
proof (induction xs arbitrary: offset)
  case (Cons x xs)
  have fl: "unat (full_length x) = length (block_image b x)" using Cons.prems(1) by (simp add: formatted_def)
  show ?case
  proof (cases "offset \<ge> length (block_image b x)")
    case True
    let ?off = "offset - length (block_image b x)"
    have "?off < length (bundle_image b xs)" using True Cons.prems(2) by simp
    then obtain y ys k where "produce_skip xs ?off = Done (y # ys, k)" "formatted_blocks b (y # ys)" "k < length (block_image b y)"
        "drop ?off (bundle_image b xs) = drop k (bundle_image b (y # ys))"
        "length (bundle_image b xs) - ?off = length (bundle_image b (y # ys)) - k"
      using Cons.IH [of ?off] Cons.prems(1) by auto
    moreover have "produce_skip (x # xs) offset = produce_skip xs ?off" using True by (simp add: fl)
    moreover have "drop offset (bundle_image b (x # xs)) = drop ?off (bundle_image b xs)" using True by simp
    moreover have "length (bundle_image b (x # xs)) - offset = length (bundle_image b xs) - ?off" using True by simp
    ultimately show ?thesis by metis
  next
    case False
    then show ?thesis using Cons.prems by (auto simp: fl)
  qed
qed simp

text \<open>
  C14. Copying out a formatted bundle in parts: for any offset within the bundle and any
  length, \<open>produce\<close> fails no assertion and gives exactly that part of the concatenation of
  the blocks, shorter only at the end of the bundle, and reports the end exactly when it is
  reached. Only the position in the payload file changes.
\<close>

theorem produce_any_part:
  assumes "payload_ok (b_payload b)" and "formatted_blocks b xs" and "offset < length (bundle_image b xs)" and "0 < len"
  shows "\<exists>b'. produce b xs offset len =
    Done (take len (drop offset (bundle_image b xs)), min len (length (bundle_image b xs) - offset),
      length (bundle_image b xs) \<le> offset + len, b') \<and> same_but_position b b'"
proof -
  obtain y ys k where s: "produce_skip xs offset = Done (y # ys, k)" "formatted_blocks b (y # ys)" "k < length (block_image b y)"
      "drop offset (bundle_image b xs) = drop k (bundle_image b (y # ys))"
      "length (bundle_image b xs) - offset = length (bundle_image b (y # ys)) - k"
    using produce_skip_block [OF assms(2,3)] by blast
  obtain b' where "produce_from b (y # ys) k len =
     Done (take len (drop k (bundle_image b (y # ys))), len - (length (bundle_image b (y # ys)) - k),
       length (bundle_image b (y # ys)) \<le> k + len, b')" "same_but_position b b'"
    using produce_from_part [OF assms(1) s(2,3) assms(4)] by blast
  moreover have "(length (bundle_image b (y # ys)) \<le> k + len) = (length (bundle_image b xs) \<le> offset + len)"
    using s(3,5) assms(3) by auto
  moreover have "len - (len - (length (bundle_image b (y # ys)) - k)) = min len (length (bundle_image b xs) - offset)"
    unfolding s(5) by simp
  ultimately show ?thesis
    using assms(4) s(1,4) by (auto simp: produce_def simp del: bundle_image_simps produce_from.simps)
qed

section \<open>Preparing and generating a bundle without extension blocks\<close>

text \<open>
  A bundle that was made at this node, without blocks from the application, and without what
  makes the other processors add a block.
\<close>

definition plain_bundle :: "dtn_bundle \<Rightarrow> xmit_env \<Rightarrow> bool" where
  "plain_bundle b env \<longleftrightarrow>
     biv_blocks (b_recv_blocks b) = [] \<and> biv_blocks (b_api_blocks b) = [] \<and> \<not> env_prevhop_hdr env \<and>
     eid_str (b_session_eid b) = [] \<and> b_sequence_id b = [] \<and> b_obsoletes_id b = [] \<and> b_generated_metadata b = []"

definition bundle_eids :: "dtn_bundle \<Rightarrow> endpoint_id list" where
  "bundle_eids b = [b_dest b, b_source b, b_replyto b, b_custodian b]"

definition two_blocks :: "dictionary \<Rightarrow> block_info_vec" where
  "two_blocks d = empty_biv\<lparr>biv_dict := d, biv_blocks := [new_block PrimaryBP, new_block PayloadBP]\<rparr>"

lemma new_block_type: "bi_type (new_block owner) = Done (block_type owner)"
  by (cases owner) (simp_all add: bi_type_def new_block_def)

lemma fold_outcome_id: "(\<And>x. x \<in> set xs \<Longrightarrow> f x s = Done s) \<Longrightarrow> fold_outcome f xs s = Done s"
  by (induction xs) simp_all

lemma unat_byte_of_nat: "i < 256 \<Longrightarrow> unat (of_nat i :: byte) = i"
  by (simp add: unat_of_nat)

lemma prepare_missing_none:
  assumes "plain_bundle b env"
  shows "prepare_missing b env (two_blocks d) = Done (two_blocks d)"
  unfolding prepare_missing_def
proof (rule fold_outcome_id)
  fix i
  assume "i \<in> set [0..<256]"
  then have i: "unat (of_nat i :: byte) = i" by (intro unat_byte_of_nat) simp
  have eq: "((of_nat i :: byte) = w) = (i = unat w)" for w
    using i word_unat_eq_iff [of "of_nat i :: byte" w] by simp
  have fb: "find_block (of_nat i) (two_blocks d) =
      Done (if i = 0 then Some (new_block PrimaryBP) else if i = 1 then Some (new_block PayloadBP) else None)"
    by (simp add: find_block_def two_blocks_def i new_block_type) (simp add: new_block_def)
  show "(let owner = find_processor (of_nat i)
          in if owner = UnknownBP then Done (two_blocks d)
             else bind_outcome (find_block (of_nat i) (two_blocks d)) (\<lambda>found.
               if found = None then processor_prepare owner b env None LIST_NONE (two_blocks d) else Done (two_blocks d)))
        = Done (two_blocks d)"
    using assms unfolding fb find_processor_def eq
    by (auto simp: Let_def processor_prepare_def session_prepare_def metadata_prepare_def plain_bundle_def)
qed

lemma prepare_plain:
  assumes "plain_bundle b env" and "fold_outcome add_eid (bundle_eids b) empty_dictionary = Done d"
  shows "prepare_blocks b env = Done (two_blocks d)"
proof -
  have prim: "processor_prepare PrimaryBP b env None LIST_NONE empty_biv =
      Done (empty_biv\<lparr>biv_dict := d, biv_blocks := [new_block PrimaryBP]\<rparr>)"
    using assms(2) by (simp add: processor_prepare_def primary_prepare_def empty_biv_def bundle_eids_def new_block_of_def)
      (simp add: new_block_def)
  have pay: "processor_prepare PayloadBP b env None LIST_NONE (empty_biv\<lparr>biv_dict := d, biv_blocks := [new_block PrimaryBP]\<rparr>) =
      Done (two_blocks d)"
    by (simp add: processor_prepare_def bp_prepare_def new_block_type two_blocks_def new_block_of_def) (simp add: new_block_def)
  have "biv_blocks (b_recv_blocks b) = []" "biv_blocks (b_api_blocks b) = []" "b_generated_metadata b = []"
    using assms(1) by (simp_all add: plain_bundle_def)
  then show ?thesis
    by (simp add: prepare_blocks_def prim pay prepare_missing_none [OF assms(1)] prepare_generated_metadata_def
        lms_find_blocks_def)
qed

lemma generate_preamble_plain:
  assumes "bi_eid_list x = []" and "bi_contents x = []" and "21 \<le> bi_buf_len x" and "n < 2 ^ 32"
  shows "generate_preamble d x ty flags (of_nat n) =
    Done (d, x\<lparr>bi_contents := preamble_bytes ty flags n, bi_data_length := of_nat n,
      bi_data_offset := of_nat (length (preamble_bytes ty flags n))\<rparr>)"
proof -
  have fits: "length (preamble_bytes ty flags n) \<le> bi_buf_len x" using length_preamble_bytes(2) [of ty flags n] assms(3) by linarith
  have ucast: "(ucast (of_nat n :: u64) :: u32) = of_nat n"
    using assms(4) by (simp add: word_unat_eq_iff unsigned_ucast_eq unat_of_nat take_bit_eq_mod)
  show ?thesis
    using assms(1,2) fits
    by (simp add: generate_preamble_def sdnv_encoding_len_eq Let_def ucast PREAMBLE_FIXED_LENGTH_def preamble_bytes_def)
qed

lemma preamble_flags:
  assumes "bi_contents x = preamble_bytes 1 flags n @ r" and "bi_owner x = PayloadBP"
  shows "bi_type x = Done 1" and "bi_flags x = Done flags"
proof -
  show t: "bi_type x = Done 1" using assms by (simp add: bi_type_def preamble_bytes_def)
  have "0 < length (sdnv_bytes flags)" using sdnv_bytes_length_bounds(1) [of flags] by linarith
  then show "bi_flags x = Done flags"
    using assms(1) by (simp add: bi_flags_def t preamble_bytes_def sdnv_decode_bytes)
qed


text \<open>The bytes of such a bundle.\<close>

definition primary_image :: "dtn_bundle \<Rightarrow> dictionary \<Rightarrow> u64 list \<Rightarrow> byte list" where
  "primary_image b d vs =
     preamble_bytes CURRENT_VERSION (primary_flags b) (length (primary_body b d vs)) @ primary_body b d vs"

definition payload_preamble :: "dtn_bundle \<Rightarrow> byte list" where
  "payload_preamble b = preamble_bytes 1 BLOCK_FLAG_LAST_BLOCK (pl_length (b_payload b))"

definition generated_blocks :: "dtn_bundle \<Rightarrow> dictionary \<Rightarrow> u64 list \<Rightarrow> block_info list" where
  "generated_blocks b d vs =
     [(reserve (length (primary_image b d vs)) (new_block PrimaryBP))
        \<lparr>bi_data_length := of_nat (length (primary_image b d vs)), bi_contents := primary_image b d vs\<rparr>,
      (new_block PayloadBP)
        \<lparr>bi_contents := payload_preamble b, bi_data_length := of_nat (pl_length (b_payload b)),
         bi_data_offset := of_nat (length (payload_preamble b))\<rparr>]"

lemma reserve_fields [simp]:
  "bi_owner (reserve n x) = bi_owner x" "bi_contents (reserve n x) = bi_contents x"
  "bi_data_offset (reserve n x) = bi_data_offset x" "bi_data_length (reserve n x) = bi_data_length x"
  by (simp_all add: reserve_def Let_def)

lemma new_block_fields [simp]:
  "bi_owner (new_block o') = o'" "bi_contents (new_block o') = []" "bi_data_offset (new_block o') = 0"
  "bi_eid_list (new_block o') = []" "bi_buf_len (new_block o') = 64" "\<not> bi_complete (new_block o')"
  "bi_data_length (new_block o') = 0"
  by (simp_all add: new_block_def)

lemma primary_type [simp]: "bi_owner x = PrimaryBP \<Longrightarrow> bi_type x = Done 0" "bi_owner x = PrimaryBP \<Longrightarrow> bi_flags x = Done 0"
  by (simp_all add: bi_type_def bi_flags_def)

lemma generate_plain:
  assumes "primary_fields b d = Done vs" and "length (primary_body b d vs) < 2 ^ 64" and "pl_length (b_payload b) < 2 ^ 32"
    and at: "get_offsets d (b_dest b) 0 = Done (f1, ds, dp)" "get_offsets d (b_source b) 0 = Done (f2, ss, sp)"
      "get_offsets d (b_replyto b) 0 = Done (f3, rs, rp)" "get_offsets d (b_custodian b) 0 = Done (f4, cs, cp)"
  shows "\<exists>n. generate_blocks b env (two_blocks d) =
    Done (n, (two_blocks d)\<lparr>biv_blocks := generated_blocks b d vs\<rparr>)"
proof -
  let ?y = "(new_block PayloadBP)\<lparr>bi_contents := payload_preamble b, bi_data_length := of_nat (pl_length (b_payload b)),
      bi_data_offset := of_nat (length (payload_preamble b))\<rparr>"
  have gp: "processor_generate b env d (new_block PayloadBP) True = Done (d, ?y)"
    using generate_preamble_plain [of "new_block PayloadBP" "pl_length (b_payload b)" d 1 BLOCK_FLAG_LAST_BLOCK] assms(3)
    by (simp add: processor_generate_def payload_preamble_def)
  have gpr: "processor_generate b env d (new_block PrimaryBP) False = Done (d, new_block PrimaryBP)"
    by (simp add: processor_generate_def primary_generate_def)
  have yf: "bi_flags ?y = Done BLOCK_FLAG_LAST_BLOCK" "bi_type ?y = Done 1"
    using preamble_flags [of ?y BLOCK_FLAG_LAST_BLOCK "pl_length (b_payload b)" "[]"] by (simp_all add: payload_preamble_def)
  have last: "BLOCK_FLAG_LAST_BLOCK AND BLOCK_FLAG_LAST_BLOCK \<noteq> 0" "BLOCK_FLAG_LAST_BLOCK AND BLOCK_FLAG_REPORT_ONERROR = 0"
    by (simp_all add: BLOCK_FLAG_LAST_BLOCK_def BLOCK_FLAG_REPORT_ONERROR_def)
  have each: "generate_each b env d [new_block PrimaryBP, new_block PayloadBP] = Done (d, [new_block PrimaryBP, ?y])"
    using last by (simp add: gp gpr yf)
  have prim: "generate_primary b d (new_block PrimaryBP) = Done (hd (generated_blocks b d vs))"
    by (simp add: generate_primary_eq [OF at assms(1,2)] Let_def generated_blocks_def primary_image_def)
  have fin: "bp_finalize (b_is_admin b) ?y = Done ()" "bp_finalize (b_is_admin b) (hd (generated_blocks b d vs)) = Done ()"
    using last(2) by (simp_all add: bp_finalize_def yf generated_blocks_def)
  have gb: "generated_blocks b d vs = [hd (generated_blocks b d vs), ?y]" by (simp add: generated_blocks_def)
  have tb: "biv_blocks (two_blocks d) = [new_block PrimaryBP, new_block PayloadBP]" "biv_dict (two_blocks d) = d"
    by (simp_all add: two_blocks_def)
  have upd: "(two_blocks d)\<lparr>biv_dict := d, biv_blocks := zs\<rparr> = (two_blocks d)\<lparr>biv_blocks := zs\<rparr>" for zs
    by (simp add: two_blocks_def)
  have rev: "rev [hd (generated_blocks b d vs), ?y] = [?y, hd (generated_blocks b d vs)]" by simp
  show ?thesis
    unfolding generate_blocks_def tb each by (subst gb) (simp add: each prim rev fin upd del: rev.simps)
qed

lemma generated_formatted:
  assumes "length (primary_image b d vs) < 2 ^ 32" and "length (payload_preamble b) + pl_length (b_payload b) < 2 ^ 32"
    and "payload_ok (b_payload b)"
  shows "formatted_blocks b (generated_blocks b d vs)"
    and "bundle_image b (generated_blocks b d vs) = primary_image b d vs @ payload_preamble b @ pl_bytes (b_payload b)"
proof -
  let ?q = "payload_preamble b" and ?n = "pl_length (b_payload b)"
  show "bundle_image b (generated_blocks b d vs) = primary_image b d vs @ ?q @ pl_bytes (b_payload b)"
    by (simp add: generated_blocks_def block_image_def)
  have fl: "unat (of_nat (length ?q) + of_nat ?n :: u32) = length ?q + ?n"
    using u32_of_nat [OF assms(2)] by simp
  have fp: "unat (of_nat (length (primary_image b d vs)) :: u32) = length (primary_image b d vs)"
    by (rule u32_of_nat [OF assms(1)])
  have fo: "unat (of_nat (length ?q) :: u32) = length ?q" using assms(2) by (intro u32_of_nat) simp
  have ne: "primary_image b d vs \<noteq> []" "?q \<noteq> []" by (simp_all add: primary_image_def payload_preamble_def preamble_bytes_def)
  let ?y = "(new_block PayloadBP)\<lparr>bi_contents := ?q, bi_data_length := of_nat ?n, bi_data_offset := of_nat (length ?q)\<rparr>"
  have yf: "bi_flags ?y = Done BLOCK_FLAG_LAST_BLOCK"
    using preamble_flags [of ?y BLOCK_FLAG_LAST_BLOCK ?n "[]"] by (simp add: payload_preamble_def)
  have last: "BLOCK_FLAG_LAST_BLOCK AND BLOCK_FLAG_LAST_BLOCK \<noteq> 0" by (simp add: BLOCK_FLAG_LAST_BLOCK_def)
  have pb: "length (pl_bytes (b_payload b)) = ?n" by (rule length_pl_bytes [OF assms(3)])
  show "formatted_blocks b (generated_blocks b d vs)"
    using fl fp fo ne last pb by (simp add: generated_blocks_def formatted_def full_length_def block_image_def yf)
qed

lemma add_str_size: "add_str s d = Done d' \<Longrightarrow> length (d_bytes d') \<le> length (d_bytes d) + (length s + 1)"
  by (cases "get_offset d s") (auto simp: add_str_def Let_def split: if_splits)

lemma add_strs_size:
  "fold_outcome add_str ss d = Done d' \<Longrightarrow> length (d_bytes d') \<le> length (d_bytes d) + sum_list (map (\<lambda>s. length s + 1) ss)"
proof (induction ss arbitrary: d)
  case (Cons s ss)
  then obtain d1 where "add_str s d = Done d1" "fold_outcome add_str ss d1 = Done d'" by (auto simp: bind_outcome_Done_iff)
  then show ?case using Cons.IH [of d1] add_str_size [of s d d1] by simp
qed simp

text \<open>The size of the text of the identifiers, as it is in the dictionary at most.\<close>

definition text_size :: "dtn_bundle \<Rightarrow> nat" where
  "text_size b = sum_list (map (\<lambda>s. length s + 1) (concat (map eid_strings (bundle_eids b))))"

lemma sdnvs_size: "length (concat (map sdnv_bytes vs)) \<le> 10 * length vs"
proof (induction vs)
  case (Cons v vs)
  then show ?case using sdnv_bytes_length_bounds(2) [of v] by simp
qed simp

lemma primary_image_size:
  assumes "fold_outcome add_eid (bundle_eids b) empty_dictionary = Done d" and "primary_fields b d = Done vs"
  shows "length (primary_image b d vs) \<le> text_size b + 161"
proof -
  have "length vs = 12" using assms(2) by (auto simp: primary_fields_def bind_outcome_Done_iff)
  then have v: "length (concat (map sdnv_bytes vs)) \<le> 120" using sdnvs_size [of vs] by simp
  have "length (fragment_fields b) \<le> 2" by (simp add: fragment_fields_def)
  then have f: "length (concat (map sdnv_bytes (fragment_fields b))) \<le> 20" using sdnvs_size [of "fragment_fields b"] by simp
  have "length (d_bytes d) \<le> text_size b"
    using add_strs_size [of "concat (map eid_strings (bundle_eids b))" empty_dictionary d] assms(1)
    by (simp add: text_size_def add_eids_eq empty_dictionary_def)
  then show ?thesis
    using v f length_preamble_bytes(2) [of CURRENT_VERSION "primary_flags b" "length (primary_body b d vs)"]
    unfolding primary_image_def primary_body_def length_append by linarith
qed

end
