(* ===== verification/Bundle_Reception.thy ===== *)
theory Bundle_Reception
  imports Bundle_Transfer
begin

text \<open>
  A bundle without extension blocks at the receiver: the state of \<open>consume\<close> after any
  number of bytes, and the round trip from the sender's bundle to the receiver's.
\<close>

section \<open>One round in the primary block\<close>

lemma set_recv_blocks_fields [simp]:
  "set_recv_blocks xs (set_recv_blocks ys r) = set_recv_blocks xs r"
  "biv_blocks (b_recv_blocks (set_recv_blocks xs r)) = xs"
  "recv_dict (set_recv_blocks xs r) = recv_dict r"
  "b_payload (set_recv_blocks xs r) = b_payload r"
  by (simp_all add: set_recv_blocks_def recv_dict_def)

lemma blank_set_recv_blocks [simp]: "blank_bundle (set_recv_blocks xs r) = blank_bundle r"
  by (simp add: blank_bundle_def set_recv_blocks_def recv_dict_def receipt_requested_def)

lemma with_primary_set_recv_blocks [simp]:
  "with_primary_of b d (set_recv_blocks xs r) = set_recv_blocks xs (with_primary_of b d r)"
  by (simp add: with_primary_of_def set_recv_blocks_def set_recv_dict_def)

lemma with_primary_payload [simp]: "b_payload (with_primary_of b d r) = b_payload r"
  by (simp add: with_primary_of_def set_recv_dict_def)

text \<open>What the sender of the bundle \<open>b\<close> has put into the dictionary and the primary block.\<close>

definition sent_with :: "dtn_bundle \<Rightarrow> dictionary \<Rightarrow> u64 list \<Rightarrow> bool" where
  "sent_with b d vs \<longleftrightarrow>
     fold_outcome add_eid (bundle_eids b) empty_dictionary = Done d \<and> dict_inv d \<and>
     (\<forall>e \<in> set (bundle_eids b). \<exists>mn. eid_at d e mn) \<and> list_all eid_text_ok (bundle_eids b) \<and>
     primary_fields b d = Done vs \<and> length (primary_image b d vs) < 2 ^ 32 \<and>
     length (payload_preamble b) + pl_length (b_payload b) < 2 ^ 32"

lemma sent_with_exists:
  assumes "list_all eid_text_ok (bundle_eids b)" and "text_size b + 161 < 2 ^ 32" and "pl_length (b_payload b) + 21 < 2 ^ 32"
  shows "\<exists>d vs. sent_with b d vs"
proof -
  obtain d where d: "fold_outcome add_eid (bundle_eids b) empty_dictionary = Done d" "dict_inv d"
      "\<forall>e \<in> set (bundle_eids b). \<forall>ssp0. \<exists>m n. get_offsets d e ssp0 = Done (True, m, n)
       \<and> get_offset d (eid_scheme_str e) = Done (True, m) \<and> get_offset d (eid_ssp e) = Done (True, n)"
    using add_eids_offsets [OF assms(1)] by blast
  have at: "\<exists>mn. eid_at d e mn" "\<exists>m n. get_offsets d e 0 = Done (True, m, n)" if "e \<in> set (bundle_eids b)" for e
    using d(3) that by (auto simp: eid_at_def) blast
  obtain m1 n1 m2 n2 m3 n3 m4 n4 where
      "get_offsets d (b_dest b) 0 = Done (True, m1, n1)" "get_offsets d (b_source b) 0 = Done (True, m2, n2)"
      "get_offsets d (b_replyto b) 0 = Done (True, m3, n3)" "get_offsets d (b_custodian b) 0 = Done (True, m4, n4)"
    using at(2) [of "b_dest b"] at(2) [of "b_source b"] at(2) [of "b_replyto b"] at(2) [of "b_custodian b"]
    by (auto simp: bundle_eids_def)
  then obtain vs where vs: "primary_fields b d = Done vs" by (simp add: primary_fields_def)
  have "length (primary_image b d vs) < 2 ^ 32" using primary_image_size [OF d(1) vs] assms(2) by linarith
  moreover have "length (payload_preamble b) + pl_length (b_payload b) < 2 ^ 32"
    using length_preamble_bytes(2) [of 1 BLOCK_FLAG_LAST_BLOCK "pl_length (b_payload b)"] assms(3)
    unfolding payload_preamble_def by linarith
  ultimately show ?thesis using d(1,2) at(1) vs assms(1) unfolding sent_with_def by blast
qed

definition primary_preamble :: "dtn_bundle \<Rightarrow> dictionary \<Rightarrow> u64 list \<Rightarrow> byte list" where
  "primary_preamble b d vs = preamble_bytes CURRENT_VERSION (primary_flags b) (length (primary_body b d vs))"

lemma primary_image_parts: "primary_image b d vs = primary_preamble b d vs @ primary_body b d vs"
  by (simp add: primary_image_def primary_preamble_def)

text \<open>The primary block at the receiver, after the bytes \<open>p\<close> of it.\<close>

definition primary_after :: "dtn_bundle \<Rightarrow> dictionary \<Rightarrow> u64 list \<Rightarrow> byte list \<Rightarrow> bool \<Rightarrow> block_info" where
  "primary_after b d vs p complete = block_after PrimaryBP (primary_preamble b d vs) (length (primary_body b d vs)) p complete"

lemma primary_after_fields [simp]:
  "bi_owner (primary_after b d vs p c) = PrimaryBP" "bi_complete (primary_after b d vs p c) = c"
  by (simp_all add: primary_after_def block_after_def Let_def new_block_def)

lemma parse_primary_after:
  assumes s: "sent_with b d vs" and r: "blank_bundle r"
  shows "parse_primary (primary_after b d vs (primary_image b d vs) True) r = Done (True, with_primary_of b d r)"
proof -
  let ?P = "primary_image b d vs" and ?n = "length (primary_body b d vs)"
  have len: "length (primary_preamble b d vs) + ?n = length ?P" by (simp add: primary_image_parts)
  have P: "length ?P < 2 ^ 32" using s by (simp add: sent_with_def)
  obtain mn1 mn2 mn3 mn4 where at: "eid_at d (b_dest b) mn1" "eid_at d (b_source b) mn2" "eid_at d (b_replyto b) mn3"
      "eid_at d (b_custodian b) mn4"
    using s by (auto simp: sent_with_def bundle_eids_def)
  have block: "bi_contents (primary_after b d vs ?P True) = primary_preamble b d vs @ primary_body b d vs"
      "bi_data_length (primary_after b d vs ?P True) = of_nat ?n"
      "bi_data_offset (primary_after b d vs ?P True) = of_nat (length (primary_preamble b d vs))"
    by (simp_all add: primary_after_def block_after_def Let_def primary_image_parts)
  have tx: "list_all eid_text_ok [b_dest b, b_source b, b_replyto b, b_custodian b]"
    using s by (simp add: sent_with_def bundle_eids_def)
  have inv: "dict_inv d" and vs: "primary_fields b d = Done vs" using s by (simp_all add: sent_with_def)
  have total: "length (primary_preamble b d vs) + length (primary_body b d vs) < 2 ^ 32" using P len by simp
  obtain ds dp ss sp rs rp cs cp where mn: "mn1 = (ds, dp)" "mn2 = (ss, sp)" "mn3 = (rs, rp)" "mn4 = (cs, cp)"
    by (cases mn1; cases mn2; cases mn3; cases mn4)
  show ?thesis
    by (rule parse_primary_image [OF inv at [unfolded mn] tx vs refl _ total r block]) (simp add: primary_preamble_def)
  qed

lemma consume_primary_part:
  assumes s: "sent_with b d vs" and r: "blank_bundle r"
    and str: "p @ buf @ rest = primary_image b d vs @ later" and p: "length p < length (primary_image b d vs)"
  shows "primary_consume r (primary_after b d vs p False) buf =
    (let m = length (primary_image b d vs) - length p
     in Done (int (min (length buf) m), if m \<le> length buf then with_primary_of b d r else r,
          primary_after b d vs (p @ take m buf) (m \<le> length buf)))"
proof -
  let ?P = "primary_image b d vs" and ?n = "length (primary_body b d vs)"
  define m where "m = length ?P - length p"
  have len: "length (primary_preamble b d vs) + ?n = length ?P" by (simp add: primary_image_parts)
  have P: "length ?P < 2 ^ 32" using s by (simp add: sent_with_def)
  have n: "length (primary_preamble b d vs) + ?n < 2 ^ 32" using P by (simp only: len)
  have str': "p @ buf @ rest = primary_preamble b d vs @ primary_body b d vs @ later"
    by (simp add: str primary_image_parts)
  have p': "length p < length (primary_preamble b d vs) + ?n" using p by (simp only: len)
  have step: "bp_consume (recv_dict r) (primary_after b d vs p False) buf =
      Done (int (min (length buf) m), primary_after b d vs (p @ take m buf) (m \<le> length buf))"
    unfolding primary_after_def m_def len [symmetric] unfolding primary_preamble_def
    by (rule bp_consume_step [OF no_eid_refs n [unfolded primary_preamble_def] refl
        str' [unfolded primary_preamble_def] p' [unfolded primary_preamble_def], unfolded Let_def])
  have parse: "parse_primary (primary_after b d vs ?P True) r = Done (True, with_primary_of b d r)"
    by (rule parse_primary_after [OF s r])
  have whole: "p @ take m buf = ?P" if "m \<le> length buf"
  proof -
    have "take (length ?P) (p @ buf @ rest) = ?P" by (simp add: str)
    then show ?thesis using that p by (simp add: m_def)
  qed
  show ?thesis
    unfolding m_def [symmetric] Let_def primary_consume_def step
    using whole parse by (simp add: min_def)
qed

section \<open>One round in the payload block\<close>

definition payload_after :: "dtn_bundle \<Rightarrow> byte list \<Rightarrow> bool \<Rightarrow> block_info" where
  "payload_after b q complete = block_after PayloadBP (payload_preamble b) (pl_length (b_payload b)) q complete"

lemma payload_after_fields [simp]:
  "bi_owner (payload_after b q c) = PayloadBP" "bi_complete (payload_after b q c) = c" "bi_contents (payload_after b q c) = q"
  "(payload_after b q c)\<lparr>bi_complete := c'\<rparr> = payload_after b q c'"
  by (simp_all add: payload_after_def block_after_def Let_def new_block_def)

lemma payload_preamble_length: "3 \<le> length (payload_preamble b)" "length (payload_preamble b) \<le> 21"
  using length_preamble_bytes by (simp_all add: payload_preamble_def)

lemma payload_after_offset:
  assumes "length (payload_preamble b) + pl_length (b_payload b) < 2 ^ 32"
  shows "length q < length (payload_preamble b) \<Longrightarrow> bi_data_offset (payload_after b q c) = 0"
    and "unat (bi_data_offset (payload_after b (payload_preamble b) c)) = length (payload_preamble b)"
    and "bi_data_offset (payload_after b (payload_preamble b) c) \<noteq> 0"
    and "unat (bi_data_length (payload_after b (payload_preamble b) c)) = pl_length (b_payload b)"
    and "bi_data_length (payload_after b (payload_preamble b) c) = 0 \<longleftrightarrow> pl_length (b_payload b) = 0"
proof -
  show off: "unat (bi_data_offset (payload_after b (payload_preamble b) c)) = length (payload_preamble b)"
    and dat: "unat (bi_data_length (payload_after b (payload_preamble b) c)) = pl_length (b_payload b)"
    unfolding payload_after_def block_after_def Let_def using assms by (simp_all add: u32_of_nat)
  have "length (payload_preamble b) \<noteq> 0" using payload_preamble_length(1) [of b] by linarith
  then show "bi_data_offset (payload_after b (payload_preamble b) c) \<noteq> 0" using off by (metis unat_0)
  show "bi_data_length (payload_after b (payload_preamble b) c) = 0 \<longleftrightarrow> pl_length (b_payload b) = 0"
    using dat by (metis unat_0 unat_eq_zero)
qed (simp add: payload_after_def block_after_def Let_def new_block_def)

lemma payload_store_part:
  assumes fits: "length (payload_preamble b) + pl_length (b_payload b) < 2 ^ 32"
    and pl: "payload_ok (b_payload w)"
    and more: "pl_bytes (b_payload w) = u" "length u < pl_length (b_payload b) \<or> (u = [] \<and> pl_length (b_payload b) = 0)"
  shows "\<exists>pl'. payload_store w (payload_after b (payload_preamble b) False) buf c =
      Done (int (c + min (length buf) (pl_length (b_payload b) - length u)), w\<lparr>b_payload := pl'\<rparr>,
        payload_after b (payload_preamble b) (pl_length (b_payload b) \<le> length u + length buf)) \<and>
    payload_ok pl' \<and> pl_bytes pl' = u @ take (pl_length (b_payload b) - length u) buf"
proof -
  let ?x = "payload_after b (payload_preamble b) False" and ?n = "pl_length (b_payload b)"
  note off = payload_after_offset [OF fits]
  have loc: "pl_location (b_payload w) \<noteq> NODATA" and len: "pl_length (b_payload w) = length u"
    using pl more(1) length_pl_bytes [OF pl] by (simp_all add: payload_ok_def)
  consider "?n = 0" | "?n \<noteq> 0" "buf = []" | "length u < ?n" "buf \<noteq> []" using more(2) by auto
  then show ?thesis
  proof cases
    case 1
    then show ?thesis using off loc pl more
      by (intro exI [of _ "b_payload w"]) (simp add: payload_store_def)
  next
    case 2
    then show ?thesis using off loc pl more
      by (intro exI [of _ "b_payload w"]) (simp add: payload_store_def)
  next
    case 3
    define t where "t = min (length buf) (?n - length u)"
    obtain pl' where pl': "append_data (take t buf) (b_payload w) = Done pl'" "payload_ok pl'" "pl_bytes pl' = u @ take t buf"
      using append_data_ok [OF pl, of "take t buf"] more(1) by blast
    have wr: "write_data (take t buf) (length u) (pl_set_length (length u + t) (b_payload w)) = Done pl'"
      using pl'(1) len by (simp add: write_data_def append_data_def t_def pl_set_length_def min_def split: if_splits)
    have "take t buf = take (?n - length u) buf" by (auto simp: t_def min_def)
    have le: "(?n \<le> length u + length buf) = (?n - length u \<le> length buf)" by auto
    have "payload_store w ?x buf c = Done (int (c + t), w\<lparr>b_payload := pl'\<rparr>,
        payload_after b (payload_preamble b) (?n \<le> length u + length buf))"
      using 3 off loc len wr unfolding le
      by (cases "?n - length u \<le> length buf") (auto simp: payload_store_def Let_def t_def min_def)
    with pl' show ?thesis using \<open>take t buf = take (?n - length u) buf\<close> t_def by auto
  qed
qed

lemma no_eid_refs_last: "BLOCK_FLAG_LAST_BLOCK AND BLOCK_FLAG_EID_REFS = 0"
  by (simp add: BLOCK_FLAG_LAST_BLOCK_def BLOCK_FLAG_EID_REFS_def)

text \<open>The preamble is still missing some bytes, or it is whole.\<close>

lemma payload_consume_preamble:
  assumes fits: "length (payload_preamble b) + pl_length (b_payload b) < 2 ^ 32"
    and pl: "payload_ok (b_payload w)" "pl_bytes (b_payload w) = []"
    and str: "q @ buf @ rest = payload_preamble b @ later" and q: "length q < length (payload_preamble b)"
  shows "\<exists>pl'. payload_consume w (payload_after b q False) buf =
      Done (int (min (length buf) (length (payload_preamble b) + pl_length (b_payload b) - length q)), w\<lparr>b_payload := pl'\<rparr>,
        payload_after b (take (length (payload_preamble b)) (q @ buf))
          (length (payload_preamble b) + pl_length (b_payload b) \<le> length q + length buf)) \<and>
    payload_ok pl' \<and>
    pl_bytes pl' = drop (length (payload_preamble b)) (take (length (payload_preamble b) + pl_length (b_payload b)) (q @ buf))"
proof -
  let ?Q = "payload_preamble b" and ?n = "pl_length (b_payload b)"
  have off: "bi_data_offset (payload_after b q c) = 0" if "length q < length ?Q" for q c
    using payload_after_offset(1) [OF fits that] .
  have pl0: "pl_length (b_payload w) = 0" using length_pl_bytes [OF pl(1)] pl(2) by simp
  have "take (length q) ?Q = q" using arg_cong [OF str, of "take (length q)"] q by simp
  then obtain z where z: "?Q = q @ z" "z \<noteq> []" using q by (metis append_take_drop_id drop_eq_Nil not_le)
  have zstr: "buf @ rest = z @ later" using str unfolding z(1) by simp
  show ?thesis
  proof (cases "length buf < length z")
    case True
    then obtain r' where r': "z = buf @ r'" "r' \<noteq> []" using zstr by (auto simp: append_eq_append_conv2)
    have lt: "length (q @ buf) < length ?Q" using True by (simp add: z(1))
    have "consume_preamble (recv_dict w) (payload_after b q False) buf = Done (int (length buf), payload_after b (q @ buf) False)"
      unfolding payload_after_def payload_preamble_def
      by (rule consume_preamble_partial [OF _ r'(2) no_eid_refs_last]) (use z r' in \<open>simp add: payload_preamble_def\<close>)
    then have "payload_consume w (payload_after b q False) buf = Done (int (length buf), w, payload_after b (q @ buf) False)"
      using off [OF q] off [OF lt] pl0 by (simp add: payload_consume_def payload_store_def)
    moreover have "min (length buf) (length ?Q + ?n - length q) = length buf" using lt by simp
    ultimately show ?thesis using lt pl by (intro exI [of _ "b_payload w"]) simp
  next
    case False
    then obtain r' where r': "buf = z @ r'" using zstr by (auto simp: append_eq_append_conv2)
    have n: "?n < 2 ^ 32" using fits by linarith
    have cp: "consume_preamble (recv_dict w) (payload_after b q False) buf = Done (int (length z), payload_after b ?Q False)"
      using consume_preamble_whole [OF z(1) [unfolded payload_preamble_def] z(2) r' no_eid_refs_last n, of "recv_dict w" PayloadBP]
      unfolding payload_after_def payload_preamble_def [symmetric] z(1) [symmetric] .
    have u: "length ([] :: byte list) < ?n \<or> ([] :: byte list) = [] \<and> ?n = 0" by auto
    obtain pl' where pl': "payload_store w (payload_after b ?Q False) r' (length z) =
        Done (int (length z + min (length r') ?n), w\<lparr>b_payload := pl'\<rparr>, payload_after b ?Q (?n \<le> length r'))"
        "payload_ok pl'" "pl_bytes pl' = take ?n r'"
      using payload_store_part [OF fits pl u, of r' "length z"] by auto
    have "payload_consume w (payload_after b q False) buf =
        Done (int (length z + min (length r') ?n), w\<lparr>b_payload := pl'\<rparr>, payload_after b ?Q (?n \<le> length r'))"
      using off [OF q] pl0 cp pl'(1) r' by (simp add: payload_consume_def)
    then show ?thesis using pl' by (intro exI [of _ pl']) (simp add: r' z(1))
  qed
qed

lemma payload_consume_part:
  assumes fits: "length (payload_preamble b) + pl_length (b_payload b) < 2 ^ 32"
    and pl: "payload_ok (b_payload w)" "pl_bytes (b_payload w) = drop (length (payload_preamble b)) s"
    and str: "s @ buf @ rest = payload_preamble b @ later"
    and s: "length s < length (payload_preamble b) + pl_length (b_payload b)"
  shows "\<exists>pl'. payload_consume w (payload_after b (take (length (payload_preamble b)) s) False) buf =
      Done (int (min (length buf) (length (payload_preamble b) + pl_length (b_payload b) - length s)), w\<lparr>b_payload := pl'\<rparr>,
        payload_after b (take (length (payload_preamble b)) (s @ buf))
          (length (payload_preamble b) + pl_length (b_payload b) \<le> length s + length buf)) \<and>
    payload_ok pl' \<and>
    pl_bytes pl' = drop (length (payload_preamble b)) (take (length (payload_preamble b) + pl_length (b_payload b)) (s @ buf))"
proof (cases "length s < length (payload_preamble b)")
  case True
  then show ?thesis using payload_consume_preamble [OF fits pl(1) _ str True] pl(2) by simp
next
  case False
  let ?Q = "payload_preamble b" and ?n = "pl_length (b_payload b)"
  define u where "u = drop (length ?Q) s"
  have "take (length ?Q) s = ?Q" using arg_cong [OF str, of "take (length ?Q)"] False by simp
  then have s': "s = ?Q @ u" unfolding u_def by (metis append_take_drop_id)
  have u: "length u < ?n" using s by (simp add: s')
  obtain pl' where pl': "payload_store w (payload_after b ?Q False) buf 0 =
      Done (int (0 + min (length buf) (?n - length u)), w\<lparr>b_payload := pl'\<rparr>, payload_after b ?Q (?n \<le> length u + length buf))"
      "payload_ok pl'" "pl_bytes pl' = u @ take (?n - length u) buf"
    using payload_store_part [OF fits pl(1), of u buf 0] pl(2) u by (auto simp: s')
  then show ?thesis
    using payload_after_offset(3) [OF fits] u
    by (intro exI [of _ pl']) (simp add: payload_consume_def s')
qed

section \<open>The receiver after any number of bytes\<close>

definition wire_image :: "dtn_bundle \<Rightarrow> dictionary \<Rightarrow> u64 list \<Rightarrow> byte list" where
  "wire_image b d vs = primary_image b d vs @ payload_preamble b @ pl_bytes (b_payload b)"

text \<open>
  The state of the receiver that started as \<open>r\<close>, after the bytes \<open>p\<close>: in the primary block,
  between the blocks, or in the payload block.
\<close>

definition received_payload_block :: "dtn_bundle \<Rightarrow> byte list \<Rightarrow> block_info list" where
  "received_payload_block b s =
     (if s = [] then []
      else [payload_after b (take (length (payload_preamble b)) s)
              (length (payload_preamble b) + pl_length (b_payload b) \<le> length s)])"

definition receiving :: "dtn_bundle \<Rightarrow> dictionary \<Rightarrow> u64 list \<Rightarrow> dtn_bundle \<Rightarrow> byte list \<Rightarrow> dtn_bundle \<Rightarrow> bool" where
  "receiving b d vs r p st \<longleftrightarrow>
     (if length p < length (primary_image b d vs) then st = set_recv_blocks [primary_after b d vs p False] r
      else \<exists>s pl. p = primary_image b d vs @ s \<and> payload_ok pl \<and> pl_bytes pl = drop (length (payload_preamble b)) s \<and>
             st = set_recv_blocks (primary_after b d vs (primary_image b d vs) True # received_payload_block b s)
                    (with_primary_of b d r)\<lparr>b_payload := pl\<rparr>)"

lemma set_recv_blocks_payload:
  "set_recv_blocks xs (w\<lparr>b_payload := pl\<rparr>) = (set_recv_blocks xs w)\<lparr>b_payload := pl\<rparr>"
  "biv_blocks (b_recv_blocks (w\<lparr>b_payload := pl\<rparr>)) = biv_blocks (b_recv_blocks w)"
  by (simp_all add: set_recv_blocks_def)

lemma round_in_primary:
  assumes s: "sent_with b d vs" and r: "blank_bundle r" "payload_ok (b_payload r)" "pl_bytes (b_payload r) = []"
    and str: "p @ buf @ rest = wire_image b d vs @ later" and p: "length p < length (primary_image b d vs)"
    and st: "receiving b d vs r p st"
  shows "\<exists>st'. consume_round st buf = Done (MoreBlocks st' (drop (length (primary_image b d vs) - length p) buf)) \<and>
    receiving b d vs r (p @ take (length (primary_image b d vs) - length p) buf) st'"
proof -
  define m where "m = length (primary_image b d vs) - length p"
  have str': "p @ buf @ rest = primary_image b d vs @ (payload_preamble b @ pl_bytes (b_payload b) @ later)"
    by (simp add: str wire_image_def)
  have st': "st = set_recv_blocks [primary_after b d vs p False] r" using st p by (simp add: receiving_def)
  have cons: "primary_consume st (primary_after b d vs p False) buf =
     Done (int (min (length buf) m), if m \<le> length buf then with_primary_of b d st else st,
          primary_after b d vs (p @ take m buf) (m \<le> length buf))"
    using consume_primary_part [OF s _ str' p, of st] r(1) by (simp add: m_def st' Let_def)
  have round: "consume_round st buf = Done (MoreBlocks
      (set_recv_blocks [primary_after b d vs (p @ take m buf) (m \<le> length buf)]
         (if m \<le> length buf then with_primary_of b d st else st)) (drop m buf))"
    using cons by (auto simp: consume_round_def st' Let_def)
  have whole: "p @ take m buf = primary_image b d vs" if "m \<le> length buf"
  proof -
    have "take (length (primary_image b d vs)) (p @ buf @ rest) = primary_image b d vs" by (simp add: str')
    then show ?thesis using that p by (simp add: m_def)
  qed
  show ?thesis
  proof (cases "m \<le> length buf")
    case True
    have "receiving b d vs r (p @ take m buf)
        (set_recv_blocks [primary_after b d vs (p @ take m buf) True] (with_primary_of b d st))"
      unfolding whole [OF True] receiving_def
      using r(2,3) by (simp add: st' received_payload_block_def) (intro exI [of _ "b_payload r"], simp add: set_recv_blocks_def)
    then show ?thesis using round True by (simp add: m_def)
  next
    case False
    then have "receiving b d vs r (p @ take m buf) (set_recv_blocks [primary_after b d vs (p @ take m buf) False] st)"
      using False unfolding m_def by (simp add: receiving_def st') linarith
    then show ?thesis using round False by (simp add: m_def)
  qed
qed

lemma find_payload_processor: "find_processor 1 = PayloadBP"
  by (simp add: find_processor_def)

lemma payload_after_Nil: "new_block PayloadBP = payload_after b [] False"
  unfolding payload_after_def by (rule new_block_after) (use payload_preamble_length(1) [of b] in auto)

lemma payload_flags:
  assumes "q = payload_preamble b"
  shows "bi_flags (payload_after b q c) = Done BLOCK_FLAG_LAST_BLOCK"
  using preamble_flags(2) [of "payload_after b q c" BLOCK_FLAG_LAST_BLOCK "pl_length (b_payload b)" "[]"] assms
  by (simp add: payload_preamble_def)

lemma round_in_payload:
  assumes s: "sent_with b d vs" and b: "payload_ok (b_payload b)"
    and str: "p @ buf @ rest = wire_image b d vs @ later" and ne: "buf \<noteq> []"
    and p: "length (primary_image b d vs) \<le> length p" "length p < length (wire_image b d vs)"
    and st: "receiving b d vs r p st"
  shows "\<exists>st'. consume_round st buf =
      Done (if length (wire_image b d vs) \<le> length p + length buf
            then LastBlockDone st' (drop (length (wire_image b d vs) - length p) buf) else MoreBlocks st' []) \<and>
    receiving b d vs r (p @ take (length (wire_image b d vs) - length p) buf) st'"
proof -
  let ?P = "primary_image b d vs" and ?Q = "payload_preamble b" and ?n = "pl_length (b_payload b)"
  let ?w = "with_primary_of b d r" and ?prim = "primary_after b d vs (primary_image b d vs) True"
  have fits: "length ?Q + ?n < 2 ^ 32" using s by (simp add: sent_with_def)
  obtain z pl where z: "p = ?P @ z" "payload_ok pl" "pl_bytes pl = drop (length ?Q) z"
      "st = set_recv_blocks (?prim # received_payload_block b z) ?w\<lparr>b_payload := pl\<rparr>"
    using st p(1) by (auto simp: receiving_def)
  define m where "m = length (wire_image b d vs) - length p"
  have S: "length (wire_image b d vs) = length ?P + (length ?Q + ?n)"
    using length_pl_bytes [OF b] by (simp add: wire_image_def)
  have m: "m = length ?Q + ?n - length z" "length z < length ?Q + ?n"
    using p(2) by (simp_all add: m_def S z(1))
  have zstr: "z @ buf @ rest = ?Q @ (pl_bytes (b_payload b) @ later)" using str by (simp add: z(1) wire_image_def)
  define info where "info = payload_after b (take (length ?Q) z) False"
  have blocks: "(let xs = biv_blocks (b_recv_blocks st)
      in if bi_complete (last xs) then xs @ [new_block (find_processor (hd buf))] else xs) = [?prim, info]"
  proof (cases "z = []")
    case True
    have "hd buf = 1"
      using zstr ne by (cases buf) (auto simp: True payload_preamble_def preamble_bytes_def)
    then show ?thesis using True
      by (simp add: z(4) set_recv_blocks_payload received_payload_block_def find_payload_processor info_def payload_after_Nil [of b])
  next
    case False
    then show ?thesis using m(2) by (simp add: z(4) set_recv_blocks_payload received_payload_block_def info_def)
  qed
  let ?w' = "set_recv_blocks [?prim, info] ?w\<lparr>b_payload := pl\<rparr>"
  have w': "set_recv_blocks [?prim, info] st = ?w'" by (simp add: z(4) set_recv_blocks_payload)
  have pl: "payload_ok (b_payload ?w')" "pl_bytes (b_payload ?w') = drop (length ?Q) z" using z(2,3) by simp_all
  define done' where "done' = (length ?Q + ?n \<le> length z + length buf)"
  obtain pl' where pl': "payload_consume ?w' info buf =
      Done (int (min (length buf) m), ?w'\<lparr>b_payload := pl'\<rparr>, payload_after b (take (length ?Q) (z @ buf)) done')"
      "payload_ok pl'" "pl_bytes pl' = drop (length ?Q) (take (length ?Q + ?n) (z @ buf))"
    using payload_consume_part [OF fits pl zstr m(2)] unfolding info_def m(1) done'_def by blast
  define info' where "info' = payload_after b (take (length ?Q) (z @ buf)) done'"
  define st' where "st' = set_recv_blocks [?prim, info'] ?w\<lparr>b_payload := pl'\<rparr>"
  have upd: "set_recv_blocks [?prim, info'] (?w'\<lparr>b_payload := pl'\<rparr>) = st'"
    by (simp add: st'_def set_recv_blocks_payload)
  have owner: "bi_owner info = PayloadBP" "bi_complete info' = done'" by (simp_all add: info_def info'_def)
  have flags: "bi_flags info' = Done BLOCK_FLAG_LAST_BLOCK" if "done'"
  proof -
    have "take (length ?Q) (z @ buf) = ?Q"
      using arg_cong [OF zstr, of "take (length ?Q)"] that by (simp add: done'_def)
    then show ?thesis unfolding info'_def by (rule payload_flags)
  qed
  have finished: "done' \<longleftrightarrow> length (wire_image b d vs) \<le> length p + length buf" "done' \<longleftrightarrow> m \<le> length buf"
    using m by (auto simp: done'_def S z(1))
  have nz: "BLOCK_FLAG_LAST_BLOCK AND BLOCK_FLAG_LAST_BLOCK \<noteq> 0" by (simp add: BLOCK_FLAG_LAST_BLOCK_def)
  have cons: "payload_consume ?w' info buf = Done (int (min (length buf) m), ?w'\<lparr>b_payload := pl'\<rparr>, info')"
    unfolding info'_def by (rule pl'(1))
  have drops: "drop (min (length buf) m) buf = drop m buf" by (simp add: min_def)
  have round: "consume_round st buf =
      Done (if done' then LastBlockDone st' (drop m buf) else MoreBlocks st' [])"
    unfolding consume_round_def blocks [unfolded Let_def] Let_def
    using flags nz finished(2) drops
    by (cases done') (simp_all add: w' owner cons st'_def set_recv_blocks_payload)
  have take: "take (length ?Q + ?n) (z @ buf) = z @ take m buf" using m by simp
  have t2: "take (length ?Q) (z @ take m buf) = take (length ?Q) (z @ buf)"
    unfolding take [symmetric] by (simp add: min_def)
  have "received_payload_block b (z @ take m buf) = [info']"
    unfolding received_payload_block_def t2 info'_def using ne m finished(2)
    by (auto simp: done'_def)
  then have "receiving b d vs r (p @ take m buf) st'"
    unfolding receiving_def using pl'(2,3) unfolding take
    by (auto simp: z(1) st'_def)
  then show ?thesis using round unfolding finished(1) m_def [symmetric] by blast
qed

section \<open>One call, and all calls\<close>

lemma wire_image_longer: "length (primary_image b d vs) < length (wire_image b d vs)"
  using payload_preamble_length(1) [of b] unfolding wire_image_def length_append by linarith

lemma loop_in_payload:
  assumes "sent_with b d vs" and "payload_ok (b_payload b)"
    and "p @ buf @ rest = wire_image b d vs @ later"
    and "length (primary_image b d vs) \<le> length p" "length p < length (wire_image b d vs)"
    and "receiving b d vs r p st"
  shows "\<exists>st'. consume_loop st buf =
      Some (Done (Some (length buf - (length (wire_image b d vs) - length p)),
                  length (wire_image b d vs) \<le> length p + length buf, st')) \<and>
    receiving b d vs r (p @ take (length (wire_image b d vs) - length p) buf) st'"
proof (cases "buf = []")
  case True
  then show ?thesis using assms(5,6) by (subst consume_loop.simps) (simp add: not_le)
next
  case False
  then obtain st' where st': "consume_round st buf =
      Done (if length (wire_image b d vs) \<le> length p + length buf
            then LastBlockDone st' (drop (length (wire_image b d vs) - length p) buf) else MoreBlocks st' [])"
      "receiving b d vs r (p @ take (length (wire_image b d vs) - length p) buf) st'"
    using round_in_payload [OF assms(1-3) _ assms(4-6)] by blast
  have "consume_loop st' [] = Some (Done (Some 0, False, st'))" by (subst consume_loop.simps) simp
  then show ?thesis using False st'
    by (subst consume_loop.simps) (cases "length (wire_image b d vs) \<le> length p + length buf", auto)
qed

lemma loop_step:
  assumes s: "sent_with b d vs" and b: "payload_ok (b_payload b)"
    and r: "blank_bundle r" "payload_ok (b_payload r)" "pl_bytes (b_payload r) = []"
    and str: "p @ buf @ rest = wire_image b d vs @ later" and p: "length p < length (wire_image b d vs)"
    and st: "receiving b d vs r p st"
  shows "\<exists>st'. consume_loop st buf =
      Some (Done (Some (length buf - (length (wire_image b d vs) - length p)),
                  length (wire_image b d vs) \<le> length p + length buf, st')) \<and>
    receiving b d vs r (p @ take (length (wire_image b d vs) - length p) buf) st'"
proof (cases "length (primary_image b d vs) \<le> length p")
  case True
  then show ?thesis using loop_in_payload [OF s b str True p st] by blast
next
  case False
  let ?S = "wire_image b d vs" and ?P = "primary_image b d vs"
  show ?thesis
  proof (cases "buf = []")
    case True
    then show ?thesis using p st by (subst consume_loop.simps) (simp add: not_le)
  next
    case ne: False
    have short: "length p < length ?P" using False by simp
    define m where "m = length ?P - length p"
    obtain st1 where st1: "consume_round st buf = Done (MoreBlocks st1 (drop m buf))"
        "receiving b d vs r (p @ take m buf) st1"
      using round_in_primary [OF s r str short st] unfolding m_def by blast
    have loop: "consume_loop st buf = consume_loop st1 (drop m buf)"
      using ne st1(1) by (subst consume_loop.simps) simp
    show ?thesis
    proof (cases "m \<le> length buf")
      case True
      have str1: "(p @ take m buf) @ drop m buf @ rest = ?S @ later" using str by (simp flip: append_assoc) simp
      have len: "length (p @ take m buf) = length ?P" using True short by (simp add: m_def)
      obtain st' where st': "consume_loop st1 (drop m buf) =
          Some (Done (Some (length (drop m buf) - (length ?S - length ?P)), length ?S \<le> length ?P + length (drop m buf), st'))"
          "receiving b d vs r ((p @ take m buf) @ take (length ?S - length ?P) (drop m buf)) st'"
        using loop_in_payload [OF s b str1 _ _ st1(2)] wire_image_longer [of b d vs] unfolding len by blast
      have "length (drop m buf) - (length ?S - length ?P) = length buf - (length ?S - length p)"
        "(length ?S \<le> length ?P + length (drop m buf)) = (length ?S \<le> length p + length buf)"
        using True short wire_image_longer [of b d vs] by (auto simp: m_def)
      note counts = this
      have whole: "(p @ take m buf) @ take (length ?S - length ?P) (drop m buf) = p @ take (length ?S - length p) buf"
      proof -
        have "length ?S - length p = m + (length ?S - length ?P)"
          using short wire_image_longer [of b d vs] by (simp add: m_def)
        then show ?thesis by (simp add: take_add)
      qed
      show ?thesis using st' unfolding loop counts whole by blast
    next
      case False
      then have "length p + length buf < length ?P" by (simp add: m_def)
      then have small: "length p + length buf < length ?S" "length buf - (length ?S - length p) = 0"
        "take m buf = buf" "take (length ?S - length p) buf = buf"
        using wire_image_longer [of b d vs] False by auto
      have "consume_loop st1 (drop m buf) = Some (Done (Some 0, False, st1))"
        using False by (subst consume_loop.simps) simp
      then show ?thesis using small st1(2) unfolding loop by (auto simp: not_le)
    qed
  qed
qed

lemma first_block_receiving:
  assumes "receiving b d vs r p st"
  shows "first_block st = st"
  using assms by (auto simp: receiving_def first_block_def set_recv_blocks_payload split: if_splits)

lemma primary_preamble_ne: "primary_preamble b d vs \<noteq> []"
  by (simp add: primary_preamble_def preamble_bytes_def)

lemma receiving_Nil:
  assumes "biv_blocks (b_recv_blocks r) = []"
  shows "receiving b d vs r [] (first_block r)"
proof -
  have "primary_image b d vs \<noteq> []" by (simp add: primary_image_parts primary_preamble_ne)
  moreover have "new_block PrimaryBP = primary_after b d vs [] False"
    unfolding primary_after_def by (rule new_block_after [OF primary_preamble_ne])
  ultimately show ?thesis using assms by (simp add: receiving_def first_block_def)
qed

lemma consume_step:
  assumes s: "sent_with b d vs" and b: "payload_ok (b_payload b)"
    and r: "blank_bundle r" "payload_ok (b_payload r)" "pl_bytes (b_payload r) = []"
    and str: "p @ buf @ rest = wire_image b d vs @ later" and p: "length p < length (wire_image b d vs)"
    and st: "receiving b d vs r p (first_block st)"
  shows "\<exists>st'. bundle_consume st buf =
      Some (Done (int (min (length buf) (length (wire_image b d vs) - length p)),
                  length (wire_image b d vs) \<le> length p + length buf, st')) \<and>
    receiving b d vs r (p @ take (length (wire_image b d vs) - length p) buf) st'"
proof -
  obtain st' where "consume_loop (first_block st) buf =
      Some (Done (Some (length buf - (length (wire_image b d vs) - length p)),
                  length (wire_image b d vs) \<le> length p + length buf, st'))"
      "receiving b d vs r (p @ take (length (wire_image b d vs) - length p) buf) st'"
    using loop_step [OF s b r str p st] by blast
  then show ?thesis by (intro exI [of _ st']) (auto simp: bundle_consume_def min_def)
qed

text \<open>
  The calls with successive pieces: each takes its whole piece, and the last call, and only
  it, reports the end of the bundle.
\<close>

fun receive :: "dtn_bundle \<Rightarrow> byte list list \<Rightarrow> dtn_bundle option" where
  "receive b [] = Some b"
| "receive b (c # cs) =
     (case bundle_consume b c of
        Some (Done (n, last', b')) \<Rightarrow> if n = int (length c) \<and> last' = (cs = []) then receive b' cs else None
      | _ \<Rightarrow> None)"

lemma receive_from:
  assumes s: "sent_with b d vs" and b: "payload_ok (b_payload b)"
    and r: "blank_bundle r" "payload_ok (b_payload r)" "pl_bytes (b_payload r) = []"
  shows "p @ concat cs = wire_image b d vs \<Longrightarrow> [] \<notin> set cs \<Longrightarrow> cs \<noteq> [] \<Longrightarrow> receiving b d vs r p (first_block st) \<Longrightarrow>
    \<exists>st'. receive st cs = Some st' \<and> receiving b d vs r (wire_image b d vs) st'"
proof (induction cs arbitrary: p st)
  case (Cons c cs)
  let ?S = "wire_image b d vs"
  have S: "length p + length c + length (concat cs) = length ?S"
    using arg_cong [OF Cons.prems(1), of length] by simp
  have str: "p @ c @ concat cs = ?S @ []" using Cons.prems(1) by simp
  have c: "length p < length ?S" using S Cons.prems(2) by (cases c) auto
  obtain st' where st': "bundle_consume st c = Some (Done (int (min (length c) (length ?S - length p)),
        length ?S \<le> length p + length c, st'))"
      "receiving b d vs r (p @ take (length ?S - length p) c) st'"
    using consume_step [OF s b r str c Cons.prems(4)] by blast
  have whole: "min (length c) (length ?S - length p) = length c" "take (length ?S - length p) c = c"
    using S by auto
  have last: "(length ?S \<le> length p + length c) = (cs = [])"
  proof (cases cs)
    case (Cons a list)
    then have "0 < length (concat cs)" using Cons.prems(2) by (cases a) auto
    then have "length p + length c < length ?S" using S by linarith
    then show ?thesis using Cons by simp
  qed (use S in simp)
  show ?case
  proof (cases "cs = []")
    case True
    then have "p @ c = ?S" using Cons.prems(1) by simp
    then show ?thesis using st' True unfolding whole last by simp
  next
    case False
    have "receiving b d vs r (p @ c) (first_block st')"
      using st'(2) first_block_receiving [OF st'(2)] unfolding whole by simp
    then show ?thesis
      using Cons.IH [of "p @ c" st'] Cons.prems(1,2) False st'(1) unfolding whole last by simp
  qed
qed simp

section \<open>The round trip\<close>

text \<open>Identifiers that the parser gives back for their own text.\<close>

definition eids_parse_back :: "dtn_bundle \<Rightarrow> bool" where
  "eids_parse_back b \<longleftrightarrow> list_all (\<lambda>e. eid_text_ok e \<and> eid_over_wire e = e) (bundle_eids b)"

text \<open>A fresh bundle object, as a convergence layer makes it for arriving data.\<close>

definition awaiting :: "dtn_bundle \<Rightarrow> bool" where
  "awaiting r \<longleftrightarrow> blank_bundle r \<and> biv_blocks (b_recv_blocks r) = [] \<and> payload_ok (b_payload r) \<and> pl_bytes (b_payload r) = []"

text \<open>What a bundle is to the protocol: all fields of the primary block, and the payload.\<close>

definition same_contents :: "dtn_bundle \<Rightarrow> dtn_bundle \<Rightarrow> bool" where
  "same_contents b r \<longleftrightarrow>
     b_source r = b_source b \<and> b_dest r = b_dest b \<and> b_replyto r = b_replyto b \<and> b_custodian r = b_custodian b \<and>
     b_is_fragment r = b_is_fragment b \<and> b_is_admin r = b_is_admin b \<and> b_do_not_fragment r = b_do_not_fragment b \<and>
     b_custody_requested r = b_custody_requested b \<and> b_singleton_dest r = b_singleton_dest b \<and>
     b_app_acked_rcpt r = b_app_acked_rcpt b \<and> b_priority r = b_priority b \<and>
     b_receive_rcpt r = b_receive_rcpt b \<and> b_custody_rcpt r = b_custody_rcpt b \<and> b_forward_rcpt r = b_forward_rcpt b \<and>
     b_delivery_rcpt r = b_delivery_rcpt b \<and> b_deletion_rcpt r = b_deletion_rcpt b \<and>
     b_creation_ts r = b_creation_ts b \<and> b_expiration r = b_expiration b \<and>
     (b_is_fragment b \<longrightarrow> b_frag_offset r = b_frag_offset b \<and> b_orig_length r = b_orig_length b) \<and>
     pl_bytes (b_payload r) = pl_bytes (b_payload b)"

lemma priority_small:
  assumes "(x :: byte) < 4"
  shows "x AND 3 = x"
proof -
  have m: "(3 :: byte) = mask 2" by (simp add: mask_eq_exp_minus_1)
  show ?thesis using assms unfolding m take_bit_eq_mask [symmetric]
    by (simp add: word_unat_eq_iff unsigned_take_bit_eq take_bit_nat_eq_self_iff word_less_nat_alt)
qed

lemma generate_blocks_length:
  assumes "generate_blocks b env v = Done (n, v')"
  shows "n = total_length v'"
  using assms unfolding generate_blocks_def
  by (auto simp: assert_that_def Let_def total_length_def bind_outcome_Done_iff split: if_splits)

lemma formatted_total_length:
  "formatted_blocks b xs \<Longrightarrow> sum_list (map (\<lambda>x. unat (full_length x)) xs) = length (bundle_image b xs)"
  by (induction xs) (simp_all add: formatted_def)

lemma sent_blocks:
  assumes "plain_bundle b env" and s: "sent_with b d vs" and "payload_ok (b_payload b)"
  shows "prepare_blocks b env = Done (two_blocks d)"
    and "generate_blocks b env (two_blocks d) =
      Done (length (wire_image b d vs), (two_blocks d)\<lparr>biv_blocks := generated_blocks b d vs\<rparr>)"
    and "formatted_blocks b (generated_blocks b d vs)" and "bundle_image b (generated_blocks b d vs) = wire_image b d vs"
proof -
  have add: "fold_outcome add_eid (bundle_eids b) empty_dictionary = Done d" and vs: "primary_fields b d = Done vs"
    and P: "length (primary_image b d vs) < 2 ^ 32" and Q: "length (payload_preamble b) + pl_length (b_payload b) < 2 ^ 32"
    using s by (simp_all add: sent_with_def)
  show "prepare_blocks b env = Done (two_blocks d)" by (rule prepare_plain [OF assms(1) add])
  have body: "length (primary_body b d vs) < 2 ^ 64" using P unfolding primary_image_def length_append by simp
  have pl: "pl_length (b_payload b) < 2 ^ 32" using Q by linarith
  have "\<forall>e \<in> set (bundle_eids b). \<exists>m n. eid_at d e (m, n)" using s by (simp add: sent_with_def)
  then have "\<forall>e \<in> set (bundle_eids b). \<exists>m n. get_offsets d e 0 = Done (True, m, n)" using eid_at_offsets by blast
  then obtain m1 n1 m2 n2 m3 n3 m4 n4 where
      "get_offsets d (b_dest b) 0 = Done (True, m1, n1)" "get_offsets d (b_source b) 0 = Done (True, m2, n2)"
      "get_offsets d (b_replyto b) 0 = Done (True, m3, n3)" "get_offsets d (b_custodian b) 0 = Done (True, m4, n4)"
    by (simp add: bundle_eids_def) blast
  then obtain n where gen: "generate_blocks b env (two_blocks d) = Done (n, (two_blocks d)\<lparr>biv_blocks := generated_blocks b d vs\<rparr>)"
    using generate_plain [OF vs body pl] by blast
  show f: "formatted_blocks b (generated_blocks b d vs)"
    and i: "bundle_image b (generated_blocks b d vs) = wire_image b d vs"
    using generated_formatted [OF P Q assms(3)] by (simp_all add: wire_image_def)
  have "n = length (wire_image b d vs)"
    using generate_blocks_length [OF gen] formatted_total_length [OF f] i by (simp add: total_length_def)
  then show "generate_blocks b env (two_blocks d) =
      Done (length (wire_image b d vs), (two_blocks d)\<lparr>biv_blocks := generated_blocks b d vs\<rparr>)"
    using gen by simp
qed

lemma received_same_contents:
  assumes "receiving b d vs r (wire_image b d vs) st" and "eids_parse_back b" and "b_priority b < 4"
  shows "same_contents b st"
proof -
  obtain s pl where s: "wire_image b d vs = primary_image b d vs @ s" "pl_bytes pl = drop (length (payload_preamble b)) s"
      "st = set_recv_blocks (primary_after b d vs (primary_image b d vs) True # received_payload_block b s)
              (with_primary_of b d r)\<lparr>b_payload := pl\<rparr>"
    using assms(1) wire_image_longer [of b d vs] by (auto simp: receiving_def)
  then have "s = payload_preamble b @ pl_bytes (b_payload b)" by (simp add: wire_image_def)
  then show ?thesis
    using s(2) assms(2,3)
    by (simp add: s(3) same_contents_def set_recv_blocks_def with_primary_of_def set_recv_dict_def eids_parse_back_def
        bundle_eids_def priority_small)
qed

lemma produce_all:
  assumes "payload_ok (b_payload b)" and "formatted_blocks b xs" and "0 < length (bundle_image b xs)"
  shows "\<exists>b'. produce b xs 0 (length (bundle_image b xs)) =
    Done (bundle_image b xs, length (bundle_image b xs), True, b')"
proof -
  obtain y ys k where sk: "produce_skip xs 0 = Done (y # ys, k)" "formatted_blocks b (y # ys)" "k < length (block_image b y)"
      "drop 0 (bundle_image b xs) = drop k (bundle_image b (y # ys))"
      "length (bundle_image b xs) - 0 = length (bundle_image b (y # ys)) - k"
    using produce_skip_block [OF assms(2,3)] by blast
  show ?thesis
    using produce_from_part [OF assms(1) sk(2,3) assms(3)] sk(1,4,5) assms(3)
    by (auto simp: produce_def simp del: bundle_image_simps produce_from.simps)
qed

text \<open>
  C13. From node to node: a bundle without extension blocks is prepared and formatted at the
  sender without a failed assertion, what \<open>produce\<close> copies out is cut into arbitrary pieces
  that are not empty, and \<open>consume\<close> takes these pieces, one per call. Every call takes its
  whole piece, exactly the last one reports the end of the bundle, and the bundle that arrives
  has the same identifiers, flags, times and payload.
\<close>

theorem bundle_roundtrip:
  assumes "plain_bundle b env" and "eids_parse_back b" and "b_priority b < 4" and "payload_ok (b_payload b)"
    and "text_size b + 161 < 2 ^ 32" and "pl_length (b_payload b) + 21 < 2 ^ 32" and "awaiting r"
  shows "\<exists>v len v' image b'. prepare_blocks b env = Done v \<and> generate_blocks b env v = Done (len, v') \<and>
    produce b (biv_blocks v') 0 len = Done (image, len, True, b') \<and>
    (\<forall>pieces. concat pieces = image \<and> [] \<notin> set pieces \<longrightarrow> (\<exists>r'. receive r pieces = Some r' \<and> same_contents b r'))"
proof -
  have tx: "list_all eid_text_ok (bundle_eids b)" using assms(2) by (auto simp: eids_parse_back_def list_all_iff)
  obtain d vs where s: "sent_with b d vs" using sent_with_exists [OF tx assms(5,6)] by blast
  note sent = sent_blocks [OF assms(1) s assms(4)]
  let ?S = "wire_image b d vs" and ?v' = "(two_blocks d)\<lparr>biv_blocks := generated_blocks b d vs\<rparr>"
  have ne: "0 < length ?S" using wire_image_longer [of b d vs] by linarith
  obtain b' where p: "produce b (biv_blocks ?v') 0 (length ?S) = Done (?S, length ?S, True, b')"
    using produce_all [OF assms(4) sent(3)] ne unfolding sent(4) by auto
  have "\<exists>r'. receive r pieces = Some r' \<and> same_contents b r'" if pieces: "concat pieces = ?S" "[] \<notin> set pieces" for pieces
  proof -
    have r: "blank_bundle r" "payload_ok (b_payload r)" "pl_bytes (b_payload r) = []" "biv_blocks (b_recv_blocks r) = []"
      using assms(7) by (simp_all add: awaiting_def)
    have "pieces \<noteq> []" using pieces(1) ne by auto
    then obtain r' where "receive r pieces = Some r'" "receiving b d vs r ?S r'"
      using receive_from [OF s assms(4) r(1-3), of "[]" pieces r] pieces receiving_Nil [OF r(4)] by auto
    then show ?thesis using received_same_contents assms(2,3) by blast
  qed
  then show ?thesis using sent(1,2) p by blast
qed

text \<open>A bundle with three bytes of payload, for the examples.\<close>

definition example_payload :: payload where
  "example_payload = \<lparr>pl_location = MEMORY, pl_store = [1, 2, 3], pl_length = 3, pl_cur_offset = 0, pl_file_pos = 0\<rparr>"

definition example_bundle :: dtn_bundle where
  "example_bundle = (new_bundle 100 7 example_payload)
     \<lparr>b_source := example_eid, b_dest := example_eid, b_replyto := example_eid, b_custodian := example_eid\<rparr>"

definition example_env :: xmit_env where
  "example_env = \<lparr>env_link = Some 0, env_prevhop_hdr = False, env_local_eid = ''dtn://h''\<rparr>"

lemma example_payload_ok: "payload_ok example_payload" "pl_bytes example_payload = [1, 2, 3]" "pl_length example_payload = 3"
  by (simp_all add: payload_ok_def pl_bytes_def example_payload_def)

lemma example_plain: "plain_bundle example_bundle example_env"
  by (simp add: plain_bundle_def example_bundle_def new_bundle_def empty_biv_def example_env_def empty_eid_def new_uri_def eid_str_def Let_def)

lemma example_payload_bundle: "b_payload example_bundle = example_payload" "b_priority example_bundle = 1"
  "bundle_eids example_bundle = [example_eid, example_eid, example_eid, example_eid]"
  by (simp_all add: example_bundle_def new_bundle_def Let_def bundle_eids_def)

lemma example_eids: "eids_parse_back example_bundle"
proof -
  have "eid_text_ok example_eid \<and> eid_over_wire example_eid = example_eid" by code_simp
  then show ?thesis by (simp add: eids_parse_back_def example_payload_bundle)
qed

lemma example_text_size: "text_size example_bundle + 161 < 2 ^ 32" "list_all eid_text_ok (bundle_eids example_bundle)"
proof -
  have "text_size example_bundle < 100" by code_simp
  then show "text_size example_bundle + 161 < 2 ^ 32" by simp
  show "list_all eid_text_ok (bundle_eids example_bundle)"
    using example_eids by (auto simp: eids_parse_back_def list_all_iff)
qed

lemma example_awaiting: "awaiting (new_bundle 100 8 (payload_init False DISK []))"
  by (simp add: awaiting_def new_bundle_blank) (simp add: new_bundle_def empty_biv_def payload_init_ok Let_def)

theorem bundle_roundtrip_witness:
  "\<exists>image r'. image \<noteq> [] \<and>
     receive (new_bundle 100 8 (payload_init False DISK [])) (map (\<lambda>x. [x]) image) = Some r' \<and> same_contents example_bundle r'"
proof -
  obtain len and v' :: block_info_vec and image b' where w: "produce example_bundle (biv_blocks v') 0 len = Done (image, len, True, b')"
      "\<forall>pieces. concat pieces = image \<and> [] \<notin> set pieces \<longrightarrow>
        (\<exists>r'. receive (new_bundle 100 8 (payload_init False DISK [])) pieces = Some r' \<and> same_contents example_bundle r')"
  proof -
    have "b_priority example_bundle < 4" "payload_ok (b_payload example_bundle)"
        "pl_length (b_payload example_bundle) + 21 < 2 ^ 32"
      by (simp_all add: example_payload_bundle example_payload_ok)
    from bundle_roundtrip [OF example_plain example_eids this(1,2) example_text_size(1) this(3) example_awaiting]
    show ?thesis by (elim exE conjE) (rule that, assumption+)
  qed
  have "concat (map (\<lambda>x. [x]) image) = image" "[] \<notin> set (map (\<lambda>x. [x]) image)" by auto
  then obtain r' where r': "receive (new_bundle 100 8 (payload_init False DISK [])) (map (\<lambda>x. [x]) image) = Some r'"
      "same_contents example_bundle r'" using w(2) by blast
  moreover have "image \<noteq> []"
  proof
    assume "image = []"
    then have "b_source r' = empty_eid" using r'(1) by (simp add: new_bundle_def Let_def) (metis dtn_bundle.select_convs(1))
    then show False using r'(2) by (simp add: same_contents_def example_bundle_def new_bundle_def Let_def example_eid_def empty_eid_def)
  qed
  ultimately show ?thesis by blast
qed

theorem produce_any_part_witness:
  "\<exists>xs b'. length (bundle_image example_bundle xs) > 10 \<and>
    produce example_bundle xs 2 3 = Done (take 3 (drop 2 (bundle_image example_bundle xs)), 3, False, b')"
proof -
  obtain d vs where s: "sent_with example_bundle d vs"
    using sent_with_exists [OF example_text_size(2,1)] by (auto simp: example_payload_bundle example_payload_ok)
  have ok: "payload_ok (b_payload example_bundle)" by (simp add: example_payload_bundle example_payload_ok)
  note sent = sent_blocks [OF example_plain s ok]
  have len: "10 < length (wire_image example_bundle d vs)"
  proof -
    have "length vs = 12" using s by (auto simp: sent_with_def primary_fields_def bind_outcome_Done_iff)
    then have "12 \<le> length (concat (map sdnv_bytes vs))"
      using sum_list_mono [of vs "\<lambda>_. 1" "\<lambda>v. length (sdnv_bytes v)"] sdnv_bytes_length_bounds(1)
      by (simp add: length_concat comp_def sum_list_triv)
    then show ?thesis by (simp add: wire_image_def primary_image_def primary_body_def)
  qed
  then show ?thesis
    using produce_any_part [OF ok sent(3), of 2 3] unfolding sent(4)
    by (intro exI [of _ "generated_blocks example_bundle d vs"]) (auto simp: sent(4) min_def)
qed

end
