(* ===== verification/Consume_Progress.thy ===== *)
theory Consume_Progress
  imports Bundle_Protocol
begin

text \<open>
  The loop of \<open>BundleProtocol::consume\<close> returns on every input. A block that has just been
  made takes at least one byte of its preamble, and a round that takes no byte completes a
  block without data.
\<close>

section \<open>What one call takes\<close>

lemma consume_preamble_takes:
  assumes "consume_preamble d x buf = Done (cc, y)" and "buf \<noteq> []"
  shows "cc = -1 \<or> 0 < cc"
proof -
  have "if_done (\<lambda>(cc, y). cc = -1 \<or> 0 < cc) (consume_preamble d x buf)"
    unfolding consume_preamble_def
    by ((rule if_done_Let_result | assumption
         | rule if_done_assert if_done_bind if_done_Let_any if_done_if if_done_prod if_done_option
         | (use assms(2) in \<open>simp only: if_done_simps prod.case, simp; fail\<close>))+)
  then show ?thesis using assms(1) by simp
qed

lemma consume_data_takes:
  assumes "consume_data x buf c = Done (cc, y)"
  shows "int c \<le> cc"
  using assms unfolding consume_data_def
  by (auto simp: assert_that_def Let_def split: if_splits prod.splits)

lemma bp_consume_takes:
  assumes "bp_consume d x buf = Done (cc, y)"
  shows "-1 \<le> cc" and "bi_data_offset x = 0 \<Longrightarrow> buf \<noteq> [] \<Longrightarrow> cc = -1 \<or> 0 < cc"
proof -
  show "-1 \<le> cc"
    using assms consume_data_takes unfolding bp_consume_def
    by (fastforce simp: assert_that_def bind_outcome_Done_iff split: if_splits)
next
  assume off: "bi_data_offset x = 0" and "buf \<noteq> []"
  obtain c z where c: "consume_preamble d x buf = Done (c, z)"
      "(if c = -1 then Done (-1, z) else consume_data z (drop (nat c) buf) (nat c)) = Done (cc, y)"
    using assms off unfolding bp_consume_def by (auto simp: assert_that_def bind_outcome_Done_iff split: if_splits)
  then show "cc = -1 \<or> 0 < cc"
    using consume_preamble_takes [OF c(1) \<open>buf \<noteq> []\<close>] consume_data_takes [of z "drop (nat c) buf" "nat c" cc y]
    by (cases "c = -1") auto
qed

lemma payload_store_takes: "payload_store b x buf c = Done (cc, b', y) \<Longrightarrow> int c \<le> cc"
proof -
  have "if_done (\<lambda>(cc, b', y). int c \<le> cc) (payload_store b x buf c)"
    unfolding payload_store_def by (intro if_done_intro) (auto split: if_splits)
  then show "payload_store b x buf c = Done (cc, b', y) \<Longrightarrow> int c \<le> cc" by simp
qed

lemma payload_consume_takes:
  assumes "payload_consume b x buf = Done (cc, b', y)"
  shows "-1 \<le> cc" and "bi_data_offset x = 0 \<Longrightarrow> buf \<noteq> [] \<Longrightarrow> cc = -1 \<or> 0 < cc"
proof -
  show "-1 \<le> cc"
    using assms payload_store_takes unfolding payload_consume_def
    by (fastforce simp: assert_that_def bind_outcome_Done_iff split: if_splits)
next
  assume off: "bi_data_offset x = 0" and "buf \<noteq> []"
  obtain c z where c: "consume_preamble (recv_dict b) x buf = Done (c, z)"
      "(if c = -1 then Done (-1, b, z)
        else assert_that (pl_length (b_payload b) = 0) (payload_store b z (drop (nat c) buf) (nat c))) = Done (cc, b', y)"
    using assms off unfolding payload_consume_def by (auto simp: bind_outcome_Done_iff)
  then show "cc = -1 \<or> 0 < cc"
    using consume_preamble_takes [OF c(1) \<open>buf \<noteq> []\<close>] payload_store_takes [of b z "drop (nat c) buf" "nat c" cc b' y]
    by (cases "c = -1") (auto simp: assert_that_def split: if_splits)
qed

lemma consume_then_takes:
  assumes "consume_then k b x buf = Done (cc, b', y)"
  shows "\<exists>cc' y'. bp_consume (recv_dict b) x buf = Done (cc', y') \<and> (cc = -1 \<or> cc = cc')"
  using assms unfolding consume_then_def
  by (auto simp: assert_that_def bind_outcome_Done_iff split: if_splits)

lemma primary_consume_takes:
  assumes "primary_consume b x buf = Done (cc, b', y)"
  shows "\<exists>cc' y'. bp_consume (recv_dict b) x buf = Done (cc', y') \<and> (cc = -1 \<or> cc = cc')"
  using assms unfolding primary_consume_def
  by (auto simp: assert_that_def bind_outcome_Done_iff split: if_splits)

lemma unknown_consume_takes:
  assumes "unknown_consume b x buf = Done (cc, b', y)"
  shows "\<exists>cc' y'. bp_consume (recv_dict b) x buf = Done (cc', y') \<and> (cc = -1 \<or> cc = cc')"
  using assms unfolding unknown_consume_def by (auto simp: bind_outcome_Done_iff)

lemma processor_consume_takes:
  assumes "processor_consume o' b x buf = Done (cc, b', y)"
  shows "-1 \<le> cc" and "bi_data_offset x = 0 \<Longrightarrow> buf \<noteq> [] \<Longrightarrow> cc = -1 \<or> 0 < cc"
proof -
  have default: "-1 \<le> cc \<and> (bi_data_offset x = 0 \<longrightarrow> buf \<noteq> [] \<longrightarrow> cc = -1 \<or> 0 < cc)"
    if "\<exists>cc' y'. bp_consume (recv_dict b) x buf = Done (cc', y') \<and> (cc = -1 \<or> cc = cc')"
    using that bp_consume_takes by fastforce
  have "-1 \<le> cc \<and> (bi_data_offset x = 0 \<longrightarrow> buf \<noteq> [] \<longrightarrow> cc = -1 \<or> 0 < cc)"
    using assms payload_consume_takes [of b x buf cc b' y]
      default [OF primary_consume_takes] default [OF unknown_consume_takes] default [OF consume_then_takes]
    by (cases o') auto
  then show "-1 \<le> cc" and "bi_data_offset x = 0 \<Longrightarrow> buf \<noteq> [] \<Longrightarrow> cc = -1 \<or> 0 < cc" by auto
qed

section \<open>The loop\<close>

text \<open>What decreases: twice the bytes that are left, and one more while a block is open.\<close>

definition open_block :: "dtn_bundle \<Rightarrow> nat" where
  "open_block b = (if bi_complete (last (biv_blocks (b_recv_blocks b))) then 0 else 1)"

lemma consume_round_takes:
  assumes "consume_round b buf = Done r" and "buf \<noteq> []"
  shows "case r of ProtocolError b' \<Rightarrow> True
    | LastBlockDone b' rest \<Rightarrow> length rest \<le> length buf
    | MoreBlocks b' rest \<Rightarrow> 2 * length rest + open_block b' < 2 * length buf + open_block b"
proof -
  define xs where "xs = biv_blocks (b_recv_blocks b)"
  define xs' where "xs' = (if bi_complete (last xs) then xs @ [new_block (find_processor (hd buf))] else xs)"
  obtain cc b1 y where c: "processor_consume (bi_owner (last xs')) (set_recv_blocks xs' b) (last xs') buf = Done (cc, b1, y)"
    and r: "(let b2 = set_recv_blocks (butlast xs' @ [y]) b1; rest = drop (nat cc) buf
           in if cc < 0 then Done (ProtocolError b2)
              else if bi_complete y
              then bind_outcome (bi_flags y)
                     (\<lambda>flags. Done (if flags AND BLOCK_FLAG_LAST_BLOCK \<noteq> 0 then LastBlockDone b2 rest else MoreBlocks b2 rest))
              else assert_that (rest = []) (Done (MoreBlocks b2 rest))) = Done r"
    using assms(1) unfolding consume_round_def Let_def xs_def xs'_def by (auto simp: bind_outcome_Done_iff)
  have last: "open_block (set_recv_blocks (butlast xs' @ [y]) b1) = (if bi_complete y then 0 else 1)"
    by (simp add: open_block_def set_recv_blocks_def)
  have fresh: "0 < cc" if "open_block b = 0" "0 \<le> cc"
  proof -
    have "last xs' = new_block (find_processor (hd buf))"
      using that(1) by (simp add: xs'_def open_block_def xs_def split: if_splits)
    then have "bi_data_offset (last xs') = 0" by (simp add: new_block_def)
    then show ?thesis using processor_consume_takes(2) [OF c _ assms(2)] that(2) by auto
  qed
  have ob: "open_block b = 0 \<or> open_block b = 1" by (simp add: open_block_def)
  have ne: "0 < length buf" using assms(2) by simp
  show ?thesis
  proof (cases "cc < 0")
    case True
    then show ?thesis using r by auto
  next
    case False
    then have pos: "open_block b = 1 \<or> 0 < cc" using ob fresh by auto
    have "2 * length (drop (nat cc) buf) < 2 * length buf + open_block b"
    proof (cases "0 < cc")
      case True
      then have "0 < nat cc" by simp
      then have "length buf - nat cc < length buf" using ne by linarith
      then show ?thesis by simp
    next
      case False
      then show ?thesis using pos ne by simp
    qed
    moreover have "Suc 0 < 2 * length buf" using ne by linarith
    ultimately show ?thesis
      using False r last ob
      by (cases "bi_complete y") (auto simp: Let_def bind_outcome_Done_iff assert_that_def split: if_splits)
  qed
qed

definition loop_result :: "nat \<Rightarrow> (nat option \<times> bool \<times> dtn_bundle) outcome \<Rightarrow> bool" where
  "loop_result m r =
     if_done (\<lambda>(rest, last', b'). case rest of None \<Rightarrow> \<not> last' | Some n \<Rightarrow> n \<le> m \<and> (last' \<or> n = 0)) r"

lemma loop_result_mono: "loop_result m r \<Longrightarrow> m \<le> n \<Longrightarrow> loop_result n r"
  by (cases r) (auto simp: loop_result_def split: option.splits)

lemma loop_result_simps [simp]:
  "loop_result m Panic" "loop_result m (Done (None, False, b))" "loop_result m (Done (Some 0, l, b))"
  "loop_result m (Done (Some n, True, b)) \<longleftrightarrow> n \<le> m"
  by (simp_all add: loop_result_def)

lemma consume_loop_returns: "\<exists>r. consume_loop b buf = Some r \<and> loop_result (length buf) r"
proof (induction "2 * length buf + open_block b" arbitrary: b buf rule: less_induct)
  case less
  show ?case
  proof (cases "buf = []")
    case True
    then show ?thesis by (subst consume_loop.simps) simp
  next
    case ne: False
    show ?thesis
    proof (cases "consume_round b buf")
      case Panic
      then show ?thesis using ne by (subst consume_loop.simps) simp
    next
      case (Done x)
      note takes = consume_round_takes [OF Done ne]
      show ?thesis
      proof (cases x)
        case (MoreBlocks b' rest)
        then have lt: "2 * length rest + open_block b' < 2 * length buf + open_block b" using takes by simp
        have le: "length rest \<le> length buf"
          using lt by (simp add: open_block_def split: if_splits)
        have "consume_loop b buf = consume_loop b' rest"
          using ne Done MoreBlocks by (subst consume_loop.simps) simp
        then show ?thesis using less [OF lt] loop_result_mono [OF _ le] by auto
      qed (use ne Done takes in \<open>(subst consume_loop.simps, simp)+\<close>)
    qed
  qed
qed

text \<open>
  C19. Consuming terminates: whatever the state of the bundle and whatever the bytes,
  \<open>consume\<close> returns. Without a failed assertion the result is -1, a protocol error, or the
  number of bytes that were taken, which is all of them unless the last block of the bundle
  was completed.
\<close>

theorem bundle_consume_returns:
  "\<exists>r. bundle_consume b buf = Some r \<and>
     (case r of Panic \<Rightarrow> True
      | Done (n, last', b') \<Rightarrow> if n = -1 then \<not> last' else 0 \<le> n \<and> n \<le> int (length buf) \<and> (last' \<or> n = int (length buf)))"
proof -
  obtain r where "consume_loop (first_block b) buf = Some r" "loop_result (length buf) r"
    using consume_loop_returns by blast
  then show ?thesis
    by (cases r) (auto simp: bundle_consume_def loop_result_def split: option.splits)
qed

end
