(* ===== verification/Admin_Records.thy ===== *)
theory Admin_Records
  imports Bundle_Reception
begin

text \<open>
  The administrative records that nodes send each other: custody signals
  (\<open>servlib/bundling/CustodySignal.cc\<close>), bundle status reports (\<open>BundleStatusReport.cc\<close>), and
  the registration that receives them (\<open>servlib/reg/AdminRegistration.cc\<close>).
\<close>

section \<open>Writing a record\<close>

text \<open>
  Both records have the same end: the position of a fragment, the current time, the creation
  timestamp and the source of the bundle they are about. An SDNV and a timestamp are written
  at the pointer \<open>bp\<close> with \<open>len\<close> bytes left; the state has the bytes that are written and the
  rest of the buffer.
\<close>

definition put_sdnv :: "u64 \<Rightarrow> byte list \<times> byte list \<Rightarrow> (byte list \<times> byte list) outcome" where
  "put_sdnv v w =
     (case w of (written, rest) \<Rightarrow>
        bind_outcome (sdnv_encode v rest)
          (\<lambda>(n, rest'). assert_that (n > 0) (Done (written @ take (nat n) rest', drop (nat n) rest'))))"

definition put_timestamp :: "bundle_timestamp \<Rightarrow> byte list \<times> byte list \<Rightarrow> (byte list \<times> byte list) outcome" where
  "put_timestamp tv w =
     (case w of (written, rest) \<Rightarrow>
        bind_outcome (set_timestamp tv rest)
          (\<lambda>(n, rest'). assert_that (n > 0) (Done (written @ take (nat n) rest', drop (nat n) rest'))))"

definition fragment_position :: "dtn_bundle \<Rightarrow> u64 list" where
  "fragment_position orig = (if b_is_fragment orig then [ucast (b_frag_offset orig), ucast (b_orig_length orig)] else [])"

text \<open>The length is computed first, from the length of the fixed part.\<close>

definition record_len :: "nat \<Rightarrow> dtn_bundle \<Rightarrow> bundle_timestamp \<Rightarrow> nat outcome" where
  "record_len fixed orig now =
     bind_outcome (fold_outcome (\<lambda>v n. bind_outcome (sdnv_encoding_len v) (\<lambda>l. Done (n + l))) (fragment_position orig) fixed)
       (\<lambda>n1. bind_outcome (ts_encoding_len now)
         (\<lambda>n2. bind_outcome (ts_encoding_len (b_creation_ts orig))
           (\<lambda>n3. bind_outcome (sdnv_encoding_len (of_nat (length (eid_str (b_source orig)))))
             (\<lambda>n4. Done (n1 + n2 + n3 + n4 + length (eid_str (b_source orig)))))))"

text \<open>The record with the given fixed part; \<open>memcpy\<close> puts the text of the source at the end.\<close>

definition write_record :: "byte list \<Rightarrow> dtn_bundle \<Rightarrow> bundle_timestamp \<Rightarrow> byte list outcome" where
  "write_record fixed orig now =
     (let source = eid_str (b_source orig)
      in bind_outcome (record_len (length fixed) orig now) (\<lambda>len.
         bind_outcome (fold_outcome put_sdnv (fragment_position orig) (fixed, replicate (len - length fixed) 0)) (\<lambda>w1.
         bind_outcome (put_timestamp now w1) (\<lambda>w2.
         bind_outcome (put_timestamp (b_creation_ts orig) w2) (\<lambda>w3.
         bind_outcome (put_sdnv (of_nat (length source)) w3) (\<lambda>(written, rest).
           assert_that (length rest = length source) (Done (written @ map byte_of_char source))))))))"

datatype custody_reason =
    CUSTODY_NO_ADDTL_INFO | CUSTODY_REDUNDANT_RECEPTION | CUSTODY_DEPLETED_STORAGE
  | CUSTODY_ENDPOINT_ID_UNINTELLIGIBLE | CUSTODY_NO_ROUTE_TO_DEST | CUSTODY_NO_TIMELY_CONTACT
  | CUSTODY_BLOCK_UNINTELLIGIBLE

fun custody_reason_value :: "custody_reason \<Rightarrow> byte" where
  "custody_reason_value CUSTODY_NO_ADDTL_INFO = 0"
| "custody_reason_value CUSTODY_REDUNDANT_RECEPTION = 3"
| "custody_reason_value CUSTODY_DEPLETED_STORAGE = 4"
| "custody_reason_value CUSTODY_ENDPOINT_ID_UNINTELLIGIBLE = 5"
| "custody_reason_value CUSTODY_NO_ROUTE_TO_DEST = 6"
| "custody_reason_value CUSTODY_NO_TIMELY_CONTACT = 7"
| "custody_reason_value CUSTODY_BLOCK_UNINTELLIGIBLE = 8"

text \<open>The fields of the bundle that carries a record; \<open>tv_sec\<close> is the system time.\<close>

definition admin_bundle :: "dtn_bundle \<Rightarrow> endpoint_id \<Rightarrow> endpoint_id \<Rightarrow> dtn_bundle \<Rightarrow> dtn_bundle outcome" where
  "admin_bundle orig source dest b =
     bind_outcome NULL_EID (\<lambda>null.
       Done (b\<lparr>b_source := source, b_dest := dest, b_replyto := null, b_custodian := null, b_is_admin := True,
               b_expiration := b_expiration orig\<rparr>))"

definition admin_first_byte :: "byte \<Rightarrow> dtn_bundle \<Rightarrow> byte" where
  "admin_first_byte ty orig = (let x = push_bit 4 ty in if b_is_fragment orig then x OR 0x01 else x)"

definition put_payload :: "byte list \<Rightarrow> dtn_bundle \<Rightarrow> dtn_bundle outcome" where
  "put_payload bs b = bind_outcome (set_data bs (b_payload b)) (\<lambda>pl. Done (b\<lparr>b_payload := pl\<rparr>))"

definition create_custody_signal ::
    "nat \<Rightarrow> dtn_bundle \<Rightarrow> dtn_bundle \<Rightarrow> endpoint_id \<Rightarrow> bool \<Rightarrow> custody_reason \<Rightarrow> dtn_bundle outcome" where
  "create_custody_signal tv_sec b orig source succeeded reason =
     bind_outcome NULL_EID (\<lambda>null.
       if eid_equals (b_custodian orig) null then Panic
       else bind_outcome (admin_bundle orig source (b_custodian orig) b) (\<lambda>b1.
            bind_outcome (get_current_time tv_sec) (\<lambda>now.
            bind_outcome
              (write_record
                [admin_first_byte 2 orig, push_bit 7 (if succeeded then 1 else 0) OR (custody_reason_value reason AND 0x7f)]
                orig (BundleTimestamp (ucast now) 0))
              (\<lambda>bs. put_payload bs b1))))"

datatype status_reason =
    REASON_NO_ADDTL_INFO | REASON_LIFETIME_EXPIRED | REASON_FORWARDED_UNIDIR_LINK | REASON_TRANSMISSION_CANCELLED
  | REASON_DEPLETED_STORAGE | REASON_ENDPOINT_ID_UNINTELLIGIBLE | REASON_NO_ROUTE_TO_DEST | REASON_NO_TIMELY_CONTACT
  | REASON_BLOCK_UNINTELLIGIBLE | REASON_SECURITY_FAILED

fun status_reason_value :: "status_reason \<Rightarrow> byte" where
  "status_reason_value REASON_NO_ADDTL_INFO = 0"
| "status_reason_value REASON_LIFETIME_EXPIRED = 1"
| "status_reason_value REASON_FORWARDED_UNIDIR_LINK = 2"
| "status_reason_value REASON_TRANSMISSION_CANCELLED = 3"
| "status_reason_value REASON_DEPLETED_STORAGE = 4"
| "status_reason_value REASON_ENDPOINT_ID_UNINTELLIGIBLE = 5"
| "status_reason_value REASON_NO_ROUTE_TO_DEST = 6"
| "status_reason_value REASON_NO_TIMELY_CONTACT = 7"
| "status_reason_value REASON_BLOCK_UNINTELLIGIBLE = 8"
| "status_reason_value REASON_SECURITY_FAILED = 9"

text \<open>The flags of a status report, not those of the primary block.\<close>

datatype status_flag = SR_RECEIVED | SR_CUSTODY_ACCEPTED | SR_FORWARDED | SR_DELIVERED | SR_DELETED | SR_ACKED_BY_APP

fun status_flag_value :: "status_flag \<Rightarrow> byte" where
  "status_flag_value SR_RECEIVED = 0x01"
| "status_flag_value SR_CUSTODY_ACCEPTED = 0x02"
| "status_flag_value SR_FORWARDED = 0x04"
| "status_flag_value SR_DELIVERED = 0x08"
| "status_flag_value SR_DELETED = 0x10"
| "status_flag_value SR_ACKED_BY_APP = 0x20"

definition create_status_report ::
    "nat \<Rightarrow> dtn_bundle \<Rightarrow> dtn_bundle \<Rightarrow> endpoint_id \<Rightarrow> status_flag \<Rightarrow> status_reason \<Rightarrow> dtn_bundle outcome" where
  "create_status_report tv_sec b orig source flag reason =
     bind_outcome NULL_EID (\<lambda>null.
       bind_outcome (admin_bundle orig source (if eid_equals (b_replyto orig) null then b_source orig else b_replyto orig) b) (\<lambda>b1.
       bind_outcome (get_current_time tv_sec) (\<lambda>now.
       bind_outcome
         (write_record [admin_first_byte 1 orig, status_flag_value flag, status_reason_value reason]
           orig (BundleTimestamp (ucast now) 0))
         (\<lambda>bs. put_payload bs b1))))"

section \<open>Reading a record\<close>

text \<open>An SDNV or a timestamp at the front: whether it could be read, its value and the rest.\<close>

definition get_u64 :: "byte list \<Rightarrow> bool \<times> u64 \<times> byte list" where
  "get_u64 bp = (case sdnv_decode bp of (n, v) \<Rightarrow> (n \<noteq> -1, v, drop (nat n) bp))"

definition get_ts :: "byte list \<Rightarrow> bundle_timestamp \<Rightarrow> bool \<times> bundle_timestamp \<times> byte list" where
  "get_ts bp tv = (case get_timestamp bp tv of (n, tv') \<Rightarrow> (n \<ge> 0, tv', drop (nat n) bp))"

definition get_fragment_position :: "byte \<Rightarrow> byte list \<Rightarrow> u64 \<Rightarrow> u64 \<Rightarrow> bool \<times> u64 \<times> u64 \<times> byte list" where
  "get_fragment_position flags bp offset len =
     (if flags AND 0x01 = 0 then (True, offset, len, bp)
      else case get_u64 bp of (ok1, offset', bp1) \<Rightarrow>
        if \<not> ok1 then (False, offset', len, bp)
        else case get_u64 bp1 of (ok2, len', bp2) \<Rightarrow> (ok2, offset', len', if ok2 then bp2 else bp1))"

text \<open>The text of the source is the whole rest of the record.\<close>

definition get_source :: "byte list \<Rightarrow> endpoint_id \<Rightarrow> (bool \<times> endpoint_id) outcome" where
  "get_source bp e =
     (case get_u64 bp of (ok, eid_len, rest) \<Rightarrow>
        if \<not> ok then Done (False, e)
        else if length rest \<noteq> unat eid_len then Done (False, e)
        else bind_outcome (eid_assign (map char_of_byte rest) e) (\<lambda>e'. Done (eid_valid e', e')))"

record custody_signal =
  cs_admin_type :: byte
  cs_admin_flags :: byte
  cs_succeeded :: bool
  cs_reason :: byte
  cs_frag_offset :: u64
  cs_frag_length :: u64
  cs_signal_tv :: bundle_timestamp
  cs_creation_tv :: bundle_timestamp
  cs_source_eid :: endpoint_id

definition parse_custody_signal :: "byte list \<Rightarrow> custody_signal \<Rightarrow> (bool \<times> custody_signal) outcome" where
  "parse_custody_signal bp s =
     (case bp of
        [] \<Rightarrow> Done (False, s)
      | x # bp1 \<Rightarrow>
          let s1 = s\<lparr>cs_admin_type := drop_bit 4 x, cs_admin_flags := x AND 0xf\<rparr>
          in if cs_admin_type s1 \<noteq> 2 then Done (False, s1)
             else case bp1 of
               [] \<Rightarrow> Done (False, s1)
             | y # bp2 \<Rightarrow>
                 let s2 = s1\<lparr>cs_succeeded := (drop_bit 7 y \<noteq> 0), cs_reason := y AND 0x7f\<rparr>
                 in case get_fragment_position (cs_admin_flags s2) bp2 (cs_frag_offset s2) (cs_frag_length s2) of
                      (ok3, offset, len, bp3) \<Rightarrow>
                 let s3 = s2\<lparr>cs_frag_offset := offset, cs_frag_length := len\<rparr>
                 in if \<not> ok3 then Done (False, s3)
                    else case get_ts bp3 (cs_signal_tv s3) of (ok4, tv4, bp4) \<Rightarrow>
                 let s4 = s3\<lparr>cs_signal_tv := tv4\<rparr>
                 in if \<not> ok4 then Done (False, s4)
                    else case get_ts bp4 (cs_creation_tv s4) of (ok5, tv5, bp5) \<Rightarrow>
                 let s5 = s4\<lparr>cs_creation_tv := tv5\<rparr>
                 in if \<not> ok5 then Done (False, s5)
                    else bind_outcome (get_source bp5 (cs_source_eid s5)) (\<lambda>(ok6, e). Done (ok6, s5\<lparr>cs_source_eid := e\<rparr>)))"

record status_report =
  sr_admin_type :: byte
  sr_admin_flags :: byte
  sr_status_flags :: byte
  sr_reason_code :: byte
  sr_frag_offset :: u64
  sr_frag_length :: u64
  sr_receipt_tv :: bundle_timestamp
  sr_custody_tv :: bundle_timestamp
  sr_forwarding_tv :: bundle_timestamp
  sr_delivery_tv :: bundle_timestamp
  sr_deletion_tv :: bundle_timestamp
  sr_ack_by_app_tv :: bundle_timestamp
  sr_creation_tv :: bundle_timestamp
  sr_source_eid :: endpoint_id

text \<open>One of the six optional times: read when the flag is set, zero otherwise.\<close>

definition get_optional_ts :: "status_flag \<Rightarrow> byte \<Rightarrow> byte list \<Rightarrow> bundle_timestamp \<Rightarrow> bool \<times> bundle_timestamp \<times> byte list" where
  "get_optional_ts flag flags bp tv =
     (if flags AND status_flag_value flag \<noteq> 0 then get_ts bp tv else (True, BundleTimestamp 0 0, bp))"

definition parse_status_report :: "byte list \<Rightarrow> status_report \<Rightarrow> (bool \<times> status_report) outcome" where
  "parse_status_report bp s =
     (case bp of
        [] \<Rightarrow> Done (False, s)
      | x # bp1 \<Rightarrow>
          let s1 = s\<lparr>sr_admin_type := drop_bit 4 x, sr_admin_flags := x AND 0xf\<rparr>
          in if sr_admin_type s1 \<noteq> 1 then Done (False, s1)
             else case bp1 of
               [] \<Rightarrow> Done (False, s1)
             | y # bp2 \<Rightarrow>
                 let s2 = s1\<lparr>sr_status_flags := y\<rparr>
                 in case bp2 of
                   [] \<Rightarrow> Done (False, s2)
                 | z # bp3 \<Rightarrow>
                 let s3 = s2\<lparr>sr_reason_code := z\<rparr>
                 in case get_fragment_position (sr_admin_flags s3) bp3 (sr_frag_offset s3) (sr_frag_length s3) of
                      (ok4, offset, len, bp4) \<Rightarrow>
                 let s4 = s3\<lparr>sr_frag_offset := offset, sr_frag_length := len\<rparr>
                 in if \<not> ok4 then Done (False, s4)
                    else case get_optional_ts SR_RECEIVED y bp4 (sr_receipt_tv s4) of (ok5, tv5, bp5) \<Rightarrow>
                 let s5 = s4\<lparr>sr_receipt_tv := tv5\<rparr>
                 in if \<not> ok5 then Done (False, s5)
                    else case get_optional_ts SR_CUSTODY_ACCEPTED y bp5 (sr_custody_tv s5) of (ok6, tv6, bp6) \<Rightarrow>
                 let s6 = s5\<lparr>sr_custody_tv := tv6\<rparr>
                 in if \<not> ok6 then Done (False, s6)
                    else case get_optional_ts SR_FORWARDED y bp6 (sr_forwarding_tv s6) of (ok7, tv7, bp7) \<Rightarrow>
                 let s7 = s6\<lparr>sr_forwarding_tv := tv7\<rparr>
                 in if \<not> ok7 then Done (False, s7)
                    else case get_optional_ts SR_DELIVERED y bp7 (sr_delivery_tv s7) of (ok8, tv8, bp8) \<Rightarrow>
                 let s8 = s7\<lparr>sr_delivery_tv := tv8\<rparr>
                 in if \<not> ok8 then Done (False, s8)
                    else case get_optional_ts SR_DELETED y bp8 (sr_deletion_tv s8) of (ok9, tv9, bp9) \<Rightarrow>
                 let s9 = s8\<lparr>sr_deletion_tv := tv9\<rparr>
                 in if \<not> ok9 then Done (False, s9)
                    else case get_optional_ts SR_ACKED_BY_APP y bp9 (sr_ack_by_app_tv s9) of (ok10, tv10, bp10) \<Rightarrow>
                 let s10 = s9\<lparr>sr_ack_by_app_tv := tv10\<rparr>
                 in if \<not> ok10 then Done (False, s10)
                    else case get_ts bp10 (sr_creation_tv s10) of (ok11, tv11, bp11) \<Rightarrow>
                 let s11 = s10\<lparr>sr_creation_tv := tv11\<rparr>
                 in if \<not> ok11 then Done (False, s11)
                    else bind_outcome (get_source bp11 (sr_source_eid s11)) (\<lambda>(ok12, e). Done (ok12, s11\<lparr>sr_source_eid := e\<rparr>)))"

text \<open>The variant that takes the payload of a bundle.\<close>

definition parse_status_bundle :: "dtn_bundle \<Rightarrow> status_report \<Rightarrow> (bool \<times> status_report \<times> dtn_bundle) outcome" where
  "parse_status_bundle b s =
     bind_outcome (get_admin_type b) (\<lambda>(ty, b1).
       if ty \<noteq> Some ADMIN_STATUS_REPORT then Done (False, s, b1)
       else if pl_length (b_payload b1) > 16384 then Done (False, s, b1)
       else bind_outcome (read_data 0 (pl_length (b_payload b1)) (b_payload b1)) (\<lambda>(bs, pl).
            bind_outcome (parse_status_report bs s) (\<lambda>(ok, s'). Done (ok, s', b1\<lparr>b_payload := pl\<rparr>))))"

text \<open>
  \<open>AdminRegistration::deliver_bundle\<close>: the custody signal for which an event is posted, if
  any; a delivery event is posted in every case. \<open>fresh\<close> is the uninitialised \<open>data_t\<close>.
\<close>

definition admin_deliver :: "custody_signal \<Rightarrow> dtn_bundle \<Rightarrow> (custody_signal option \<times> dtn_bundle) outcome" where
  "admin_deliver fresh b =
     bind_outcome (read_data 0 (pl_length (b_payload b)) (b_payload b)) (\<lambda>(bs, pl).
       let b1 = b\<lparr>b_payload := pl\<rparr>
       in if pl_length (b_payload b) = 0 then Done (None, b1)
          else if \<not> b_is_admin b then Done (None, b1)
          else case bs of
            [] \<Rightarrow> Panic
          | x # _ \<Rightarrow>
              if drop_bit 4 x = 2
              then bind_outcome (parse_custody_signal bs fresh) (\<lambda>(ok, s). Done (if ok then Some s else None, b1))
              else Done (None, b1))"

section \<open>The bytes of a record\<close>

definition ts_bytes :: "bundle_timestamp \<Rightarrow> byte list" where
  "ts_bytes tv = sdnv_bytes (ts_seconds tv) @ sdnv_bytes (ts_seqno tv)"

definition record_tail :: "dtn_bundle \<Rightarrow> bundle_timestamp \<Rightarrow> byte list" where
  "record_tail orig now =
     concat (map sdnv_bytes (fragment_position orig)) @ ts_bytes now @ ts_bytes (b_creation_ts orig) @
     sdnv_bytes (of_nat (length (eid_str (b_source orig)))) @ map byte_of_char (eid_str (b_source orig))"

lemma put_sdnv_eq: "put_sdnv = pbp_write_sdnv"
  by (rule ext, rule ext) (simp add: put_sdnv_def pbp_write_sdnv_def)

lemma put_sdnv_bytes:
  "length (sdnv_bytes v) \<le> length rest \<Longrightarrow>
   put_sdnv v (w, rest) = Done (w @ sdnv_bytes v, drop (length (sdnv_bytes v)) rest)"
  using write_sdnvs [of "[v]" rest w] by (simp add: put_sdnv_eq)

lemma set_timestamp_bytes:
  "length (ts_bytes tv) \<le> length buf \<Longrightarrow>
   set_timestamp tv buf = Done (int (length (ts_bytes tv)), ts_bytes tv @ drop (length (ts_bytes tv)) buf)"
  by (simp add: set_timestamp_def ts_bytes_def sdnv_encode_eq Let_def add.commute)

lemma put_timestamp_bytes:
  assumes "length (ts_bytes tv) \<le> length rest"
  shows "put_timestamp tv (w, rest) = Done (w @ ts_bytes tv, drop (length (ts_bytes tv)) rest)"
  using set_timestamp_bytes [OF assms] by (simp add: put_timestamp_def) (simp add: ts_bytes_def)

lemma ts_encoding_len_eq: "ts_encoding_len tv = Done (length (ts_bytes tv))"
  by (simp add: ts_encoding_len_def ts_bytes_def sdnv_encoding_len_eq)

lemma record_len_eq: "record_len fixed orig now = Done (fixed + length (record_tail orig now))"
  unfolding record_len_def add_encoding_lens by (simp add: ts_encoding_len_eq sdnv_encoding_len_eq record_tail_def)

lemma write_record_eq: "write_record fixed orig now = Done (fixed @ record_tail orig now)"
proof -
  let ?f = "concat (map sdnv_bytes (fragment_position orig))" and ?src = "eid_str (b_source orig)"
  let ?l = "sdnv_bytes (of_nat (length ?src))"
  let ?n1 = "length (ts_bytes now) + (length (ts_bytes (b_creation_ts orig)) + (length ?l + length ?src))"
  have n: "length (record_tail orig now) = length ?f + ?n1" by (simp add: record_tail_def)
  have w1: "fold_outcome put_sdnv (fragment_position orig) (fixed, replicate (length ?f + ?n1) 0) =
      Done (fixed @ ?f, replicate ?n1 0)"
    unfolding put_sdnv_eq by (subst write_sdnvs) simp_all
  show ?thesis
    unfolding write_record_def record_len_eq n bind_outcome.simps Let_def add_diff_cancel_left' w1
    by (simp add: put_timestamp_bytes put_sdnv_bytes record_tail_def)
qed

lemma get_u64_bytes [simp]: "get_u64 (sdnv_bytes v @ r) = (True, v, r)" "get_u64 (sdnv_bytes v) = (True, v, [])"
  using sdnv_decode_bytes [of v r] sdnv_decode_bytes [of v "[]"] by (simp_all add: get_u64_def)

lemma get_ts_bytes [simp]: "get_ts (ts_bytes tv @ r) tv0 = (True, tv, r)"
  by (simp add: get_ts_def get_timestamp_def ts_bytes_def sdnv_decode_bytes)

lemma get_fragment_position_bytes:
  "get_fragment_position flags (concat (map sdnv_bytes (fragment_position orig)) @ r) o0 l0 =
    (True, if b_is_fragment orig then ucast (b_frag_offset orig) else o0,
     if b_is_fragment orig then ucast (b_orig_length orig) else l0, r)"
  if "flags AND 0x01 \<noteq> 0 \<longleftrightarrow> b_is_fragment orig"
  using that by (auto simp: get_fragment_position_def fragment_position_def)

lemma get_source_bytes:
  assumes "length src < 2 ^ 64" and "eid_assign src e0 = Done e"
  shows "get_source (sdnv_bytes (of_nat (length src)) @ map byte_of_char src) e0 = Done (eid_valid e, e)"
proof -
  have "map char_of_byte (map byte_of_char src) = src" by (simp add: comp_def)
  then show ?thesis using assms u64_of_nat [OF assms(1)] by (simp add: get_source_def)
qed

lemma admin_first_byte_fields:
  assumes "ty = 1 \<or> ty = 2"
  shows "drop_bit 4 (admin_first_byte ty orig) = ty" "(admin_first_byte ty orig AND 0xf) AND 0x01 \<noteq> 0 \<longleftrightarrow> b_is_fragment orig"
    "admin_first_byte ty orig AND 0xf = (if b_is_fragment orig then 1 else 0)"
  using assms by (auto simp: admin_first_byte_def Let_def)

lemma put_payload_ok:
  assumes "writable (b_payload b)"
  shows "\<exists>pl. put_payload bs b = Done (b\<lparr>b_payload := pl\<rparr>) \<and> payload_ok pl \<and> pl_bytes pl = bs"
  using set_data_ok [of "b_payload b" bs] assms by (auto simp: put_payload_def writable_def)

lemma null_eid_total: "\<exists>e. NULL_EID = Done e"
  by (rule exI [of _ "case NULL_EID of Done e \<Rightarrow> e | Panic \<Rightarrow> empty_eid"]) (simp split: outcome.split, code_simp)

lemma current_time_ok: "check_local_clock tv_sec \<Longrightarrow> get_current_time tv_sec = Done (of_nat (tv_sec - TIMEVAL_CONVERSION))"
  by (simp add: get_current_time_def check_local_clock_def)

section \<open>Properties\<close>

definition signal_about :: "dtn_bundle \<Rightarrow> bool \<Rightarrow> custody_reason \<Rightarrow> bundle_timestamp \<Rightarrow> endpoint_id \<Rightarrow> custody_signal \<Rightarrow> bool" where
  "signal_about orig succeeded reason now e s \<longleftrightarrow>
     cs_admin_type s = 2 \<and> cs_succeeded s = succeeded \<and> cs_reason s = custody_reason_value reason \<and>
     (cs_admin_flags s AND 0x01 \<noteq> 0) = b_is_fragment orig \<and>
     (b_is_fragment orig \<longrightarrow> cs_frag_offset s = ucast (b_frag_offset orig) \<and> cs_frag_length s = ucast (b_orig_length orig)) \<and>
     cs_signal_tv s = now \<and> cs_creation_tv s = b_creation_ts orig \<and> cs_source_eid s = e"


definition time_if :: "bool \<Rightarrow> bundle_timestamp \<Rightarrow> bundle_timestamp" where
  "time_if c tv = (if c then tv else BundleTimestamp 0 0)"

definition report_about :: "dtn_bundle \<Rightarrow> status_flag \<Rightarrow> status_reason \<Rightarrow> bundle_timestamp \<Rightarrow> endpoint_id \<Rightarrow> status_report \<Rightarrow> bool" where
  "report_about orig flag reason now e s \<longleftrightarrow>
     sr_admin_type s = 1 \<and> sr_status_flags s = status_flag_value flag \<and> sr_reason_code s = status_reason_value reason \<and>
     (sr_admin_flags s AND 0x01 \<noteq> 0) = b_is_fragment orig \<and>
     (b_is_fragment orig \<longrightarrow> sr_frag_offset s = ucast (b_frag_offset orig) \<and> sr_frag_length s = ucast (b_orig_length orig)) \<and>
     sr_receipt_tv s = time_if (flag = SR_RECEIVED) now \<and> sr_custody_tv s = time_if (flag = SR_CUSTODY_ACCEPTED) now \<and>
     sr_forwarding_tv s = time_if (flag = SR_FORWARDED) now \<and> sr_delivery_tv s = time_if (flag = SR_DELIVERED) now \<and>
     sr_deletion_tv s = time_if (flag = SR_DELETED) now \<and> sr_ack_by_app_tv s = time_if (flag = SR_ACKED_BY_APP) now \<and>
     sr_creation_tv s = b_creation_ts orig \<and> sr_source_eid s = e"

lemma report_times:
  assumes "bp = ts_bytes now @ ts_bytes ct @ r"
  shows "case get_optional_ts SR_RECEIVED (status_flag_value flag) bp t1 of (ok1, tv1, bp1) \<Rightarrow>
    case get_optional_ts SR_CUSTODY_ACCEPTED (status_flag_value flag) bp1 t2 of (ok2, tv2, bp2) \<Rightarrow>
    case get_optional_ts SR_FORWARDED (status_flag_value flag) bp2 t3 of (ok3, tv3, bp3) \<Rightarrow>
    case get_optional_ts SR_DELIVERED (status_flag_value flag) bp3 t4 of (ok4, tv4, bp4) \<Rightarrow>
    case get_optional_ts SR_DELETED (status_flag_value flag) bp4 t5 of (ok5, tv5, bp5) \<Rightarrow>
    case get_optional_ts SR_ACKED_BY_APP (status_flag_value flag) bp5 t6 of (ok6, tv6, bp6) \<Rightarrow>
      ok1 \<and> ok2 \<and> ok3 \<and> ok4 \<and> ok5 \<and> ok6 \<and> bp6 = ts_bytes ct @ r \<and>
      tv1 = time_if (flag = SR_RECEIVED) now \<and> tv2 = time_if (flag = SR_CUSTODY_ACCEPTED) now \<and>
      tv3 = time_if (flag = SR_FORWARDED) now \<and> tv4 = time_if (flag = SR_DELIVERED) now \<and>
      tv5 = time_if (flag = SR_DELETED) now \<and> tv6 = time_if (flag = SR_ACKED_BY_APP) now"
  by (cases flag) (simp_all add: get_optional_ts_def time_if_def assms)

lemma parse_report_image:
  assumes src: "length (eid_str (b_source orig)) < 2 ^ 64" "eid_assign (eid_str (b_source orig)) (sr_source_eid s) = Done e" "eid_valid e"
  shows "\<exists>s'. parse_status_report (admin_first_byte 1 orig # status_flag_value flag # status_reason_value reason # record_tail orig now) s =
      Done (True, s') \<and> report_about orig flag reason now e s'"
proof -
  define x where "x = admin_first_byte 1 orig"
  have xf: "drop_bit 4 x = 1" "((x AND 0xf) AND 0x01 \<noteq> 0) = b_is_fragment orig"
    using admin_first_byte_fields [of 1 orig] by (simp_all add: x_def)
  let ?bp = "ts_bytes now @ ts_bytes (b_creation_ts orig) @
      sdnv_bytes (of_nat (length (eid_str (b_source orig)))) @ map byte_of_char (eid_str (b_source orig))"
  note steps = get_fragment_position_bytes [OF xf(2)] get_source_bytes [OF src(1,2)]
  have rt: "record_tail orig now = concat (map sdnv_bytes (fragment_position orig)) @ ?bp" by (simp add: record_tail_def)
  show ?thesis
    unfolding parse_status_report_def list.case Let_def x_def [symmetric] rt
    using xf src(3) by (cases flag) (simp_all add: steps get_optional_ts_def report_about_def time_if_def)
qed

lemma list_case_total: "f \<noteq> Panic \<Longrightarrow> (\<And>x y. g x y \<noteq> Panic) \<Longrightarrow> (case l of [] \<Rightarrow> f | x # y \<Rightarrow> g x y) \<noteq> Panic"
  by (cases l) simp_all

lemma prod_case_total: "(\<And>x y. g x y \<noteq> Panic) \<Longrightarrow> (case p of (x, y) \<Rightarrow> g x y) \<noteq> Panic"
  by (cases p) simp

lemma if_total: "m \<noteq> Panic \<Longrightarrow> n \<noteq> Panic \<Longrightarrow> (if c then m else n) \<noteq> Panic"
  by simp

text \<open>
  C21. A bundle status report is created without a failed assertion, goes to the report-to
  endpoint of the bundle, or to its source when that is the null endpoint, and the receiver
  reads from its payload the one event with its time, the reason, the position of the
  fragment, and the creation timestamp and source of the bundle.
\<close>

theorem status_report_roundtrip:
  assumes "NULL_EID = Done null" and "check_local_clock tv_sec"
    and "writable (b_payload b)" and "length (eid_str (b_source orig)) < 2 ^ 64"
    and "eid_assign (eid_str (b_source orig)) (sr_source_eid s) = Done e" and "eid_valid e"
  shows "\<exists>b' s'. create_status_report tv_sec b orig local_eid flag reason = Done b' \<and>
    b_is_admin b' \<and> b_source b' = local_eid \<and>
    b_dest b' = (if eid_equals (b_replyto orig) null then b_source orig else b_replyto orig) \<and>
    parse_status_report (pl_bytes (b_payload b')) s = Done (True, s') \<and>
    report_about orig flag reason (BundleTimestamp (ucast (of_nat (tv_sec - TIMEVAL_CONVERSION) :: u32)) 0) e s'"
proof -
  define now where "now = BundleTimestamp (ucast (of_nat (tv_sec - TIMEVAL_CONVERSION) :: u32)) 0"
  define bs where "bs = admin_first_byte 1 orig # status_flag_value flag # status_reason_value reason # record_tail orig now"
  define to where "to = (if eid_equals (b_replyto orig) null then b_source orig else b_replyto orig)"
  define b1 where "b1 = b\<lparr>b_source := local_eid, b_dest := to,
      b_replyto := null, b_custodian := null, b_is_admin := True, b_expiration := b_expiration orig\<rparr>"
  have "writable (b_payload b1)" using assms(3) by (simp add: b1_def)
  then obtain pl where pl: "put_payload bs b1 = Done (b1\<lparr>b_payload := pl\<rparr>)" "pl_bytes pl = bs"
    using put_payload_ok by blast
  have c: "create_status_report tv_sec b orig local_eid flag reason = Done (b1\<lparr>b_payload := pl\<rparr>)"
    using pl(1)
    by (simp add: create_status_report_def admin_bundle_def assms(1) current_time_ok [OF assms(2)] write_record_eq
        now_def [symmetric] bs_def [symmetric] to_def [symmetric] b1_def [symmetric])
  obtain s' where s': "parse_status_report bs s = Done (True, s')" "report_about orig flag reason now e s'"
    using parse_report_image [OF assms(4-6)] unfolding bs_def by blast
  then show ?thesis using c pl(2) unfolding now_def [symmetric] to_def [symmetric] by (intro exI) (auto simp: b1_def)
qed

text \<open>Parsing survives any bytes.\<close>

lemma eid_assign_fresh: "\<exists>e. eid_assign str empty_eid = Done e"
proof -
  have "eid_assign str empty_eid = make_eid str"
    by (simp add: eid_assign_def make_eid_def uri_assign_def empty_eid_def new_uri_def)
  then show ?thesis using make_eid_total [of str] by auto
qed

lemma get_source_total: "get_source bp empty_eid \<noteq> Panic"
proof -
  obtain ok n rest where g: "get_u64 bp = (ok, n, rest)" by (cases "get_u64 bp")
  obtain e where "eid_assign (map char_of_byte rest) empty_eid = Done e" using eid_assign_fresh by blast
  then show ?thesis by (simp add: get_source_def g)
qed

lemma parse_custody_signal_total:
  assumes "cs_source_eid s = empty_eid"
  shows "parse_custody_signal bp s \<noteq> Panic"
  using assms get_source_total
  by (auto simp: parse_custody_signal_def Let_def bind_eq_Panic split: list.splits prod.splits)

lemma parse_status_report_total:
  assumes "sr_source_eid s = empty_eid"
  shows "parse_status_report bp s \<noteq> Panic"
  unfolding parse_status_report_def Let_def
  by (intro list_case_total prod_case_total if_total) (simp_all add: assms get_source_total bind_eq_Panic split: prod.splits)

text \<open>
  C22. Reading a received status report aborts the daemon exactly when the bundle is marked as
  administrative and its payload has fewer than 16 bytes; the parser of the record itself
  survives any bytes. Nothing checks the length before: any node can send such a bundle to
  an application.
\<close>

theorem status_bundle_aborts_iff:
  assumes "payload_ok (b_payload b)" and "sr_source_eid s = empty_eid"
  shows "parse_status_bundle b s = Panic \<longleftrightarrow> b_is_admin b \<and> pl_length (b_payload b) < 16"
proof (cases "b_is_admin b")
  case False
  then show ?thesis by (simp add: parse_status_bundle_def get_admin_type_def)
next
  case admin: True
  show ?thesis
  proof (cases "pl_length (b_payload b) < 16")
    case True
    then show ?thesis using admin by (simp add: parse_status_bundle_def get_admin_type_def read_data_def)
  next
    case False
    then obtain pl where pl: "read_data 0 16 (b_payload b) = Done (take 16 (pl_bytes (b_payload b)), pl)" "payload_ok pl"
        "pl_bytes pl = pl_bytes (b_payload b)"
      using read_data_ok [OF assms(1), of 0 16] length_pl_bytes [OF assms(1)] by auto
    obtain x xs where x: "take 16 (pl_bytes (b_payload b)) = x # xs"
      using False length_pl_bytes [OF assms(1)] by (cases "pl_bytes (b_payload b)") auto
    obtain pl2 where pl2: "read_data 0 (pl_length pl) pl = Done (pl_bytes pl, pl2)"
      using read_data_ok [OF pl(2), of 0 "pl_length pl"] length_pl_bytes [OF pl(2)] by auto
    have "parse_status_report (pl_bytes pl) s \<noteq> Panic" by (rule parse_status_report_total [OF assms(2)])
    then show ?thesis
      using False by (auto simp: parse_status_bundle_def get_admin_type_def pl(1) x pl2 bind_eq_Panic)
  qed
qed

text \<open>The examples are about the bundle of the round trip.\<close>

lemma example_null: "\<exists>null. NULL_EID = Done null \<and> \<not> eid_equals example_eid null"
proof -
  have "case NULL_EID of Done n \<Rightarrow> \<not> eid_equals example_eid n | Panic \<Rightarrow> False" by code_simp
  then show ?thesis by (auto split: outcome.splits)
qed

lemma example_source: "\<exists>e. eid_assign (eid_str example_eid) empty_eid = Done e \<and> eid_valid e \<and> eid_str e = ''dtn://h/a''"
proof -
  have "case eid_assign (eid_str example_eid) empty_eid of Done e \<Rightarrow> eid_valid e \<and> eid_str e = ''dtn://h/a'' | Panic \<Rightarrow> False"
    by code_simp
  then show ?thesis by (auto split: outcome.splits)
qed

lemma example_fields:
  "b_source example_bundle = example_eid" "b_custodian example_bundle = example_eid" "b_replyto example_bundle = example_eid"
  by (simp_all add: example_bundle_def)

lemma example_source_length: "length (eid_str (b_source example_bundle)) < 2 ^ 64"
  by (simp add: example_fields eid_str_def example_eid_def example_uri_def new_uri_def)

lemma example_disk: "writable (payload_init False DISK [])"
  by (simp add: writable_def payload_init_def)

lemma example_clock: "check_local_clock 1300000000"
  by (simp add: check_local_clock_def TIMEVAL_CONVERSION_def)

definition fresh_signal :: custody_signal where
  "fresh_signal = \<lparr>cs_admin_type = 0, cs_admin_flags = 0, cs_succeeded = False, cs_reason = 0, cs_frag_offset = 0, cs_frag_length = 0,
     cs_signal_tv = BundleTimestamp 0 0, cs_creation_tv = BundleTimestamp 0 0, cs_source_eid = empty_eid\<rparr>"

definition fresh_report :: status_report where
  "fresh_report = \<lparr>sr_admin_type = 0, sr_admin_flags = 0, sr_status_flags = 0, sr_reason_code = 0, sr_frag_offset = 0, sr_frag_length = 0,
     sr_receipt_tv = BundleTimestamp 0 0, sr_custody_tv = BundleTimestamp 0 0, sr_forwarding_tv = BundleTimestamp 0 0,
     sr_delivery_tv = BundleTimestamp 0 0, sr_deletion_tv = BundleTimestamp 0 0, sr_ack_by_app_tv = BundleTimestamp 0 0,
     sr_creation_tv = BundleTimestamp 0 0, sr_source_eid = empty_eid\<rparr>"


theorem status_report_roundtrip_witness:
  "\<exists>b' s'. create_status_report 1300000000 (new_bundle 100 9 (payload_init False DISK [])) example_bundle example_eid SR_DELIVERED
      REASON_NO_ADDTL_INFO = Done b' \<and>
    parse_status_report (pl_bytes (b_payload b')) fresh_report = Done (True, s') \<and>
    sr_status_flags s' = 8 \<and> sr_receipt_tv s' = BundleTimestamp 0 0 \<and> sr_creation_tv s' = BundleTimestamp 100 7 \<and>
    b_dest b' = example_eid"
proof -
  obtain null where null: "NULL_EID = Done null" "\<not> eid_equals (b_replyto example_bundle) null"
    using example_null example_fields(3) by auto
  obtain e where e: "eid_assign (eid_str (b_source example_bundle)) (sr_source_eid fresh_report) = Done e" "eid_valid e"
    using example_source example_fields(1) by (auto simp: fresh_report_def)
  have w: "writable (b_payload (new_bundle 100 9 (payload_init False DISK [])))"
    using example_disk by (simp add: new_bundle_def Let_def)
  have "b_creation_ts example_bundle = BundleTimestamp 100 7" by (simp add: example_bundle_def new_bundle_def Let_def)
  then show ?thesis
    using status_report_roundtrip [OF null(1) example_clock w example_source_length e, of example_eid SR_DELIVERED REASON_NO_ADDTL_INFO]
      null(2) example_fields(3)
    by (auto simp: report_about_def time_if_def)
qed

theorem status_bundle_aborts_iff_witness:
  "parse_status_bundle (example_bundle\<lparr>b_is_admin := True\<rparr>) fresh_report = Panic"
  using status_bundle_aborts_iff [of "example_bundle\<lparr>b_is_admin := True\<rparr>" fresh_report] example_payload_ok
  by (simp add: example_payload_bundle fresh_report_def)

end
