(* ===== verification/Fragmentation.thy ===== *)
theory Fragmentation
  imports Bundle_Reception
begin

text \<open>
  Fragmentation and reassembly (\<open>servlib/bundling/FragmentManager.cc\<close>, \<open>FragmentState.cc\<close>, and
  \<open>insert_sorted\<close> of \<open>BundleList.cc\<close>). A list of fragments holds the bundles themselves; their
  identity is the bundle identifier. The bundle objects that the code makes with
  \<open>new Bundle()\<close> are arguments.
\<close>

section \<open>Making a fragment\<close>

text \<open>
  The fields both variants of \<open>create_fragment\<close> set; the lengths are cut to 32 bits.
\<close>

definition fragment_header :: "dtn_bundle \<Rightarrow> nat \<Rightarrow> dtn_bundle \<Rightarrow> dtn_bundle" where
  "fragment_header b offset new =
     (let f = (copy_metadata b new)\<lparr>b_is_fragment := True, b_do_not_fragment := False\<rparr>
      in if \<not> b_is_fragment b
         then f\<lparr>b_orig_length := of_nat (pl_length (b_payload b)), b_frag_offset := of_nat offset\<rparr>
         else f\<lparr>b_orig_length := b_orig_length b, b_frag_offset := b_frag_offset b + of_nat offset\<rparr>)"

text \<open>The payload of the fragment; reading moves the position in the payload of the bundle.\<close>

definition fill_fragment :: "dtn_bundle \<Rightarrow> nat \<Rightarrow> nat \<Rightarrow> dtn_bundle \<Rightarrow> (dtn_bundle \<times> dtn_bundle) outcome" where
  "fill_fragment b offset len f =
     bind_outcome (write_data_from (b_payload b) offset len 0 (pl_set_length len (b_payload f)))
       (\<lambda>(src, dst). Done (b\<lparr>b_payload := src\<rparr>, f\<lparr>b_payload := dst\<rparr>))"

text \<open>Which blocks go into a fragment: \<open>found\<close> says that the payload block has been seen.\<close>

fun blocks_to_replicate :: "bool \<Rightarrow> block_info list \<Rightarrow> block_info list outcome" where
  "blocks_to_replicate found [] = Done []"
| "blocks_to_replicate found (x # xs) =
     bind_outcome (bi_type x) (\<lambda>ty.
       bind_outcome (if ty = 0 \<or> ty = 1 \<or> found then Done True
                     else bind_outcome (bi_flags x) (\<lambda>flags. Done (flags AND BLOCK_FLAG_REPLICATE \<noteq> 0)))
         (\<lambda>copy. bind_outcome (blocks_to_replicate (found \<or> ty = 1) xs)
           (\<lambda>ys. Done (if copy then x # ys else ys))))"

definition create_fragment ::
    "dtn_bundle \<Rightarrow> dtn_bundle \<Rightarrow> block_info list \<Rightarrow> nat \<Rightarrow> nat \<Rightarrow> (dtn_bundle \<times> dtn_bundle) outcome" where
  "create_fragment new b blocks offset len =
     (let f = fragment_header b offset new
      in if offset + len > unat (b_orig_length f) then Panic
         else bind_outcome (fill_fragment b offset len f) (\<lambda>(b', f').
              bind_outcome (blocks_to_replicate False blocks) (\<lambda>xs.
                Done (b', set_recv_blocks (biv_blocks (b_recv_blocks f') @ xs) f'))))"

text \<open>
  The variant for a link: \<open>None\<close> when the blocks alone are too long; the blocks of the
  fragment for the link are the last component. The subtraction of sizes wraps around.
\<close>

definition size_minus :: "nat \<Rightarrow> nat \<Rightarrow> nat" where
  "size_minus a b = (if b \<le> a then a - b else 2 ^ 64 + a - b)"

definition create_link_fragment ::
    "dtn_bundle \<Rightarrow> dtn_bundle \<Rightarrow> block_info list \<Rightarrow> nat \<Rightarrow> nat
     \<Rightarrow> (dtn_bundle \<times> dtn_bundle \<times> block_info list) option outcome" where
  "create_link_fragment new b blocks_to_copy offset max_length =
     (let block_length = sum_list (map (\<lambda>x. length (bi_contents x)) blocks_to_copy)
      in if block_length > max_length then Done None
         else let f = fragment_header b offset new;
                  to_copy = min (max_length - block_length) (size_minus (pl_length (b_payload b)) offset)
              in bind_outcome (fill_fragment b offset to_copy f) (\<lambda>(b', f'). Done (Some (b', f', blocks_to_copy))))"

text \<open>A bundle of which only a part has arrived becomes a fragment.\<close>

definition convertible :: "block_info \<Rightarrow> dtn_bundle \<Rightarrow> (bool \<times> dtn_bundle) outcome" where
  "convertible payload_block b =
     (let payload_len = unat (bi_data_length payload_block); payload_rcvd = pl_length (b_payload b);
          recv = biv_blocks (b_recv_blocks b)
      in if payload_rcvd \<ge> payload_len
         then assert_that (bi_complete payload_block \<or> payload_len = 0)
           (bind_outcome (last_block payload_block) (\<lambda>is_last.
              if is_last then Done (False, b)
              else bind_outcome
                     (if bi_data_offset (last recv) \<noteq> 0 \<and> bi_complete (last recv) then last_block (last recv) else Done False)
                     (\<lambda>all_here.
                        if all_here then Done (False, b)
                        else bind_outcome (pl_truncate (payload_rcvd - 1) (b_payload b))
                               (\<lambda>pl. Done (True, b\<lparr>b_payload := pl\<rparr>)))))
         else Done (True, b))"

definition try_to_convert_to_fragment :: "dtn_bundle \<Rightarrow> (bool \<times> dtn_bundle) outcome" where
  "try_to_convert_to_fragment b =
     bind_outcome (find_block 1 (b_recv_blocks b)) (\<lambda>found.
       case found of
         None \<Rightarrow> Done (False, b)
       | Some payload_block \<Rightarrow>
           if bi_data_offset payload_block = 0 then Done (False, b)
           else if b_do_not_fragment b then Done (False, b)
           else if unat (bi_data_length payload_block) \<le> 1 then Done (False, b)
           else bind_outcome (convertible payload_block b) (\<lambda>(ok, b1).
             if \<not> ok then Done (False, b1)
             else let b2 = (if \<not> b_is_fragment b1
                            then b1\<lparr>b_is_fragment := True, b_orig_length := bi_data_length payload_block, b_frag_offset := 0\<rparr>
                            else b1)
                  in Done (True, b2\<lparr>b_fragmented_incoming := True\<rparr>)))"

section \<open>Reassembly state\<close>

record fragment_state =
  fs_bundle :: dtn_bundle
  fs_fragments :: "dtn_bundle list"

text \<open>\<open>insert_sorted\<close> with \<open>SORT_FRAG_OFFSET\<close>; a bundle that is on the list stays where it is.\<close>

fun insert_by_offset :: "dtn_bundle \<Rightarrow> dtn_bundle list \<Rightarrow> dtn_bundle list" where
  "insert_by_offset f [] = [f]"
| "insert_by_offset f (g # gs) = (if b_frag_offset g > b_frag_offset f then f # g # gs else g # insert_by_offset f gs)"

definition on_list :: "dtn_bundle \<Rightarrow> dtn_bundle list \<Rightarrow> bool" where
  "on_list f gs \<longleftrightarrow> b_bundleid f \<in> set (map b_bundleid gs)"

definition insert_sorted :: "dtn_bundle \<Rightarrow> dtn_bundle list \<Rightarrow> dtn_bundle list" where
  "insert_sorted f gs = (if on_list f gs then gs else insert_by_offset f gs)"

definition add_fragment :: "dtn_bundle \<Rightarrow> fragment_state \<Rightarrow> fragment_state" where
  "add_fragment f s = s\<lparr>fs_fragments := insert_sorted f (fs_fragments s)\<rparr>"

definition erase_fragment :: "dtn_bundle \<Rightarrow> fragment_state \<Rightarrow> bool \<times> fragment_state" where
  "erase_fragment f s =
     (on_list f (fs_fragments s), s\<lparr>fs_fragments := filter (\<lambda>g. b_bundleid g \<noteq> b_bundleid f) (fs_fragments s)\<rparr>)"

text \<open>
  The loop of \<open>check_completed\<close>: how far the payload is complete, or \<open>None\<close> at a hole.
\<close>

fun completed_up_to :: "nat \<Rightarrow> dtn_bundle list \<Rightarrow> nat \<Rightarrow> nat option outcome" where
  "completed_up_to total_len [] done_up_to = Done (Some done_up_to)"
| "completed_up_to total_len (f # fs) done_up_to =
     (let f_len = pl_length (b_payload f); f_offset = unat (b_frag_offset f)
      in assert_that (b_is_fragment f)
          (assert_that (unat (b_orig_length f) = total_len)
            (if done_up_to = f_offset then completed_up_to total_len fs (done_up_to + f_len)
             else if done_up_to < f_offset then Done None
             else if done_up_to > f_offset + f_len then completed_up_to total_len fs done_up_to
             else completed_up_to total_len fs (done_up_to + (f_len - (done_up_to - f_offset))))))"

definition check_completed :: "fragment_state \<Rightarrow> bool outcome" where
  "check_completed s =
     (let total_len = pl_length (b_payload (fs_bundle s))
      in bind_outcome (completed_up_to total_len (fs_fragments s) 0) (\<lambda>r. Done (r = Some total_len)))"

text \<open>The key of the table: \<open>%llu.%llu\<close> of the creation timestamp, source and destination.\<close>

fun decimal :: "nat \<Rightarrow> string" where
  "decimal n = (if n < 10 then [char_of (48 + n)] else decimal (n div 10) @ [char_of (48 + n mod 10)])"

declare decimal.simps [simp del]

definition get_hash_key :: "dtn_bundle \<Rightarrow> string" where
  "get_hash_key b =
     decimal (unat (ts_seconds (b_creation_ts b))) @ ''.'' @ decimal (unat (ts_seqno (b_creation_ts b))) @
     eid_str (b_source b) @ eid_str (b_dest b)"

type_synonym fragment_table = "string \<Rightarrow> fragment_state option"

definition get_fragment_state :: "fragment_table \<Rightarrow> dtn_bundle \<Rightarrow> fragment_state option" where
  "get_fragment_state t b = t (get_hash_key b)"

definition erase_fragment_state :: "fragment_state \<Rightarrow> fragment_table \<Rightarrow> fragment_table" where
  "erase_fragment_state s t = t(get_hash_key (fs_bundle s) := None)"

section \<open>Fragmenting a bundle that is sent\<close>

text \<open>The blocks of the first fragment, and those of the others.\<close>

fun split_blocks :: "block_info list \<Rightarrow> (block_info list \<times> block_info list) outcome" where
  "split_blocks [] = Done ([], [])"
| "split_blocks (x # xs) =
     bind_outcome (bi_type x) (\<lambda>ty.
       bind_outcome (if ty = 0 \<or> ty = 1 then Done True
                     else bind_outcome (bi_flags x) (\<lambda>flags. Done (flags AND BLOCK_FLAG_REPLICATE \<noteq> 0)))
         (\<lambda>in_all. bind_outcome (split_blocks xs)
           (\<lambda>(first, others).
              if ty = 0 \<or> ty = 1 then Done (x # first, x # others)
              else if in_all then Done (first, x # others)
              else Done (x # first, others))))"

text \<open>
  The \<open>do\<close> loop of \<open>proactively_fragment\<close>: the blocks for this fragment and for the later
  ones, the bytes that are left, the offset, the state, and the fragments so far, each with
  its blocks for the link.
\<close>

partial_function (option) fragment_loop ::
    "(nat \<Rightarrow> dtn_bundle) \<Rightarrow> nat \<Rightarrow> block_info list \<Rightarrow> block_info list \<Rightarrow> nat \<Rightarrow> nat \<Rightarrow> fragment_state
     \<Rightarrow> (dtn_bundle \<times> block_info list) list \<Rightarrow> (fragment_state \<times> (dtn_bundle \<times> block_info list) list) outcome option" where
  "fragment_loop new max_length this others todo offset state made =
     (case create_link_fragment (new (length made)) (fs_bundle state) this offset max_length of
        Panic \<Rightarrow> Some Panic
      | Done r \<Rightarrow>
          (case r of
             None \<Rightarrow> Some Panic
           | Some bfx \<Rightarrow>
               (let f = fst (snd bfx); state' = add_fragment f (state\<lparr>fs_bundle := fst bfx\<rparr>);
                    n = pl_length (b_payload f); made' = made @ [snd bfx]
                in if size_minus todo n > 0
                   then fragment_loop new max_length others others (size_minus todo n) (offset + n) state' made'
                   else Some (Done (state', made')))))"

definition proactively_fragment ::
    "(nat \<Rightarrow> dtn_bundle) \<Rightarrow> nat \<Rightarrow> dtn_bundle \<Rightarrow> block_info list \<Rightarrow> fragment_table
     \<Rightarrow> (fragment_table \<times> fragment_state \<times> (dtn_bundle \<times> block_info list) list) outcome option" where
  "proactively_fragment new max_length b blocks t =
     (case split_blocks blocks of
        Panic \<Rightarrow> Some Panic
      | Done (first, others) \<Rightarrow>
          map_option
            (\<lambda>r. bind_outcome r (\<lambda>(s, fs). Done (t(get_hash_key (fst (last fs)) \<mapsto> s), s, fs)))
            (fragment_loop new max_length first others (pl_length (b_payload b)) 0
              \<lparr>fs_bundle = b, fs_fragments = []\<rparr> []))"

text \<open>
  After a link has broken: the part that was not sent becomes a fragment, which is processed
  as if it had arrived.
\<close>

definition try_to_reactively_fragment ::
    "dtn_bundle \<Rightarrow> dtn_bundle \<Rightarrow> block_info_vec \<Rightarrow> nat \<Rightarrow> (bool \<times> dtn_bundle \<times> dtn_bundle option) outcome" where
  "try_to_reactively_fragment new b blocks bytes_sent =
     (if b_do_not_fragment b then Done (False, b, None)
      else bind_outcome (payload_offset blocks) (\<lambda>poff.
        if bytes_sent \<le> poff then Done (False, b, None)
        else if bytes_sent \<ge> total_length blocks then Done (False, b, None)
        else bind_outcome (find_block 1 blocks) (\<lambda>payload_block.
          let payload_len = pl_length (b_payload b); payload_sent = min payload_len (bytes_sent - poff)
          in if payload_len \<le> 1 then Done (False, b, None)
             else bind_outcome
               (if payload_sent \<ge> payload_len
                then (case payload_block of
                        None \<Rightarrow> Panic
                      | Some x \<Rightarrow> bind_outcome (last_block x) (\<lambda>l. assert_that (\<not> l) (Done (payload_len - 1, 1))))
                else Done (payload_sent, payload_len - payload_sent))
               (\<lambda>(frag_off, frag_len).
                  bind_outcome (create_fragment new b (biv_blocks blocks) frag_off frag_len)
                    (\<lambda>(b', tail). Done (True, b', Some tail))))))"

section \<open>Processing an arriving fragment\<close>

text \<open>
  \<open>process_for_reassembly\<close>: the table and, when the payload is complete, the reassembled
  bundle and the fragments of the \<open>ReassemblyCompletedEvent\<close>. The fragment goes onto the
  list after its payload has been read, since only the file position changes.
\<close>

definition new_reassembly :: "dtn_bundle \<Rightarrow> dtn_bundle \<Rightarrow> fragment_state" where
  "new_reassembly new f =
     (let b = (copy_metadata f new)\<lparr>b_is_fragment := False\<rparr>
      in \<lparr>fs_bundle = b\<lparr>b_payload := pl_set_length (unat (b_orig_length f)) (b_payload b)\<rparr>, fs_fragments = []\<rparr>)"

definition process_for_reassembly ::
    "dtn_bundle \<Rightarrow> dtn_bundle \<Rightarrow> fragment_table \<Rightarrow> (fragment_table \<times> (dtn_bundle \<times> dtn_bundle list) option) outcome" where
  "process_for_reassembly new f t =
     assert_that (b_is_fragment f)
      (let key = get_hash_key f;
           s = (case t key of None \<Rightarrow> new_reassembly new f | Some s \<Rightarrow> s);
           b = fs_bundle s
       in bind_outcome (write_data_from (b_payload f) 0 (pl_length (b_payload f)) (unat (b_frag_offset f)) (b_payload b))
         (\<lambda>(src, dst).
            let b1 = b\<lparr>b_payload := dst\<rparr>;
                b2 = (if b_frag_offset f = 0 \<and> biv_blocks (b_recv_blocks b1) \<noteq> []
                      then set_recv_blocks (biv_blocks (b_recv_blocks b1) @ biv_blocks (b_recv_blocks f)) b1 else b1);
                s' = add_fragment (f\<lparr>b_payload := src\<rparr>) (s\<lparr>fs_bundle := b2\<rparr>)
            in bind_outcome (check_completed s') (\<lambda>complete.
                 if complete then Done (t(key := None), Some (fs_bundle s', fs_fragments s'))
                 else Done (t(key \<mapsto> s'), None))))"

text \<open>
  Forgetting fragments: the fragments for which delete requests are posted, from the end of
  the list; and the removal of a single fragment.
\<close>

definition delete_obsoleted_fragments :: "dtn_bundle \<Rightarrow> fragment_table \<Rightarrow> fragment_table \<times> dtn_bundle list" where
  "delete_obsoleted_fragments b t =
     (case t (get_hash_key b) of None \<Rightarrow> (t, []) | Some s \<Rightarrow> (t(get_hash_key b := None), rev (fs_fragments s)))"

definition delete_fragment :: "dtn_bundle \<Rightarrow> fragment_table \<Rightarrow> fragment_table outcome" where
  "delete_fragment f t =
     assert_that (b_is_fragment f)
      (case t (get_hash_key f) of
         None \<Rightarrow> Done t
       | Some s \<Rightarrow>
           (case erase_fragment f s of (erased, s') \<Rightarrow>
              Done (if \<not> erased then t
                    else if fs_fragments s' = [] then t(get_hash_key f := None)
                    else t(get_hash_key f \<mapsto> s'))))"

end
