(* ===== verification/Reassembly.thy ===== *)
theory Reassembly
  imports Fragmentation
begin

text \<open>
  What reassembly does: \<open>check_completed\<close> decides whether the fragments cover the payload, the
  state of \<open>process_for_reassembly\<close> depends on the set of fragments that have arrived and not
  on their order, and the bundle that it posts has the original payload.
\<close>

section \<open>Completeness is coverage\<close>

abbreviation frag_start :: "dtn_bundle \<Rightarrow> nat" where "frag_start f \<equiv> unat (b_frag_offset f)"
abbreviation frag_size :: "dtn_bundle \<Rightarrow> nat" where "frag_size f \<equiv> pl_length (b_payload f)"

definition in_fragment :: "nat \<Rightarrow> dtn_bundle \<Rightarrow> bool" where
  "in_fragment i f \<longleftrightarrow> frag_start f \<le> i \<and> i < frag_start f + frag_size f"

definition covers :: "nat \<Rightarrow> dtn_bundle list \<Rightarrow> bool" where
  "covers n fs \<longleftrightarrow> (\<forall>i < n. list_ex (in_fragment i) fs)"

definition fragment_within :: "nat \<Rightarrow> dtn_bundle \<Rightarrow> bool" where
  "fragment_within n f \<longleftrightarrow> b_is_fragment f \<and> unat (b_orig_length f) = n \<and> frag_start f + frag_size f \<le> n"

lemma covered_from:
  assumes "d \<le> m" and "\<And>i. d \<le> i \<Longrightarrow> i < m \<Longrightarrow> in_fragment i f" and "\<And>i. m \<le> i \<Longrightarrow> \<not> in_fragment i f"
  shows "(\<forall>i. d \<le> i \<and> i < n \<longrightarrow> list_ex (in_fragment i) (f # fs)) \<longleftrightarrow> (\<forall>i. m \<le> i \<and> i < n \<longrightarrow> list_ex (in_fragment i) fs)"
  using assms by (auto, metis le_trans, metis leI)

lemma completed_up_to_covers:
  assumes "sorted (map frag_start fs)" and "list_all (fragment_within n) fs" and "d \<le> n"
  shows "\<exists>r. completed_up_to n fs d = Done r \<and> (r = Some n \<longleftrightarrow> (\<forall>i. d \<le> i \<and> i < n \<longrightarrow> list_ex (in_fragment i) fs))"
  using assms
proof (induction fs arbitrary: d)
  case (Cons f fs)
  let ?o = "frag_start f" and ?l = "frag_size f"
  have f: "b_is_fragment f" "unat (b_orig_length f) = n" "?o + ?l \<le> n"
    using Cons.prems(2) by (simp_all add: fragment_within_def)
  have rest: "sorted (map frag_start fs)" "list_all (fragment_within n) fs" using Cons.prems(1,2) by simp_all
  consider "d = ?o" | "d < ?o" | "d > ?o + ?l" | "?o < d" "d \<le> ?o + ?l" by linarith
  then show ?case
  proof cases
    case 1
    have "completed_up_to n (f # fs) d = completed_up_to n fs (?o + ?l)" using f 1 by simp
    moreover have "(\<forall>i. d \<le> i \<and> i < n \<longrightarrow> list_ex (in_fragment i) (f # fs)) \<longleftrightarrow>
        (\<forall>i. ?o + ?l \<le> i \<and> i < n \<longrightarrow> list_ex (in_fragment i) fs)"
      by (rule covered_from) (use 1 in \<open>auto simp: in_fragment_def\<close>)
    ultimately show ?thesis using Cons.IH [OF rest f(3)] by simp
  next
    case 2
    have "\<not> in_fragment d g" if "g \<in> set (f # fs)" for g
      using that 2 Cons.prems(1) by (auto simp: in_fragment_def)
    then have "\<not> list_ex (in_fragment d) (f # fs)" by (auto simp: list_ex_iff)
    moreover have "d < n" using 2 f(3) by simp
    ultimately have "\<not> (\<forall>i. d \<le> i \<and> i < n \<longrightarrow> list_ex (in_fragment i) (f # fs))" by blast
    then show ?thesis using f 2 by simp
  next
    case 3
    have "completed_up_to n (f # fs) d = completed_up_to n fs d" using f 3 by simp
    moreover have "(\<forall>i. d \<le> i \<and> i < n \<longrightarrow> list_ex (in_fragment i) (f # fs)) \<longleftrightarrow>
        (\<forall>i. d \<le> i \<and> i < n \<longrightarrow> list_ex (in_fragment i) fs)"
      by (rule covered_from) (use 3 in \<open>auto simp: in_fragment_def\<close>)
    ultimately show ?thesis using Cons.IH [OF rest Cons.prems(3)] by simp
  next
    case 4
    have "completed_up_to n (f # fs) d = completed_up_to n fs (?o + ?l)" using f 4 by (simp add: add.commute)
    moreover have "(\<forall>i. d \<le> i \<and> i < n \<longrightarrow> list_ex (in_fragment i) (f # fs)) \<longleftrightarrow>
        (\<forall>i. ?o + ?l \<le> i \<and> i < n \<longrightarrow> list_ex (in_fragment i) fs)"
      by (rule covered_from) (use 4 in \<open>auto simp: in_fragment_def\<close>)
    ultimately show ?thesis using Cons.IH [OF rest f(3)] by simp
  qed
qed auto

lemma check_completed_covers:
  assumes "sorted (map frag_start (fs_fragments s))" and "list_all (fragment_within n) (fs_fragments s)"
    and "pl_length (b_payload (fs_bundle s)) = n"
  shows "check_completed s = Done (covers n (fs_fragments s))"
  using completed_up_to_covers [OF assms(1,2), of 0] assms(3) by (auto simp: check_completed_def covers_def)

lemma set_insert_by_offset [simp]: "set (insert_by_offset f fs) = insert f (set fs)"
  by (induction fs) auto

lemma length_insert_by_offset [simp]: "length (insert_by_offset f fs) = Suc (length fs)"
  by (induction fs) auto

lemma sorted_insert_by_offset: "sorted (map frag_start fs) \<Longrightarrow> sorted (map frag_start (insert_by_offset f fs))"
  by (induction fs) (auto simp: word_less_nat_alt not_less)

section \<open>Reassembly in any order\<close>

lemma nth_overwrite:
  assumes "i < length (overwrite off bs st)"
  shows "off \<le> i \<Longrightarrow> i < off + length bs \<Longrightarrow> overwrite off bs st ! i = bs ! (i - off)"
    and "i < off \<or> off + length bs \<le> i \<Longrightarrow> i < length st \<Longrightarrow> overwrite off bs st ! i = st ! i"
  using assms by (auto simp: overwrite_def nth_append min_def)

text \<open>A fragment of the payload \<open>dat\<close>, with the key \<open>k\<close>.\<close>

definition fragment_of :: "byte list \<Rightarrow> string \<Rightarrow> dtn_bundle \<Rightarrow> bool" where
  "fragment_of dat k f \<longleftrightarrow>
     fragment_within (length dat) f \<and> payload_ok (b_payload f) \<and> get_hash_key f = k \<and>
     pl_bytes (b_payload f) = take (frag_size f) (drop (frag_start f) dat)"

text \<open>The state while the fragments on its list have arrived.\<close>

definition reassembling :: "byte list \<Rightarrow> string \<Rightarrow> fragment_state \<Rightarrow> bool" where
  "reassembling dat k s \<longleftrightarrow>
     writable (b_payload (fs_bundle s)) \<and> pl_length (b_payload (fs_bundle s)) = length dat \<and>
     \<not> b_is_fragment (fs_bundle s) \<and>
     sorted (map frag_start (fs_fragments s)) \<and> list_all (fragment_of dat k) (fs_fragments s) \<and>
     (\<forall>f \<in> set (fs_fragments s). \<forall>i. in_fragment i f \<longrightarrow>
        i < length (pl_store (b_payload (fs_bundle s))) \<and> pl_store (b_payload (fs_bundle s)) ! i = dat ! i)"

lemma write_part:
  assumes "payload_ok src" and "writable dst" and "from + len \<le> pl_length src" and "off + len \<le> pl_length dst"
  shows "\<exists>src' dst'. write_data_from src from len off dst = Done (src', dst') \<and>
    payload_ok src' \<and> pl_bytes src' = pl_bytes src \<and> pl_length src' = pl_length src \<and>
    writable dst' \<and> pl_length dst' = pl_length dst \<and>
    pl_store dst' = overwrite off (take len (drop from (pl_bytes src))) (pl_store dst)"
proof -
  let ?bs = "take len (drop from (pl_bytes src))"
  have len: "length (pl_bytes src) = pl_length src" by (rule length_pl_bytes [OF assms(1)])
  obtain src' where s: "read_data from len src = Done (?bs, src')" "payload_ok src'" "pl_bytes src' = pl_bytes src"
    using read_data_ok [OF assms(1), of "from" len] len assms(3) by auto
  have "pl_location dst \<noteq> NODATA" "pl_location dst = DISK \<longrightarrow> pl_cur_offset dst = pl_file_pos dst"
      "off + length ?bs \<le> pl_length dst"
    using assms len by (simp_all add: writable_def)
  then obtain dst' where d: "internal_write ?bs off dst = Done dst'" "pl_location dst' = pl_location dst"
      "pl_length dst' = pl_length dst" "pl_store dst' = overwrite off ?bs (pl_store dst)"
      "pl_location dst' = DISK \<longrightarrow> pl_cur_offset dst' = pl_file_pos dst'"
    using internal_write_ok [of dst off ?bs] by blast
  have "pl_length src' = pl_length src" using length_pl_bytes [OF s(2)] s(3) len by simp
  then show ?thesis
    using s d assms by (auto simp: write_data_from_def writable_def)
qed

lemma write_fragment:
  assumes "payload_ok src" and "writable dst" and "off + pl_length src \<le> pl_length dst"
  shows "\<exists>src' dst'. write_data_from src 0 (pl_length src) off dst = Done (src', dst') \<and>
    payload_ok src' \<and> pl_bytes src' = pl_bytes src \<and> pl_length src' = pl_length src \<and>
    writable dst' \<and> pl_length dst' = pl_length dst \<and> pl_store dst' = overwrite off (pl_bytes src) (pl_store dst)"
  using write_part [OF assms(1,2), of 0 "pl_length src" off] assms(3) length_pl_bytes [OF assms(1)] by simp

text \<open>Adding one more fragment keeps the state.\<close>

lemma reassembling_add:
  assumes s: "reassembling dat k s" and f: "fragment_of dat k f" and new: "\<not> on_list f (fs_fragments s)"
    and w: "write_data_from (b_payload f) 0 (frag_size f) (frag_start f) (b_payload (fs_bundle s)) = Done (src, dst)"
    and src: "payload_ok src" "pl_bytes src = pl_bytes (b_payload f)" "pl_length src = frag_size f"
    and dst: "writable dst" "pl_length dst = length dat"
      "pl_store dst = overwrite (frag_start f) (pl_bytes (b_payload f)) (pl_store (b_payload (fs_bundle s)))"
    and b': "b_payload b' = dst" "\<not> b_is_fragment b'"
  shows "reassembling dat k (add_fragment (f\<lparr>b_payload := src\<rparr>) (s\<lparr>fs_bundle := b'\<rparr>))"
    and "fs_fragments (add_fragment (f\<lparr>b_payload := src\<rparr>) (s\<lparr>fs_bundle := b'\<rparr>)) =
      insert_by_offset (f\<lparr>b_payload := src\<rparr>) (fs_fragments s)"
proof -
  let ?f = "f\<lparr>b_payload := src\<rparr>" and ?st = "pl_store (b_payload (fs_bundle s))"
  have new': "\<not> on_list ?f (fs_fragments s)" using new by (simp add: on_list_def)
  show ins: "fs_fragments (add_fragment ?f (s\<lparr>fs_bundle := b'\<rparr>)) = insert_by_offset ?f (fs_fragments s)"
    using new' by (simp add: add_fragment_def insert_sorted_def)
  have len: "length (pl_bytes (b_payload f)) = frag_size f"
    using f length_pl_bytes [of "b_payload f"] unfolding fragment_of_def by blast
  have same: "fragment_of dat k ?f" "\<And>i. in_fragment i ?f = in_fragment i f"
    using f src by (simp_all add: fragment_of_def fragment_within_def get_hash_key_def in_fragment_def)
  have within: "frag_start f + frag_size f \<le> length dat" using f by (simp add: fragment_of_def fragment_within_def)
  have here: "i < length (pl_store dst) \<and> pl_store dst ! i = dat ! i" if i: "in_fragment i f" for i
  proof -
    have lt: "i < length (pl_store dst)" using i by (auto simp: dst(3) length_overwrite len in_fragment_def max_def)
    have "pl_store dst ! i = pl_bytes (b_payload f) ! (i - frag_start f)"
      using i lt unfolding dst(3) in_fragment_def by (intro nth_overwrite(1)) (simp_all add: len)
    also have "\<dots> = dat ! i"
    proof -
      have "pl_bytes (b_payload f) = take (frag_size f) (drop (frag_start f) dat)"
        using f by (simp add: fragment_of_def)
      moreover have "frag_start f \<le> i" "i - frag_start f < frag_size f" using i by (auto simp: in_fragment_def)
      ultimately show ?thesis using within by simp
    qed
    finally show ?thesis using lt by simp
  qed
  have there: "i < length (pl_store dst) \<and> pl_store dst ! i = dat ! i" if i: "i < length ?st" "?st ! i = dat ! i" for i
  proof (cases "in_fragment i f")
    case False
    have lt: "i < length (pl_store dst)" using i(1) by (auto simp: dst(3) length_overwrite max_def)
    have "pl_store dst ! i = ?st ! i"
      using lt i(1) False unfolding dst(3) in_fragment_def by (intro nth_overwrite(2)) (auto simp: len)
    then show ?thesis using lt i(2) by simp
  qed (rule here)
  show "reassembling dat k (add_fragment ?f (s\<lparr>fs_bundle := b'\<rparr>))"
    using s same(1) dst b' here there
    unfolding reassembling_def ins by (auto simp: add_fragment_def same sorted_insert_by_offset list_all_iff)
qed

lemma reassembled_bytes:
  assumes "reassembling dat k s" and "covers (length dat) (fs_fragments s)"
  shows "pl_bytes (b_payload (fs_bundle s)) = dat"
proof -
  let ?p = "b_payload (fs_bundle s)"
  have all: "i < length (pl_store ?p) \<and> pl_store ?p ! i = dat ! i" if i: "i < length dat" for i
  proof -
    obtain f where "f \<in> set (fs_fragments s)" "in_fragment i f" using assms(2) i by (auto simp: covers_def list_ex_iff)
    then show ?thesis using assms(1) by (auto simp: reassembling_def)
  qed
  have "length dat \<le> length (pl_store ?p)"
  proof (rule ccontr)
    assume "\<not> length dat \<le> length (pl_store ?p)"
    then have "length (pl_store ?p) < length dat" by simp
    from all [OF this] show False by simp
  qed
  then show ?thesis
    using all assms(1) by (intro nth_equalityI) (auto simp: pl_bytes_def reassembling_def)
qed

lemma reassembling_within: "reassembling dat k s \<Longrightarrow> list_all (fragment_within (length dat)) (fs_fragments s)"
  by (auto simp: reassembling_def fragment_of_def list_all_iff)

lemma new_reassembling:
  assumes "fragment_of dat k f" and "writable (b_payload new)"
  shows "reassembling dat k (new_reassembly new f)" and "fs_fragments (new_reassembly new f) = []"
  using assms by (simp_all add: reassembling_def new_reassembly_def Let_def fragment_of_def fragment_within_def writable_def
      pl_set_length_def copy_metadata_def)

text \<open>The fragments on the list, apart from the file positions, are those that arrived.\<close>

definition same_fragment :: "dtn_bundle \<Rightarrow> dtn_bundle \<Rightarrow> bool" where
  "same_fragment f g \<longleftrightarrow> g = f\<lparr>b_payload := b_payload g\<rparr> \<and> pl_bytes (b_payload g) = pl_bytes (b_payload f) \<and> frag_size g = frag_size f"

definition waiting :: "byte list \<Rightarrow> string \<Rightarrow> dtn_bundle list \<Rightarrow> fragment_state \<Rightarrow> bool" where
  "waiting dat k arrived s \<longleftrightarrow> reassembling dat k s \<and> length (fs_fragments s) = length arrived \<and>
     (\<forall>f \<in> set arrived. \<exists>g \<in> set (fs_fragments s). same_fragment f g) \<and>
     (\<forall>g \<in> set (fs_fragments s). \<exists>f \<in> set arrived. same_fragment f g)"

lemma covers_same:
  assumes "waiting dat k arrived s"
  shows "covers n (fs_fragments s) = covers n arrived"
proof -
  have "in_fragment i f = in_fragment i g" if "same_fragment f g" for i f g
  proof -
    have "b_frag_offset g = b_frag_offset f" 
      using arg_cong [OF conjunct1 [OF that [unfolded same_fragment_def]], of b_frag_offset] by simp
    then show ?thesis using that by (simp add: same_fragment_def in_fragment_def)
  qed
  then have "list_ex (in_fragment i) (fs_fragments s) = list_ex (in_fragment i) arrived" for i
    using assms unfolding waiting_def list_ex_iff by blast
  then show ?thesis by (simp add: covers_def)
qed

text \<open>The primary fields that the reassembled bundle takes from the first fragment.\<close>

definition same_primary :: "dtn_bundle \<Rightarrow> dtn_bundle \<Rightarrow> bool" where
  "same_primary b c \<longleftrightarrow> b_source b = b_source c \<and> b_dest b = b_dest c \<and> b_custodian b = b_custodian c \<and>
     b_replyto b = b_replyto c \<and> b_creation_ts b = b_creation_ts c \<and> b_expiration b = b_expiration c \<and>
     b_priority b = b_priority c \<and> b_is_admin b = b_is_admin c"

text \<open>The table has the state for the fragments that have arrived, or none before the first.\<close>

definition table_waits :: "byte list \<Rightarrow> string \<Rightarrow> dtn_bundle list \<Rightarrow> fragment_table \<Rightarrow> bool" where
  "table_waits dat k arrived t \<longleftrightarrow>
     (case t k of None \<Rightarrow> arrived = []
      | Some s \<Rightarrow> arrived \<noteq> [] \<and> waiting dat k arrived s \<and> same_primary (fs_bundle s) (hd arrived))"

lemma waiting_snoc:
  assumes w: "waiting dat k arrived s" and r: "reassembling dat k s'"
    and ins: "fs_fragments s' = insert_by_offset g (fs_fragments s)" and g: "same_fragment f g"
  shows "waiting dat k (arrived @ [f]) s'"
  using assms unfolding waiting_def by auto

lemma waiting_fresh:
  assumes "waiting dat k arrived s" and "b_bundleid f \<notin> set (map b_bundleid arrived)"
  shows "\<not> on_list f (fs_fragments s)"
proof
  assume "on_list f (fs_fragments s)"
  then obtain g where g: "g \<in> set (fs_fragments s)" "b_bundleid g = b_bundleid f" by (auto simp: on_list_def)
  then obtain h where h: "h \<in> set arrived" "same_fragment h g" using assms(1) unfolding waiting_def by blast
  then have "b_bundleid g = b_bundleid h"
    using arg_cong [OF conjunct1 [OF h(2) [unfolded same_fragment_def]], of b_bundleid] by simp
  then show False using g(2) h(1) assms(2) by auto
qed

text \<open>One arrival.\<close>

lemma process_step:
  assumes t: "table_waits dat k arrived t" and f: "fragment_of dat k f"
    and fresh: "b_bundleid f \<notin> set (map b_bundleid arrived)" and new: "writable (b_payload new)"
  shows "\<exists>s. waiting dat k (arrived @ [f]) s \<and> same_primary (fs_bundle s) (hd (arrived @ [f])) \<and>
    process_for_reassembly new f t =
      Done (if covers (length dat) (arrived @ [f]) then (t(k := None), Some (fs_bundle s, fs_fragments s))
            else (t(k \<mapsto> s), None))"
proof -
  define s0 where "s0 = (case t k of None \<Rightarrow> new_reassembly new f | Some s \<Rightarrow> s)"
  have key: "get_hash_key f = k" and frag: "b_is_fragment f" and ok: "payload_ok (b_payload f)"
      and within: "frag_start f + frag_size f \<le> length dat"
    using f by (simp_all add: fragment_of_def fragment_within_def)
  have s0: "waiting dat k arrived s0" "same_primary (fs_bundle s0) (hd (arrived @ [f]))"
    using t new_reassembling [OF f new]
    by (auto simp: table_waits_def s0_def waiting_def same_primary_def new_reassembly_def copy_metadata_def Let_def
        split: option.splits)
  then have r0: "reassembling dat k s0" by (simp add: waiting_def)
  have "writable (b_payload (fs_bundle s0))" "pl_length (b_payload (fs_bundle s0)) = length dat"
      "\<not> b_is_fragment (fs_bundle s0)" using r0 by (simp_all add: reassembling_def)
  then obtain src dst where w: "write_data_from (b_payload f) 0 (frag_size f) (frag_start f) (b_payload (fs_bundle s0)) = Done (src, dst)"
      "payload_ok src" "pl_bytes src = pl_bytes (b_payload f)" "pl_length src = frag_size f"
      "writable dst" "pl_length dst = length dat"
      "pl_store dst = overwrite (frag_start f) (pl_bytes (b_payload f)) (pl_store (b_payload (fs_bundle s0)))"
    using write_fragment [OF ok, of "b_payload (fs_bundle s0)" "frag_start f"] within by auto
  define b1 where "b1 = fs_bundle s0\<lparr>b_payload := dst\<rparr>"
  define b2 where "b2 = (if b_frag_offset f = 0 \<and> biv_blocks (b_recv_blocks b1) \<noteq> []
      then set_recv_blocks (biv_blocks (b_recv_blocks b1) @ biv_blocks (b_recv_blocks f)) b1 else b1)"
  have b2: "b_payload b2 = dst" "\<not> b_is_fragment b2" "same_primary b2 (hd (arrived @ [f]))"
    using s0(2) r0 by (simp_all add: b2_def b1_def set_recv_blocks_def same_primary_def reassembling_def)
  define s where "s = add_fragment (f\<lparr>b_payload := src\<rparr>) (s0\<lparr>fs_bundle := b2\<rparr>)"
  have new_f: "\<not> on_list f (fs_fragments s0)" by (rule waiting_fresh [OF s0(1) fresh])
  have r: "reassembling dat k s" "fs_fragments s = insert_by_offset (f\<lparr>b_payload := src\<rparr>) (fs_fragments s0)"
    unfolding s_def by (rule reassembling_add [OF r0 f new_f w b2(1,2)])+
  have wait: "waiting dat k (arrived @ [f]) s"
    by (rule waiting_snoc [OF s0(1) r]) (simp add: same_fragment_def w)
  have "check_completed s = Done (covers (length dat) (fs_fragments s))"
    using r(1) reassembling_within [OF r(1)] by (intro check_completed_covers) (simp_all add: reassembling_def)
  then have complete: "check_completed s = Done (covers (length dat) (arrived @ [f]))"
    by (simp add: covers_same [OF wait])
  have "process_for_reassembly new f t =
      Done (if covers (length dat) (arrived @ [f]) then (t(k := None), Some (fs_bundle s, fs_fragments s))
            else (t(k \<mapsto> s), None))"
    by (simp only: process_for_reassembly_def Let_def key s0_def [symmetric] w(1) assert_that_def frag if_True
        bind_outcome.simps prod.case b1_def [symmetric] b2_def [symmetric] s_def [symmetric] complete split: if_split) simp
  moreover have "same_primary (fs_bundle s) (hd (arrived @ [f]))" using b2(3) by (simp add: s_def add_fragment_def)
  ultimately show ?thesis using wait by blast
qed

text \<open>A sequence of arrivals, each with the bundle object for a new state; the events posted.\<close>

fun process_all ::
    "(dtn_bundle \<Rightarrow> dtn_bundle) \<Rightarrow> dtn_bundle list \<Rightarrow> fragment_table
     \<Rightarrow> (fragment_table \<times> (dtn_bundle \<times> dtn_bundle list) list) outcome" where
  "process_all new [] t = Done (t, [])"
| "process_all new (f # fs) t =
     bind_outcome (process_for_reassembly (new f) f t) (\<lambda>(t', event).
       bind_outcome (process_all new fs t') (\<lambda>(t'', events).
         Done (t'', case event of None \<Rightarrow> events | Some e \<Rightarrow> e # events)))"

lemma table_waits_update:
  "waiting dat k arrived s \<Longrightarrow> same_primary (fs_bundle s) (hd arrived) \<Longrightarrow> arrived \<noteq> [] \<Longrightarrow>
   table_waits dat k arrived (t(k \<mapsto> s))"
  by (simp add: table_waits_def)

lemma process_all_early:
  assumes "table_waits dat k arrived t" and "\<forall>f \<in> set fs. fragment_of dat k f"
    and "distinct (map b_bundleid (arrived @ fs))" and "\<And>f. writable (b_payload (new f))"
    and "\<not> covers (length dat) (arrived @ fs)"
  shows "\<exists>t'. process_all new fs t = Done (t', []) \<and> table_waits dat k (arrived @ fs) t' \<and> t'(k := None) = t(k := None)"
  using assms
proof (induction fs arbitrary: arrived t)
  case Nil
  then show ?case by (simp add: assms)
next
  case (Cons f fs)
  have fresh: "b_bundleid f \<notin> set (map b_bundleid arrived)" using Cons.prems(3) by auto
  have "fragment_of dat k f" using Cons.prems(2) by simp
  from process_step [OF Cons.prems(1) this fresh Cons.prems(4)]
  obtain s where s: "waiting dat k (arrived @ [f]) s" "same_primary (fs_bundle s) (hd (arrived @ [f]))"
    "process_for_reassembly (new f) f t =
      Done (if covers (length dat) (arrived @ [f]) then (t(k := None), Some (fs_bundle s, fs_fragments s))
            else (t(k \<mapsto> s), None))" by blast
  have "\<not> covers (length dat) (arrived @ [f])" using Cons.prems(5) by (auto simp: covers_def)
  then have p: "process_for_reassembly (new f) f t = Done (t(k \<mapsto> s), None)" using s(3) by simp
  have "table_waits dat k (arrived @ [f]) (t(k \<mapsto> s))" by (rule table_waits_update [OF s(1,2)]) simp
  then have "\<exists>t'. process_all new fs (t(k \<mapsto> s)) = Done (t', []) \<and> table_waits dat k ((arrived @ [f]) @ fs) t' \<and>
      t'(k := None) = (t(k \<mapsto> s))(k := None)"
    by (rule Cons.IH) (use Cons.prems in auto)
  then obtain t' where t': "process_all new fs (t(k \<mapsto> s)) = Done (t', [])" "table_waits dat k (arrived @ f # fs) t'"
      "t'(k := None) = (t(k \<mapsto> s))(k := None)" unfolding append_assoc append_Cons append_Nil by blast
  from t'(3) have "t'(k := None) = t(k := None)" by (simp only: fun_upd_upd)
  then show ?case using t' p by (intro exI [of _ t']) simp
qed

lemma process_all_append:
  "process_all new (fs @ gs) t =
     bind_outcome (process_all new fs t) (\<lambda>(t', es). bind_outcome (process_all new gs t') (\<lambda>(t'', es'). Done (t'', es @ es')))"
proof (induction fs arbitrary: t)
  case Nil
  show ?case by (cases "process_all new gs t") auto
next
  case (Cons f fs)
  show ?case
  proof (cases "process_for_reassembly (new f) f t")
    case (Done r)
    show ?thesis
      using Cons.IH Done
      by (cases r; cases "process_all new fs (fst r)"; cases "process_all new gs (fst (case process_all new fs (fst r) of Done x \<Rightarrow> x))")
         (auto split: option.splits)
  qed simp
qed

lemma reassemble:
  assumes frags: "\<forall>f \<in> set fs. fragment_of dat k f" and ids: "distinct (map b_bundleid fs)" and ne: "fs \<noteq> []"
    and t: "t k = None" and new: "\<forall>f. writable (b_payload (new f))"
    and all: "covers (length dat) fs" and last: "\<not> covers (length dat) (butlast fs)"
  shows "\<exists>t' s. process_all new (butlast fs) t = Done (t', []) \<and> process_all new fs t = Done (t, [(fs_bundle s, fs_fragments s)]) \<and>
    waiting dat k fs s \<and> same_primary (fs_bundle s) (hd fs) \<and> pl_bytes (b_payload (fs_bundle s)) = dat"
proof -
  let ?b = "butlast fs" and ?l = "last fs"
  have fs: "fs = ?b @ [?l]" using ne by simp
  have start: "table_waits dat k [] t" using t by (simp add: table_waits_def)
  have ids': "distinct (map b_bundleid ([] @ ?b))" "b_bundleid ?l \<notin> set (map b_bundleid ?b)"
    using ids by (subst (asm) fs, simp)+
  have frags': "\<forall>f \<in> set ?b. fragment_of dat k f" "fragment_of dat k ?l" using frags ne by (simp_all add: in_set_butlastD)
  have "\<not> covers (length dat) ([] @ ?b)" using last by simp
  from process_all_early [OF start frags'(1) ids'(1) _ this, of new] new
  obtain t' where early: "process_all new ?b t = Done (t', [])" "table_waits dat k ?b t'" "t'(k := None) = t(k := None)"
    by auto
  from process_step [OF early(2) frags'(2) ids'(2), of "new ?l"] new
  obtain s where s: "waiting dat k fs s" "same_primary (fs_bundle s) (hd fs)"
    "process_for_reassembly (new ?l) ?l t' = Done (t'(k := None), Some (fs_bundle s, fs_fragments s))"
    using all fs by auto
  have restored: "t'(k := None) = t" using early(3) t by (simp add: fun_upd_idem)
  have full: "process_all new fs t = Done (t, [(fs_bundle s, fs_fragments s)])"
    by (subst fs) (simp add: process_all_append early(1) s(3) restored)
  have bytes: "pl_bytes (b_payload (fs_bundle s)) = dat"
    using s(1) all covers_same [OF s(1)] by (intro reassembled_bytes [of dat k]) (simp_all add: waiting_def)
  show ?thesis using early(1) full bytes s(1,2) by blast
qed

text \<open>
  C23. Reassembly does not depend on the order of arrival: when fragments of one bundle,
  overlapping or not, arrive in any order, and together but not before the last one cover its
  payload, then no assertion fails, nothing is posted before the last, and the last one posts
  the bundle with the original payload, the primary fields of the first fragment and the
  fragments sorted by their offset; the table of reassembly states is as it was before.
\<close>

theorem reassembly_any_order:
  assumes frags: "\<forall>f \<in> set fs. fragment_of dat k f" and ids: "distinct (map b_bundleid fs)" and ne: "fs \<noteq> []"
    and t: "t k = None" and new: "\<forall>f. writable (b_payload (new f))"
    and all: "covers (length dat) fs" and last: "\<not> covers (length dat) (butlast fs)"
  shows "\<exists>t' b gs. process_all new (butlast fs) t = Done (t', []) \<and> process_all new fs t = Done (t, [(b, gs)]) \<and>
    pl_bytes (b_payload b) = dat \<and> pl_length (b_payload b) = length dat \<and> \<not> b_is_fragment b \<and> same_primary b (hd fs) \<and>
    sorted (map frag_start gs) \<and> length gs = length fs \<and> (\<forall>f \<in> set fs. \<exists>g \<in> set gs. same_fragment f g)"
  using reassemble [of fs dat k t new, OF assms] unfolding waiting_def reassembling_def by blast

section \<open>Fragments that overrun the payload\<close>

lemma write_overrun: "pl_length p < off + len \<Longrightarrow> write_data_from src n len off p = Panic"
  by (simp add: write_data_from_def assert_that_def)

text \<open>
  C27. The first fragment of a bundle that arrives aborts the daemon exactly when it claims to
  end behind the end of the original payload, which no check of the receiver excludes; and so
  does every later fragment that ends behind the payload of the reassembly state.
\<close>

theorem overrunning_fragment_aborts:
  assumes f: "b_is_fragment f" "payload_ok (b_payload f)" and new: "writable (b_payload new)"
  shows "case t (get_hash_key f) of
      None \<Rightarrow> process_for_reassembly new f t = Panic \<longleftrightarrow> unat (b_orig_length f) < frag_start f + frag_size f
    | Some s \<Rightarrow> frag_size (fs_bundle s) < frag_start f + frag_size f \<longrightarrow> process_for_reassembly new f t = Panic"
proof -
  let ?n = "unat (b_orig_length f)" and ?s = "new_reassembly new f"
  have b: "frag_size (fs_bundle ?s) = ?n" by (simp add: new_reassembly_def Let_def pl_set_length_def copy_metadata_def)
  have "process_for_reassembly new f t = Panic \<longleftrightarrow> ?n < frag_start f + frag_size f" if t: "t (get_hash_key f) = None"
  proof (cases "?n < frag_start f + frag_size f")
    case True
    then show ?thesis using f(1) t write_overrun [of "b_payload (fs_bundle ?s)"] b by (simp add: process_for_reassembly_def Let_def)
  next
    case False
    let ?dat = "replicate (frag_start f) 0 @ pl_bytes (b_payload f) @ replicate (?n - frag_start f - frag_size f) 0"
    have "fragment_of ?dat (get_hash_key f) f"
      using f False length_pl_bytes [OF f(2)] by (simp add: fragment_of_def fragment_within_def)
    from process_step [OF _ this _ new, of "[]" t] t
    show ?thesis using False by (auto simp: table_waits_def split: if_splits)
  qed
  moreover have "process_for_reassembly new f t = Panic" if "t (get_hash_key f) = Some s" "frag_size (fs_bundle s) < frag_start f + frag_size f" for s
    using f(1) that write_overrun [of "b_payload (fs_bundle s)"] by (simp add: process_for_reassembly_def Let_def)
  ultimately show ?thesis by (simp split: option.split)
qed

section \<open>Witnesses\<close>

text \<open>Two overlapping fragments of the payload 1, 2, 3; the second arrives first.\<close>

definition piece :: "u32 \<Rightarrow> u32 \<Rightarrow> byte list \<Rightarrow> dtn_bundle" where
  "piece bid off bs = example_bundle\<lparr>b_bundleid := bid, b_is_fragment := True, b_orig_length := 3, b_frag_offset := off,
     b_payload := \<lparr>pl_location = MEMORY, pl_store = bs, pl_length = length bs, pl_cur_offset = 0, pl_file_pos = 0\<rparr>\<rparr>"

definition receiver :: "dtn_bundle \<Rightarrow> dtn_bundle" where
  "receiver f = new_bundle 100 50 (payload_init False DISK [])"

lemma receiver_writable: "writable (b_payload (receiver f))"
  by (simp add: receiver_def new_bundle_def Let_def writable_def payload_init_def)

lemma piece_fields:
  "b_is_fragment (piece bid off bs)" "payload_ok (b_payload (piece bid off bs))" "frag_size (piece bid off bs) = length bs"
  "frag_start (piece bid off bs) = unat off" "b_orig_length (piece bid off bs) = 3" "b_bundleid (piece bid off bs) = bid"
  "get_hash_key (piece bid off bs) = get_hash_key example_bundle" "pl_bytes (b_payload (piece bid off bs)) = bs"
  by (simp_all add: piece_def payload_ok_def pl_bytes_def get_hash_key_def)

theorem reassembly_any_order_witness:
  "\<exists>b gs. process_all receiver [piece 2 1 [2, 3], piece 1 0 [1, 2]] Map.empty = Done (Map.empty, [(b, gs)]) \<and>
    pl_bytes (b_payload b) = [1, 2, 3]"
proof -
  let ?fs = "[piece 2 1 [2, 3], piece 1 0 [1, 2]]" and ?k = "get_hash_key example_bundle"
  have "\<forall>f \<in> set ?fs. fragment_of [1, 2, 3] ?k f" by (simp add: fragment_of_def fragment_within_def piece_fields)
  moreover have "distinct (map b_bundleid ?fs)" by (simp add: piece_fields)
  moreover have "covers (length [1, 2, 3 :: byte]) ?fs" "\<not> covers (length [1, 2, 3 :: byte]) (butlast ?fs)"
    by (auto simp: covers_def in_fragment_def piece_fields intro: exI [of _ 0])
  ultimately show ?thesis
    using reassembly_any_order [of ?fs "[1, 2, 3]" ?k Map.empty receiver] receiver_writable by auto
qed

theorem overrunning_fragment_aborts_witness:
  "process_for_reassembly (receiver (piece 1 2 [2, 3])) (piece 1 2 [2, 3]) Map.empty = Panic"
  using overrunning_fragment_aborts [of "piece 1 2 [2, 3]" "receiver (piece 1 2 [2, 3])" Map.empty] receiver_writable
  by (simp add: piece_fields)

end
