(* ===== verification/Fragment_Roundtrip.thy ===== *)
theory Fragment_Roundtrip
  imports Reassembly "HOL-Library.Multiset"
begin

text \<open>
  Proactive fragmentation: the loop ends, its fragments are a partition of the payload, and
  they are reassembled in whatever order they arrive.
\<close>

section \<open>The fragments of a bundle\<close>

text \<open>
  A bundle with the payload \<open>dat\<close>, or a fragment of one; where its payload starts in \<open>dat\<close>;
  and fragments that lie one behind the other from \<open>d\<close> to \<open>e\<close>.
\<close>

definition bundle_of :: "byte list \<Rightarrow> dtn_bundle \<Rightarrow> bool" where
  "bundle_of dat b \<longleftrightarrow>
     (if b_is_fragment b then fragment_of dat (get_hash_key b) b
      else payload_ok (b_payload b) \<and> pl_bytes (b_payload b) = dat \<and> length dat < 2 ^ 32)"

definition payload_start :: "dtn_bundle \<Rightarrow> nat" where
  "payload_start b = (if b_is_fragment b then frag_start b else 0)"

fun chain :: "byte list \<Rightarrow> dtn_bundle \<Rightarrow> nat \<Rightarrow> dtn_bundle list \<Rightarrow> nat \<Rightarrow> bool" where
  "chain dat b d [] e \<longleftrightarrow> d = e"
| "chain dat b d (f # fs) e \<longleftrightarrow>
     frag_start f = d \<and> fragment_of dat (get_hash_key b) f \<and> same_primary f b \<and> chain dat b (d + frag_size f) fs e"

lemma bundle_of_facts:
  assumes "bundle_of dat b"
  shows "payload_ok (b_payload b)" and "payload_start b + frag_size b \<le> length dat"
    and "pl_bytes (b_payload b) = take (frag_size b) (drop (payload_start b) dat)"
    and "of_nat (length dat) = (if b_is_fragment b then b_orig_length b else of_nat (pl_length (b_payload b)))"
    and "i \<le> length dat \<Longrightarrow> unat (of_nat i :: u32) = i"
proof -
  have len: "length (pl_bytes (b_payload b)) = frag_size b" if "payload_ok (b_payload b)" by (rule length_pl_bytes [OF that])
  show "payload_ok (b_payload b)" "payload_start b + frag_size b \<le> length dat"
      "pl_bytes (b_payload b) = take (frag_size b) (drop (payload_start b) dat)"
    using assms len by (auto simp: bundle_of_def payload_start_def fragment_of_def fragment_within_def split: if_splits)
  have "of_nat (length dat) = b_orig_length b" if "b_is_fragment b"
  proof -
    have "unat (b_orig_length b) = length dat" using assms that by (simp add: bundle_of_def fragment_of_def fragment_within_def)
    from this [symmetric] show ?thesis by simp
  qed
  then show "of_nat (length dat) = (if b_is_fragment b then b_orig_length b else of_nat (pl_length (b_payload b)))"
    using assms len by (auto simp: bundle_of_def)
  have "length dat < 2 ^ 32"
  proof (cases "b_is_fragment b")
    case True
    then have "unat (b_orig_length b) = length dat" using assms by (simp add: bundle_of_def fragment_of_def fragment_within_def)
    moreover have "unat (b_orig_length b) < 2 ^ LENGTH(32)" by (rule unsigned_less)
    ultimately show ?thesis by simp
  next
    case False
    then show ?thesis using assms by (simp add: bundle_of_def)
  qed
  then show "i \<le> length dat \<Longrightarrow> unat (of_nat i :: u32) = i"
    by (simp add: unsigned_of_nat take_bit_nat_eq_self)
qed

lemma fragment_header_fields:
  assumes "bundle_of dat b" and "payload_start b + offset \<le> length dat"
  shows "b_is_fragment (fragment_header b offset new)" and "unat (b_orig_length (fragment_header b offset new)) = length dat"
    and "frag_start (fragment_header b offset new) = payload_start b + offset"
    and "same_primary (fragment_header b offset new) b" and "get_hash_key (fragment_header b offset new) = get_hash_key b"
    and "b_payload (fragment_header b offset new) = b_payload new" and "b_bundleid (fragment_header b offset new) = b_bundleid new"
proof -
  let ?f = "fragment_header b offset new"
  show "b_is_fragment ?f" "same_primary ?f b" "get_hash_key ?f = get_hash_key b" "b_payload ?f = b_payload new"
      "b_bundleid ?f = b_bundleid new"
    by (simp_all add: fragment_header_def Let_def copy_metadata_def same_primary_def get_hash_key_def)
  have "b_orig_length ?f = of_nat (length dat)"
    using bundle_of_facts(4) [OF assms(1)] by (simp add: fragment_header_def Let_def copy_metadata_def)
  then show "unat (b_orig_length ?f) = length dat" by (simp add: bundle_of_facts(5) [OF assms(1)])
  have "b_frag_offset ?f = of_nat (payload_start b + offset)"
    by (simp add: fragment_header_def Let_def copy_metadata_def payload_start_def)
  then show "frag_start ?f = payload_start b + offset" using bundle_of_facts(5) [OF assms] by simp
qed

lemma fill_fragment_ok:
  assumes b: "bundle_of dat b" and new: "writable (b_payload new)" and part: "offset + len \<le> frag_size b"
  shows "\<exists>src f. fill_fragment b offset len (fragment_header b offset new) = Done (b\<lparr>b_payload := src\<rparr>, f) \<and>
    bundle_of dat (b\<lparr>b_payload := src\<rparr>) \<and> pl_length src = frag_size b \<and>
    fragment_of dat (get_hash_key b) f \<and> frag_size f = len \<and> frag_start f = payload_start b + offset \<and> same_primary f b \<and>
    b_bundleid f = b_bundleid new \<and> b_recv_blocks f = b_recv_blocks new"
proof -
  let ?h = "fragment_header b offset new"
  note bf = bundle_of_facts [OF b]
  have off: "payload_start b + offset \<le> length dat" using bf(2) part by simp
  note h = fragment_header_fields [OF b off, of new]
  have "writable (pl_set_length len (b_payload ?h))" "pl_length (pl_set_length len (b_payload ?h)) = len"
    using new h(6) by (simp_all add: writable_def pl_set_length_def)
  then obtain src dst where w: "write_data_from (b_payload b) offset len 0 (pl_set_length len (b_payload ?h)) = Done (src, dst)"
      "payload_ok src" "pl_bytes src = pl_bytes (b_payload b)" "pl_length src = frag_size b" "writable dst" "pl_length dst = len"
      "pl_store dst = overwrite 0 (take len (drop offset (pl_bytes (b_payload b)))) (pl_store (pl_set_length len (b_payload ?h)))"
    using write_part [OF bf(1) _ part, of "pl_set_length len (b_payload ?h)" 0] by auto
  let ?bs = "take len (drop offset (pl_bytes (b_payload b)))"
  have len: "length ?bs = len" using part length_pl_bytes [OF bf(1)] by simp
  have dst: "pl_bytes dst = ?bs" "payload_ok dst"
    using len w(5) unfolding pl_bytes_def payload_ok_def w(6,7)
    by (simp_all add: overwrite_def writable_def)
  have bs: "?bs = take len (drop (payload_start b + offset) dat)"
    using part by (simp add: bf(3) drop_take min_def add.commute)
  let ?f = "?h\<lparr>b_payload := dst\<rparr>" and ?b = "b\<lparr>b_payload := src\<rparr>"
  have "bundle_of dat ?b"
    using b w(2-4) by (auto simp: bundle_of_def fragment_of_def fragment_within_def get_hash_key_def)
  moreover have "fragment_of dat (get_hash_key b) ?f"
    using h dst w(6) bs part bf(2) by (simp add: fragment_of_def fragment_within_def get_hash_key_def)
  moreover have "fill_fragment b offset len ?h = Done (?b, ?f)" by (simp add: fill_fragment_def w(1))
  moreover have "b_recv_blocks ?f = b_recv_blocks new" by (simp add: fragment_header_def copy_metadata_def Let_def)
  ultimately show ?thesis using h w(4,6) by (intro exI [of _ src] exI [of _ ?f]) (simp add: same_primary_def)
qed

definition blocks_size :: "block_info list \<Rightarrow> nat" where
  "blocks_size xs = sum_list (map (\<lambda>x. length (bi_contents x)) xs)"

lemma create_link_fragment_ok:
  assumes b: "bundle_of dat b" and new: "writable (b_payload new)" and off: "offset \<le> frag_size b"
    and room: "blocks_size xs \<le> max_length"
  shows "\<exists>src f. create_link_fragment new b xs offset max_length = Done (Some (b\<lparr>b_payload := src\<rparr>, f, xs)) \<and>
    bundle_of dat (b\<lparr>b_payload := src\<rparr>) \<and> pl_length src = frag_size b \<and>
    fragment_of dat (get_hash_key b) f \<and> frag_size f = min (max_length - blocks_size xs) (frag_size b - offset) \<and>
    frag_start f = payload_start b + offset \<and> same_primary f b \<and> b_bundleid f = b_bundleid new"
proof -
  let ?len = "min (max_length - blocks_size xs) (size_minus (frag_size b) offset)"
  have len: "?len = min (max_length - blocks_size xs) (frag_size b - offset)" using off by (simp add: size_minus_def)
  have "offset + ?len \<le> frag_size b" using off by (simp add: len)
  from fill_fragment_ok [OF b new this]
  show ?thesis
    using room unfolding create_link_fragment_def Let_def blocks_size_def [symmetric] len by auto
qed

lemma chain_append: "chain dat b d (fs @ gs) e \<longleftrightarrow> (\<exists>m. chain dat b d fs m \<and> chain dat b m gs e)"
  by (induction fs arbitrary: d) auto

lemma chain_le: "chain dat b d fs e \<Longrightarrow> d \<le> e \<and> (\<forall>f \<in> set fs. d \<le> frag_start f \<and> frag_start f + frag_size f \<le> e)"
  by (induction fs arbitrary: d) force+

lemma insert_by_offset_end:
  "\<forall>g \<in> set gs. frag_start g \<le> frag_start f \<Longrightarrow> insert_by_offset f gs = gs @ [f]"
  by (induction gs) (auto simp: word_less_nat_alt)

lemma same_bundle_payload [simp]:
  "get_hash_key (b\<lparr>b_payload := p\<rparr>) = get_hash_key b" "payload_start (b\<lparr>b_payload := p\<rparr>) = payload_start b"
  "same_primary f (b\<lparr>b_payload := p\<rparr>) = same_primary f b"
  by (simp_all add: get_hash_key_def payload_start_def same_primary_def)

text \<open>The state of the loop: the fragments made so far lie one behind the other.\<close>

definition fragmenting ::
    "byte list \<Rightarrow> dtn_bundle \<Rightarrow> (nat \<Rightarrow> dtn_bundle) \<Rightarrow> nat \<Rightarrow> fragment_state \<Rightarrow> (dtn_bundle \<times> block_info list) list \<Rightarrow> bool" where
  "fragmenting dat b new offset s made \<longleftrightarrow>
     (\<exists>p. fs_bundle s = b\<lparr>b_payload := p\<rparr> \<and> pl_length p = frag_size b) \<and> bundle_of dat (fs_bundle s) \<and> offset \<le> frag_size b \<and>
     fs_fragments s = map fst made \<and> map (\<lambda>m. b_bundleid (fst m)) made = map (\<lambda>i. b_bundleid (new i)) [0..<length made] \<and>
     chain dat b (payload_start b) (map fst made) (payload_start b + offset)"

text \<open>A fragment for the link with its blocks.\<close>

definition fits :: "nat \<Rightarrow> block_info list \<Rightarrow> dtn_bundle \<times> block_info list \<Rightarrow> bool" where
  "fits max_length xs m \<longleftrightarrow> snd m = xs \<and> frag_size (fst m) + blocks_size xs \<le> max_length"

lemma fragment_loop_step:
  assumes inv: "fragmenting dat b new offset s made" and new: "writable (b_payload (new (length made)))"
    and room: "blocks_size this \<le> max_length"
    and ids: "b_bundleid (new (length made)) \<notin> (\<lambda>i. b_bundleid (new i)) ` {..<length made}"
  shows "\<exists>s' f. fragmenting dat b new (offset + frag_size f) s' (made @ [(f, this)]) \<and> fits max_length this (f, this) \<and>
    frag_size f = min (max_length - blocks_size this) (frag_size b - offset) \<and>
    fragment_loop new max_length this others (frag_size b - offset) offset s made =
      (if frag_size b - (offset + frag_size f) > 0
       then fragment_loop new max_length others others (frag_size b - (offset + frag_size f)) (offset + frag_size f) s' (made @ [(f, this)])
       else Some (Done (s', made @ [(f, this)])))"
proof -
  obtain p where p: "fs_bundle s = b\<lparr>b_payload := p\<rparr>" "pl_length p = frag_size b" using inv unfolding fragmenting_def by blast
  let ?b = "b\<lparr>b_payload := p\<rparr>"
  have b: "bundle_of dat ?b" and off: "offset \<le> frag_size ?b" using inv p by (auto simp: fragmenting_def)
  obtain src f where f: "create_link_fragment (new (length made)) ?b this offset max_length = Done (Some (?b\<lparr>b_payload := src\<rparr>, f, this))"
      "bundle_of dat (?b\<lparr>b_payload := src\<rparr>)" "pl_length src = frag_size ?b" "fragment_of dat (get_hash_key ?b) f"
      "frag_size f = min (max_length - blocks_size this) (frag_size ?b - offset)" "frag_start f = payload_start ?b + offset"
      "same_primary f ?b" "b_bundleid f = b_bundleid (new (length made))"
    using create_link_fragment_ok [OF b new off room] by blast
  let ?s = "add_fragment f (s\<lparr>fs_bundle := ?b\<lparr>b_payload := src\<rparr>\<rparr>)"
  have idset: "b_bundleid ` set (map fst made) = (\<lambda>i. b_bundleid (new i)) ` {..<length made}"
  proof -
    have "b_bundleid ` set (map fst made) = set (map (\<lambda>m. b_bundleid (fst m)) made)" by auto
    also have "\<dots> = set (map (\<lambda>i. b_bundleid (new i)) [0..<length made])" using inv by (simp only: fragmenting_def)
    finally show ?thesis by auto
  qed
  have "b_bundleid f \<notin> b_bundleid ` set (map fst made)" unfolding idset f(8) by (rule ids)
  then have "\<not> on_list f (map fst made)" by (simp only: on_list_def set_map not_False_eq_True)
  moreover have "\<forall>g \<in> set (map fst made). frag_start g \<le> frag_start f"
    using inv chain_le [of dat b "payload_start b" "map fst made" "payload_start b + offset"] f(6)
    by (fastforce simp: fragmenting_def)
  ultimately have frs: "fs_fragments ?s = map fst made @ [f]"
    using inv by (simp add: fragmenting_def add_fragment_def insert_sorted_def insert_by_offset_end)
  have bun: "fs_bundle ?s = b\<lparr>b_payload := src\<rparr>" by (simp add: add_fragment_def)
  have size: "frag_size f \<le> frag_size b - offset" "frag_size f \<le> max_length - blocks_size this" using f(5) p by simp_all
  have "fragmenting dat b new (offset + frag_size f) ?s (made @ [(f, this)])"
    unfolding fragmenting_def bun frs
  proof (intro conjI)
    show "\<exists>q. b\<lparr>b_payload := src\<rparr> = b\<lparr>b_payload := q\<rparr> \<and> pl_length q = frag_size b" using f(3) p(2) by auto
    show "bundle_of dat (b\<lparr>b_payload := src\<rparr>)" using f(2) by simp
    show "offset + frag_size f \<le> frag_size b" using size(1) off p by simp
    show "map (\<lambda>m. b_bundleid (fst m)) (made @ [(f, this)]) =
        map (\<lambda>i. b_bundleid (new i)) [0..<length (made @ [(f, this)])]"
      using inv f(8) by (simp add: fragmenting_def)
    show "chain dat b (payload_start b) (map fst (made @ [(f, this)])) (payload_start b + (offset + frag_size f))"
      using inv f(4,6,7) unfolding fragmenting_def map_append chain_append
      by (intro exI [of _ "payload_start b + offset"]) simp
  qed simp
  moreover have "fits max_length this (f, this)" using size(2) room by (simp add: fits_def)
  moreover have "fragment_loop new max_length this others (frag_size b - offset) offset s made =
      (if frag_size b - (offset + frag_size f) > 0
       then fragment_loop new max_length others others (frag_size b - (offset + frag_size f)) (offset + frag_size f) ?s (made @ [(f, this)])
       else Some (Done (?s, made @ [(f, this)])))"
    using size(1) off p by (subst fragment_loop.simps) (simp add: p(1) f(1) size_minus_def Let_def)
  ultimately show ?thesis using f(5) p by (intro exI [of _ ?s] exI [of _ f]) simp
qed

lemma fragment_loop_ends:
  assumes "fragmenting dat b new offset s made" and "offset < frag_size b"
    and "\<forall>i. writable (b_payload (new i))" and "blocks_size others < max_length"
    and "inj_on (\<lambda>i. b_bundleid (new i)) {..length made + (frag_size b - offset)}"
  shows "\<exists>s' rest. fragment_loop new max_length others others (frag_size b - offset) offset s made = Some (Done (s', made @ rest)) \<and>
    fragmenting dat b new (frag_size b) s' (made @ rest) \<and> (\<forall>m \<in> set rest. fits max_length others m \<and> frag_size (fst m) > 0) \<and>
    length rest \<le> frag_size b - offset"
  using assms
proof (induction "frag_size b - offset" arbitrary: offset s made rule: less_induct)
  case less
  have "b_bundleid (new (length made)) \<notin> (\<lambda>i. b_bundleid (new i)) ` {..<length made}"
    using less.prems(5) by (auto dest: inj_onD)
  from fragment_loop_step [OF less.prems(1) _ _ this, of others max_length others] less.prems(3,4)
  obtain s1 f where f: "fragmenting dat b new (offset + frag_size f) s1 (made @ [(f, others)])" "fits max_length others (f, others)"
      "frag_size f = min (max_length - blocks_size others) (frag_size b - offset)"
      "fragment_loop new max_length others others (frag_size b - offset) offset s made =
      (if frag_size b - (offset + frag_size f) > 0
       then fragment_loop new max_length others others (frag_size b - (offset + frag_size f)) (offset + frag_size f) s1 (made @ [(f, others)])
       else Some (Done (s1, made @ [(f, others)])))" by auto
  have pos: "frag_size f > 0" "offset + frag_size f \<le> frag_size b" using f(3) less.prems(2,4) by simp_all
  show ?case
  proof (cases "offset + frag_size f < frag_size b")
    case True
    have "inj_on (\<lambda>i. b_bundleid (new i)) {..length (made @ [(f, others)]) + (frag_size b - (offset + frag_size f))}"
      by (rule inj_on_subset [OF less.prems(5)]) (use pos in auto)
    moreover have "frag_size b - (offset + frag_size f) < frag_size b - offset" using pos(1) less.prems(2) by simp
    ultimately obtain s' rest where r: "fragment_loop new max_length others others (frag_size b - (offset + frag_size f)) (offset + frag_size f) s1
          (made @ [(f, others)]) = Some (Done (s', (made @ [(f, others)]) @ rest))"
        "fragmenting dat b new (frag_size b) s' ((made @ [(f, others)]) @ rest)"
        "\<forall>m \<in> set rest. fits max_length others m \<and> frag_size (fst m) > 0"
        "length rest \<le> frag_size b - (offset + frag_size f)"
      using less.hyps [OF _ f(1) True less.prems(3,4)] by blast
    show ?thesis
      using r f(2,4) pos True by (intro exI [of _ s'] exI [of _ "(f, others) # rest"]) simp
  next
    case False
    then have "offset + frag_size f = frag_size b" using pos by simp
    then show ?thesis using f pos by (intro exI [of _ s1] exI [of _ "[(f, others)]"]) simp
  qed
qed

lemma chain_bytes:
  assumes "chain dat b d fs e" and "e \<le> length dat"
  shows "concat (map (\<lambda>f. pl_bytes (b_payload f)) fs) = take (e - d) (drop d dat)"
  using assms
proof (induction fs arbitrary: d)
  case (Cons f fs)
  let ?n = "frag_size f"
  have e: "d + ?n \<le> e" using Cons.prems(1) chain_le by auto
  have "pl_bytes (b_payload f) = take ?n (drop d dat)" using Cons.prems(1) by (auto simp: fragment_of_def)
  moreover have "concat (map (\<lambda>f. pl_bytes (b_payload f)) fs) = take (e - (d + ?n)) (drop (d + ?n) dat)"
    using Cons by simp
  moreover have "take (e - d) (drop d dat) = take ?n (drop d dat) @ take (e - (d + ?n)) (drop (d + ?n) dat)"
    using e take_add [of ?n "e - (d + ?n)" "drop d dat"] by (simp add: add.commute)
  ultimately show ?case by simp
qed simp

lemma chain_key: "chain dat b d fs e \<Longrightarrow> f \<in> set fs \<Longrightarrow> get_hash_key f = get_hash_key b"
  by (induction fs arbitrary: d) (auto simp: fragment_of_def)

lemma fragmenting_done:
  assumes b: "bundle_of dat b" and "fragmenting dat b new (frag_size b) s made"
    and ids: "inj_on (\<lambda>i. b_bundleid (new i)) {..Suc (frag_size b)}" and len: "length made \<le> Suc (frag_size b)"
  shows "chain dat b (payload_start b) (map fst made) (payload_start b + frag_size b)"
    and "concat (map (\<lambda>m. pl_bytes (b_payload (fst m))) made) = pl_bytes (b_payload b)"
    and "distinct (map (\<lambda>m. b_bundleid (fst m)) made)" and "fs_fragments s = map fst made"
proof -
  have ch: "chain dat b (payload_start b) (map fst made) (payload_start b + frag_size b)"
    using assms(2) by (simp only: fragmenting_def)
  obtain p where p: "fs_bundle s = b\<lparr>b_payload := p\<rparr>" "pl_length p = frag_size b" "bundle_of dat (b\<lparr>b_payload := p\<rparr>)"
    using assms(2) unfolding fragmenting_def by auto
  have le: "payload_start b + frag_size b \<le> length dat" using bundle_of_facts(2) [OF p(3)] p(2) by simp
  show "chain dat b (payload_start b) (map fst made) (payload_start b + frag_size b)" by (rule ch)
  show "concat (map (\<lambda>m. pl_bytes (b_payload (fst m))) made) = pl_bytes (b_payload b)"
    using chain_bytes [OF ch le] bundle_of_facts(3) [OF b] by (simp add: comp_def)
  have "map (\<lambda>m. b_bundleid (fst m)) made = map (\<lambda>i. b_bundleid (new i)) [0..<length made]"
    using assms(2) by (simp only: fragmenting_def)
  moreover have "inj_on (\<lambda>i. b_bundleid (new i)) {0..<length made}"
    by (rule inj_on_subset [OF ids]) (use len in auto)
  ultimately show "distinct (map (\<lambda>m. b_bundleid (fst m)) made)" by (simp only: distinct_map) simp
  show "fs_fragments s = map fst made" using assms(2) by (simp only: fragmenting_def)
qed

lemma proactively_fragment_made:
  assumes b: "bundle_of dat b" and blocks: "split_blocks blocks = Done (first, others)"
    and room: "blocks_size first \<le> max_length" "blocks_size others < max_length"
    and new: "\<forall>i. writable (b_payload (new i))" and ids: "inj_on (\<lambda>i. b_bundleid (new i)) {..Suc (frag_size b)}"
  shows "\<exists>s m ms. proactively_fragment new max_length b blocks t = Some (Done (t(get_hash_key b \<mapsto> s), s, m # ms)) \<and>
    fragmenting dat b new (frag_size b) s (m # ms) \<and> length ms \<le> frag_size b \<and>
    fits max_length first m \<and> frag_size (fst m) = min (max_length - blocks_size first) (frag_size b) \<and>
    (\<forall>m \<in> set ms. fits max_length others m \<and> frag_size (fst m) > 0)"
proof -
  have start: "fragmenting dat b new 0 \<lparr>fs_bundle = b, fs_fragments = []\<rparr> []"
    using b by (auto simp: fragmenting_def intro: exI [of _ "b_payload b"])
  have "\<exists>s m ms. fragment_loop new max_length first others (frag_size b) 0 \<lparr>fs_bundle = b, fs_fragments = []\<rparr> [] =
      Some (Done (s, m # ms)) \<and> fragmenting dat b new (frag_size b) s (m # ms) \<and> fits max_length first m \<and>
      frag_size (fst m) = min (max_length - blocks_size first) (frag_size b) \<and>
      (\<forall>m \<in> set ms. fits max_length others m \<and> frag_size (fst m) > 0) \<and> length ms \<le> frag_size b"
  proof -
    have "writable (b_payload (new (length ([] :: (dtn_bundle \<times> block_info list) list))))" using new by blast
    moreover have "b_bundleid (new (length ([] :: (dtn_bundle \<times> block_info list) list))) \<notin>
        (\<lambda>i. b_bundleid (new i)) ` {..<length ([] :: (dtn_bundle \<times> block_info list) list)}" by simp
    ultimately obtain s1 f where f: "fragmenting dat b new (frag_size f) s1 [(f, first)]" "fits max_length first (f, first)"
        "frag_size f = min (max_length - blocks_size first) (frag_size b)"
        "fragment_loop new max_length first others (frag_size b) 0 \<lparr>fs_bundle = b, fs_fragments = []\<rparr> [] =
        (if frag_size b - frag_size f > 0
         then fragment_loop new max_length others others (frag_size b - frag_size f) (frag_size f) s1 [(f, first)]
         else Some (Done (s1, [(f, first)])))"
      using fragment_loop_step [OF start _ room(1), of others]
      unfolding add_0 diff_zero append_Nil by blast
    show ?thesis
    proof (cases "frag_size f < frag_size b")
      case True
      have "inj_on (\<lambda>i. b_bundleid (new i)) {..length [(f, first)] + (frag_size b - frag_size f)}"
        by (rule inj_on_subset [OF ids]) auto
      from fragment_loop_ends [OF f(1) True new room(2) this]
      show ?thesis using f(2-4) True by fastforce
    next
      case False
      then have "frag_size f = frag_size b" using f(3) by simp
      then show ?thesis using f by (intro exI [of _ s1] exI [of _ "(f, first)"] exI [of _ "[]"]) simp
    qed
  qed
  then obtain s m ms where r: "fragment_loop new max_length first others (frag_size b) 0 \<lparr>fs_bundle = b, fs_fragments = []\<rparr> [] =
      Some (Done (s, m # ms))" "fragmenting dat b new (frag_size b) s (m # ms)" "fits max_length first m" "frag_size (fst m) = min (max_length - blocks_size first) (frag_size b)"
      "\<forall>m \<in> set ms. fits max_length others m \<and> frag_size (fst m) > 0" "length ms \<le> frag_size b" by blast
  have len: "length (m # ms) \<le> Suc (frag_size b)" using r(6) by simp
  note d = fragmenting_done [OF b r(2) ids len]
  have "get_hash_key (fst (last (m # ms))) = get_hash_key b"
    using d(1) by (intro chain_key [of dat b "payload_start b" "map fst (m # ms)"]) auto
  then have "proactively_fragment new max_length b blocks t = Some (Done (t(get_hash_key b \<mapsto> s), s, m # ms))"
    by (simp add: proactively_fragment_def blocks r(1))
  then show ?thesis using r(2-6) by blast
qed

text \<open>
  C25. Proactive fragmentation ends when the blocks of the first fragment fit into the limit
  and those of the others leave room for payload. No assertion fails, every fragment with
  its blocks obeys the limit, the fragments lie one behind the other and together are the
  payload of the bundle, which may itself be a fragment, and they carry its primary fields;
  the state that is stored under the key of the bundle lists exactly these fragments.
\<close>

theorem proactive_fragments:
  assumes b: "bundle_of dat b" and blocks: "split_blocks blocks = Done (first, others)"
    and room: "blocks_size first \<le> max_length" "blocks_size others < max_length"
    and new: "\<forall>i. writable (b_payload (new i))" and ids: "inj_on (\<lambda>i. b_bundleid (new i)) {..Suc (frag_size b)}"
  shows "\<exists>s m ms. proactively_fragment new max_length b blocks t = Some (Done (t(get_hash_key b \<mapsto> s), s, m # ms)) \<and>
    chain dat b (payload_start b) (map fst (m # ms)) (payload_start b + frag_size b) \<and>
    concat (map (\<lambda>m. pl_bytes (b_payload (fst m))) (m # ms)) = pl_bytes (b_payload b) \<and>
    fits max_length first m \<and> (\<forall>m \<in> set ms. fits max_length others m \<and> frag_size (fst m) > 0) \<and>
    distinct (map (\<lambda>m. b_bundleid (fst m)) (m # ms)) \<and> fs_fragments s = map fst (m # ms)"
proof -
  from proactively_fragment_made [OF assms, of t]
  obtain s m ms where r: "proactively_fragment new max_length b blocks t = Some (Done (t(get_hash_key b \<mapsto> s), s, m # ms))"
      "fragmenting dat b new (frag_size b) s (m # ms)" "length ms \<le> frag_size b" "fits max_length first m"
      "\<forall>m \<in> set ms. fits max_length others m \<and> frag_size (fst m) > 0" by blast
  have len: "length (m # ms) \<le> Suc (frag_size b)" using r(3) by simp
  show ?thesis using r fragmenting_done [OF b r(2) ids len] by blast
qed

section \<open>Fragments arrive in any order\<close>

text \<open>What a receiver makes of a fragment: its own bundle object with the same fields and payload.\<close>

definition arrives_as :: "dtn_bundle \<Rightarrow> dtn_bundle \<Rightarrow> bool" where
  "arrives_as f g \<longleftrightarrow> b_is_fragment g \<and> same_primary g f \<and> b_frag_offset g = b_frag_offset f \<and>
     b_orig_length g = b_orig_length f \<and> payload_ok (b_payload g) \<and> pl_bytes (b_payload g) = pl_bytes (b_payload f)"

lemma arrives_fragment:
  assumes "arrives_as f g" and "fragment_of dat k f"
  shows "fragment_of dat k g" and "in_fragment i g = in_fragment i f" and "frag_size g = frag_size f"
proof -
  show size: "frag_size g = frag_size f"
    using assms length_pl_bytes [of "b_payload g"] length_pl_bytes [of "b_payload f"] by (simp add: arrives_as_def fragment_of_def)
  then show "in_fragment i g = in_fragment i f" using assms(1) by (simp add: in_fragment_def arrives_as_def)
  have "get_hash_key g = get_hash_key f" using assms(1) by (simp add: arrives_as_def get_hash_key_def same_primary_def)
  then show "fragment_of dat k g"
    using assms size by (simp add: fragment_of_def fragment_within_def arrives_as_def)
qed

text \<open>In a chain every octet lies in exactly one fragment.\<close>

lemma chain_once:
  "chain dat b d fs e \<Longrightarrow> length (filter (in_fragment i) fs) = (if d \<le> i \<and> i < e then 1 else 0)"
proof (induction fs arbitrary: d)
  case (Cons f fs)
  have "d + frag_size f \<le> e" using Cons.prems chain_le by auto
  moreover have "in_fragment i f \<longleftrightarrow> d \<le> i \<and> i < d + frag_size f" using Cons.prems by (auto simp: in_fragment_def)
  moreover have "length (filter (in_fragment i) fs) = (if d + frag_size f \<le> i \<and> i < e then 1 else 0)"
    using Cons by simp
  ultimately show ?case by (auto split: if_splits)
qed simp

lemma arrives_count:
  "list_all2 arrives_as sent fs \<Longrightarrow> \<forall>f \<in> set sent. fragment_of dat k f \<Longrightarrow>
   length (filter (in_fragment i) fs) = length (filter (in_fragment i) sent) \<and> (\<forall>g \<in> set fs. fragment_of dat k g) \<and>
   (\<forall>g \<in> set fs. \<exists>f \<in> set sent. frag_size g = frag_size f \<and> same_primary g f)"
proof (induction rule: list_all2_induct)
  case (Cons f fs g gs)
  have "fragment_of dat k f" using Cons.prems by simp
  note a = arrives_fragment [OF Cons.hyps(1) this]
  then show ?case using Cons by (auto simp: arrives_as_def)
qed simp

lemma covers_count: "covers n fs \<longleftrightarrow> (\<forall>i < n. length (filter (in_fragment i) fs) > 0)"
  by (simp add: covers_def list_ex_iff filter_empty_conv)

lemma last_completes:
  assumes count: "\<And>i. length (filter (in_fragment i) fs) = (if i < n then 1 else 0)"
    and ne: "fs \<noteq> []" and last: "frag_size (last fs) > 0"
  shows "covers n fs" and "\<not> covers n (butlast fs)"
proof -
  show "covers n fs" by (simp add: covers_count count)
  let ?i = "frag_start (last fs)"
  have inl: "in_fragment ?i (last fs)" using last by (simp add: in_fragment_def)
  have split: "length (filter (in_fragment ?i) fs) = length (filter (in_fragment ?i) (butlast fs)) + 1"
    using inl by (subst append_butlast_last_id [OF ne, symmetric]) (simp del: append_butlast_last_id)
  have "?i < n" using split count [of ?i] by (simp split: if_splits)
  moreover have "length (filter (in_fragment ?i) (butlast fs)) = 0" using split count [of ?i] by (simp split: if_splits)
  ultimately show "\<not> covers n (butlast fs)" by (auto simp: covers_count)
qed

lemma chain_fragments: "chain dat b d fs e \<Longrightarrow> \<forall>f \<in> set fs. fragment_of dat (get_hash_key b) f \<and> same_primary f b"
  by (induction fs arbitrary: d) auto

lemma same_primary_trans: "same_primary f g \<Longrightarrow> same_primary g h \<Longrightarrow> same_primary f h"
  by (simp add: same_primary_def)


section \<open>Limits without room\<close>

text \<open>When a fragment has no room for payload, the loop makes no progress.\<close>

lemma add_fragment_bundle [simp]: "fs_bundle (add_fragment f s) = fs_bundle s"
  by (simp add: add_fragment_def)

lemma fragment_loop_diverges:
  assumes "fragment_loop new max_length this others todo offset s made = Some r"
  shows "this = others \<longrightarrow> bundle_of dat (fs_bundle s) \<longrightarrow> (\<forall>i. writable (b_payload (new i))) \<longrightarrow>
    blocks_size others = max_length \<longrightarrow> offset \<le> frag_size (fs_bundle s) \<longrightarrow> todo = 0"
proof (rule fragment_loop.raw_induct [OF _ assms], intro impI)
  fix loop new max_length this others todo offset s made r
  assume ih: "\<And>new max_length this others todo offset s made r. loop new max_length this others todo offset s made = Some r \<Longrightarrow>
      this = others \<longrightarrow> bundle_of dat (fs_bundle s) \<longrightarrow> (\<forall>i. writable (b_payload (new i))) \<longrightarrow>
      blocks_size others = max_length \<longrightarrow> offset \<le> frag_size (fs_bundle s) \<longrightarrow> todo = 0"
    and run: "(case create_link_fragment (new (length made)) (fs_bundle s) this offset max_length of
        Done None \<Rightarrow> Some Panic
      | Done (Some bfx) \<Rightarrow>
          let f = fst (snd bfx); state' = add_fragment f (s\<lparr>fs_bundle := fst bfx\<rparr>); n = frag_size f; made' = made @ [snd bfx]
          in if 0 < size_minus todo n then loop new max_length others others (size_minus todo n) (offset + n) state' made'
             else Some (Done (state', made'))
      | Panic \<Rightarrow> Some Panic) = Some r"
    and pre: "this = others" "bundle_of dat (fs_bundle s)" "\<forall>i. writable (b_payload (new i))" "blocks_size others = max_length"
      "offset \<le> frag_size (fs_bundle s)"
  from create_link_fragment_ok [OF pre(2) _ pre(5), of "new (length made)" others max_length] pre(3,4)
  obtain src f where f: "create_link_fragment (new (length made)) (fs_bundle s) others offset max_length =
        Done (Some (fs_bundle s\<lparr>b_payload := src\<rparr>, f, others))"
      "bundle_of dat (fs_bundle s\<lparr>b_payload := src\<rparr>)" "pl_length src = frag_size (fs_bundle s)" "frag_size f = 0" by auto
  show "todo = 0"
  proof (rule ccontr)
    assume "todo \<noteq> 0"
    then have "loop new max_length others others todo offset (add_fragment f (s\<lparr>fs_bundle := fs_bundle s\<lparr>b_payload := src\<rparr>\<rparr>))
        (made @ [(f, others)]) = Some r"
      using run f(1,4) pre(1) by (simp add: Let_def size_minus_def)
    from ih [OF this] show False using f(2,3) pre(3-5) \<open>todo \<noteq> 0\<close> by simp
  qed
qed

text \<open>
  C26. A limit without room for payload: when payload is left after the first fragment and
  the blocks of the further fragments fill the limit exactly, the loop of proactive
  fragmentation never ends; when they exceed it, an assertion fails.
\<close>

theorem fragmentation_without_room:
  assumes b: "bundle_of dat b" and blocks: "split_blocks blocks = Done (first, others)"
    and room: "blocks_size first \<le> max_length" "max_length - blocks_size first < frag_size b" "max_length \<le> blocks_size others"
    and new: "\<forall>i. writable (b_payload (new i))"
  shows "proactively_fragment new max_length b blocks t = (if blocks_size others = max_length then None else Some Panic)"
proof -
  let ?s = "\<lparr>fs_bundle = b, fs_fragments = []\<rparr>"
  from create_link_fragment_ok [OF b _ _ room(1), of "new 0" 0] new
  obtain src f where f: "create_link_fragment (new 0) b first 0 max_length = Done (Some (b\<lparr>b_payload := src\<rparr>, f, first))"
      "bundle_of dat (b\<lparr>b_payload := src\<rparr>)" "pl_length src = frag_size b" "frag_size f = max_length - blocks_size first"
    using room(2) by auto
  let ?s1 = "add_fragment f (?s\<lparr>fs_bundle := b\<lparr>b_payload := src\<rparr>\<rparr>)"
  have step: "fragment_loop new max_length first others (frag_size b) 0 ?s [] =
      fragment_loop new max_length others others (frag_size b - frag_size f) (frag_size f) ?s1 [(f, first)]"
    using f(1,4) room(2) by (subst fragment_loop.simps) (simp add: Let_def size_minus_def)
  have "fragment_loop new max_length others others (frag_size b - frag_size f) (frag_size f) ?s1 [(f, first)] =
      (if blocks_size others = max_length then None else Some Panic)"
  proof (cases "blocks_size others = max_length")
    case True
    have "fragment_loop new max_length others others (frag_size b - frag_size f) (frag_size f) ?s1 [(f, first)] \<noteq> Some r" for r
    proof
      assume "fragment_loop new max_length others others (frag_size b - frag_size f) (frag_size f) ?s1 [(f, first)] = Some r"
      from fragment_loop_diverges [OF this, of dat] show False
        using f(2-4) new True room(2) by simp
    qed
    then show ?thesis using True by (cases "fragment_loop new max_length others others (frag_size b - frag_size f) (frag_size f) ?s1 [(f, first)]") auto
  next
    case False
    then have "create_link_fragment (new 1) (b\<lparr>b_payload := src\<rparr>) others (frag_size f) max_length = Done None"
      using room(3) by (simp add: create_link_fragment_def blocks_size_def Let_def)
    then show ?thesis using False by (subst fragment_loop.simps) simp
  qed
  then show ?thesis by (simp add: proactively_fragment_def blocks step)
qed

text \<open>
  How the blocks are shared out: a block that must be replicated in every fragment goes into
  all fragments but the first.
\<close>

definition replicated :: "block_info \<Rightarrow> bool" where
  "replicated x \<longleftrightarrow> (case bi_flags x of Done flags \<Rightarrow> flags AND BLOCK_FLAG_REPLICATE \<noteq> 0 | Panic \<Rightarrow> False)"

lemma split_blocks_filters:
  "split_blocks blocks = Done (first, others) \<Longrightarrow>
   first = filter (\<lambda>x. bi_type x = Done 0 \<or> bi_type x = Done 1 \<or> \<not> replicated x) blocks \<and>
   others = filter (\<lambda>x. bi_type x = Done 0 \<or> bi_type x = Done 1 \<or> replicated x) blocks"
proof (induction blocks arbitrary: first others)
  case (Cons x xs)
  then show ?case
    by (cases "bi_type x"; cases "bi_flags x"; cases "split_blocks xs") (auto simp: replicated_def split: if_splits)
qed simp

section \<open>Witnesses\<close>

definition fresh_objects :: "nat \<Rightarrow> dtn_bundle" where
  "fresh_objects i = new_bundle 100 (of_nat (20 + i)) (payload_init False DISK [])"

definition example_blocks :: "block_info list" where
  "example_blocks = [(new_block PrimaryBP)\<lparr>bi_contents := [6, 0]\<rparr>, (new_block PayloadBP)\<lparr>bi_contents := [1, 8, 3]\<rparr>]"

lemma example_blocks_split: "split_blocks example_blocks = Done (example_blocks, example_blocks)" "blocks_size example_blocks = 5"
  by (simp_all add: example_blocks_def blocks_size_def bi_type_def new_block_def)

lemma example_of: "bundle_of [1, 2, 3] example_bundle" "frag_size example_bundle = 3" "\<not> b_is_fragment example_bundle"
  using example_payload_ok
  by (simp_all add: bundle_of_def example_bundle_def new_bundle_def Let_def)

lemma fresh_writable: "writable (b_payload (fresh_objects i))"
  by (simp add: fresh_objects_def new_bundle_def Let_def writable_def payload_init_def)

lemma fresh_inj: "inj_on (\<lambda>i. b_bundleid (fresh_objects i)) {..Suc (frag_size example_bundle)}"
proof -
  have "{..Suc (frag_size example_bundle)} = {0, 1, 2, 3, 4}" by (auto simp: example_of)
  then show ?thesis by (simp add: fresh_objects_def new_bundle_def Let_def)
qed

theorem proactive_fragments_witness:
  "\<exists>s m ms. proactively_fragment fresh_objects 7 example_bundle example_blocks Map.empty =
      Some (Done ([get_hash_key example_bundle \<mapsto> s], s, m # ms)) \<and>
    concat (map (\<lambda>m. pl_bytes (b_payload (fst m))) (m # ms)) = [1, 2, 3]"
proof -
  have "blocks_size example_blocks \<le> 7" "blocks_size example_blocks < 7" by (simp_all add: example_blocks_split)
  moreover have "\<forall>i. writable (b_payload (fresh_objects i))" using fresh_writable by blast
  moreover have "pl_bytes (b_payload example_bundle) = [1, 2, 3]" by (simp add: example_payload_bundle example_payload_ok)
  ultimately show ?thesis
    using proactive_fragments [OF example_of(1) example_blocks_split(1) _ _ _ fresh_inj, of 7 Map.empty]
    by (simp only:) blast
qed

lemma arrives_self: "fragment_of dat k f \<Longrightarrow> arrives_as f f"
  by (simp add: arrives_as_def fragment_of_def fragment_within_def same_primary_def)


theorem fragmentation_without_room_witness:
  "proactively_fragment fresh_objects 5 example_bundle example_blocks Map.empty = None"
proof -
  have "blocks_size example_blocks \<le> 5" "5 - blocks_size example_blocks < frag_size example_bundle" "5 \<le> blocks_size example_blocks"
    by (simp_all add: example_blocks_split example_of)
  from fragmentation_without_room [OF example_of(1) example_blocks_split(1) this] fresh_writable
  show ?thesis by (simp add: example_blocks_split)
qed

end
