(* ===== verification/Sparse_Bitmap.thy ===== *)
theory Sparse_Bitmap
  imports Dtn_Prelude
begin

text \<open>
  \<open>SparseBitmap\<close> of \<open>oasys-1.4.0/util\<close> (\<open>SparseBitmap.h\<close>, \<open>SparseBitmap.tcc\<close>), at the
  instance \<open>u_int32_t\<close> that the convergence layers use as \<open>DataBitmap\<close>: a set of numbers kept as
  a vector of ranges. Arithmetic wraps around at 32 bits. \<open>validate\<close> is compiled in.
\<close>

section \<open>Ranges\<close>

record bm_range =
  r_start :: u32
  r_end :: u32

type_synonym bitmap = "bm_range list"

section \<open>Setting a range\<close>

text \<open>
  The first loop of \<open>set\<close>: the ranges passed, the nearest first, the range that now holds the
  new numbers, and the ranges behind it; \<open>None\<close> when there is nothing to do.
\<close>

fun bm_find :: "u32 \<Rightarrow> u32 \<Rightarrow> bitmap \<Rightarrow> bitmap \<Rightarrow> (bitmap \<times> bm_range \<times> bitmap) option" where
  "bm_find s e left [] = Some (left, \<lparr>r_start = s, r_end = e\<rparr>, [])"
| "bm_find s e left (i # rest) =
     (if s \<ge> r_start i \<and> s \<le> r_end i + 1
      then if e \<le> r_end i then None else Some (left, i\<lparr>r_end := e\<rparr>, rest)
      else if e \<ge> r_start i - 1 \<and> e \<le> r_end i
      then if s \<ge> r_start i then None else Some (left, i\<lparr>r_start := s\<rparr>, rest)
      else if e < r_start i then Some (left, \<lparr>r_start = s, r_end = e\<rparr>, i # rest)
      else bm_find s e (i # left) rest)"

declare bm_find.simps [simp del]

text \<open>The two loops that remove the entries covered by the new one.\<close>

fun absorb_right :: "bm_range \<Rightarrow> bitmap \<Rightarrow> bm_range \<times> bitmap" where
  "absorb_right i [] = (i, [])"
| "absorb_right i (j # rest) =
     (if r_end i \<ge> r_start j - 1
      then absorb_right (if r_end i < r_end j then i\<lparr>r_end := r_end j\<rparr> else i) rest
      else (i, j # rest))"

fun absorb_left :: "bitmap \<Rightarrow> bm_range \<Rightarrow> bitmap \<times> bm_range" where
  "absorb_left [] i = ([], i)"
| "absorb_left (j # left) i =
     (if r_end j \<ge> r_start i - 1
      then absorb_left left
        (let i1 = (if r_start i > r_start j then i\<lparr>r_start := r_start j\<rparr> else i)
         in if r_end i1 < r_end j then i1\<lparr>r_end := r_end j\<rparr> else i1)
      else (j # left, i))"

fun validate_ranges :: "bm_range \<Rightarrow> bitmap \<Rightarrow> bool" where
  "validate_ranges i [] \<longleftrightarrow> True"
| "validate_ranges i (j # rest) \<longleftrightarrow> r_start j \<le> r_end j \<and> r_end i < r_start j \<and> validate_ranges j rest"

definition bm_validate :: "bitmap \<Rightarrow> bool outcome" where
  "bm_validate b = (case b of [] \<Rightarrow> Panic | i # rest \<Rightarrow> assert_that (r_start i \<le> r_end i \<and> validate_ranges i rest) (Done True))"

definition bm_set :: "u32 \<Rightarrow> u32 \<Rightarrow> bitmap \<Rightarrow> bitmap outcome" where
  "bm_set s len b =
     assert_that (len \<noteq> 0)
      (case bm_find s (s + len - 1) [] b of
         None \<Rightarrow> Done b
       | Some (left, i, rest) \<Rightarrow>
           (case absorb_right i rest of (i1, rest') \<Rightarrow>
            case absorb_left left i1 of (left', i2) \<Rightarrow>
              let b' = rev left' @ i2 # rest' in bind_outcome (bm_validate b') (\<lambda>_. Done b')))"

section \<open>Clearing a range\<close>

text \<open>
  The loop of \<open>clear\<close>. After a split the inserted entry is looked at next. The code writes
  through an iterator that the insertion may have invalidated; here it stays valid. For the
  length zero the loop can insert entries for ever.
\<close>

partial_function (option) bm_clear_loop :: "u32 \<Rightarrow> u32 \<Rightarrow> bitmap \<Rightarrow> bitmap \<Rightarrow> bitmap option" where
  "bm_clear_loop s e passed rest =
     (if rest = [] then Some (rev passed)
      else if s \<le> r_start (hd rest) \<and> e \<ge> r_end (hd rest) then bm_clear_loop s e passed (tl rest)
      else if s \<le> r_start (hd rest) \<and> e < r_end (hd rest) \<and> e \<ge> r_start (hd rest)
      then bm_clear_loop s e ((hd rest)\<lparr>r_start := e + 1\<rparr> # passed) (tl rest)
      else if s > r_start (hd rest) \<and> s \<le> r_end (hd rest)
      then if e \<ge> r_end (hd rest) then bm_clear_loop s e ((hd rest)\<lparr>r_end := s - 1\<rparr> # passed) (tl rest)
           else bm_clear_loop s e ((hd rest)\<lparr>r_end := s\<rparr> # passed) (\<lparr>r_start = e, r_end = r_end (hd rest)\<rparr> # tl rest)
      else bm_clear_loop s e (hd rest # passed) (tl rest))"

definition bm_clear :: "u32 \<Rightarrow> u32 \<Rightarrow> bitmap \<Rightarrow> bitmap option" where
  "bm_clear s len b = bm_clear_loop s (s + len - 1) [] b"

section \<open>Queries and iterators\<close>

definition bm_is_set :: "u32 \<Rightarrow> u32 \<Rightarrow> bitmap \<Rightarrow> bool" where
  "bm_is_set s len b = list_ex (\<lambda>i. s \<ge> r_start i \<and> s + len - 1 \<le> r_end i) b"

definition bm_num_contiguous :: "bitmap \<Rightarrow> u32" where
  "bm_num_contiguous b = (case b of [] \<Rightarrow> 0 | i # _ \<Rightarrow> r_end i - r_start i + 1)"

fun bm_num_set :: "bitmap \<Rightarrow> u32" where
  "bm_num_set [] = 0"
| "bm_num_set (i # rest) = (r_end i - r_start i + 1) + bm_num_set rest"

text \<open>An iterator is the index of a range and the offset in it; moving out of the vector is undefined.\<close>

type_synonym bm_iter = "nat \<times> u32"

definition iter_begin :: "bitmap \<Rightarrow> bm_iter" where "iter_begin b = (0, 0)"
definition iter_end :: "bitmap \<Rightarrow> bm_iter" where "iter_end b = (length b, 0)"

definition iter_range :: "bitmap \<Rightarrow> nat \<Rightarrow> bm_range outcome" where
  "iter_range b n = (if n < length b then Done (b ! n) else Panic)"

definition iter_deref :: "bitmap \<Rightarrow> bm_iter \<Rightarrow> u32 outcome" where
  "iter_deref b i = bind_outcome (iter_range b (fst i)) (\<lambda>r. Done (r_start r + snd i))"

definition iter_inc :: "bitmap \<Rightarrow> bm_iter \<Rightarrow> bm_iter outcome" where
  "iter_inc b i = bind_outcome (iter_range b (fst i))
     (\<lambda>r. Done (if r_start r + snd i = r_end r then (Suc (fst i), 0) else (fst i, snd i + 1)))"

definition iter_dec :: "bitmap \<Rightarrow> bm_iter \<Rightarrow> bm_iter outcome" where
  "iter_dec b i =
     (if snd i = 0
      then case fst i of 0 \<Rightarrow> Panic | Suc n \<Rightarrow> bind_outcome (iter_range b n) (\<lambda>r. Done (n, r_end r - r_start r))
      else Done (fst i, snd i - 1))"

definition iter_skip_contiguous :: "bitmap \<Rightarrow> bm_iter \<Rightarrow> bm_iter outcome" where
  "iter_skip_contiguous b i = bind_outcome (iter_range b (fst i)) (\<lambda>r. Done (fst i, r_end r - r_start r))"

definition bm_first :: "bitmap \<Rightarrow> u32 outcome" where
  "bm_first b = iter_deref b (iter_begin b)"

definition bm_last :: "bitmap \<Rightarrow> u32 outcome" where
  "bm_last b = bind_outcome (iter_dec b (iter_end b)) (iter_deref b)"

section \<open>The set that a bitmap stands for\<close>

definition bm_bits :: "bitmap \<Rightarrow> nat set" where
  "bm_bits b = (\<Union>r \<in> set b. {unat (r_start r) .. unat (r_end r)})"

text \<open>
  The ranges are sorted and a gap lies between any two; the largest number is not used, so
  that the successor of an end does not wrap around.
\<close>

definition apart :: "bm_range \<Rightarrow> bm_range \<Rightarrow> bool" where
  "apart r q \<longleftrightarrow> unat (r_end r) + 1 < unat (r_start q)"

definition good_range :: "bm_range \<Rightarrow> bool" where
  "good_range r \<longleftrightarrow> r_start r \<le> r_end r \<and> r_end r \<noteq> - 1"

definition bm_inv :: "bitmap \<Rightarrow> bool" where
  "bm_inv b \<longleftrightarrow> sorted_wrt apart b \<and> list_all good_range b"

lemma bm_bits_simps [simp]:
  "bm_bits [] = {}" "bm_bits (r # b) = {unat (r_start r) .. unat (r_end r)} \<union> bm_bits b"
  "bm_bits (b @ c) = bm_bits b \<union> bm_bits c" "bm_bits (rev b) = bm_bits b"
  by (auto simp: bm_bits_def)

lemma unat_succ: "w \<noteq> - 1 \<Longrightarrow> unat (w + 1) = unat w + 1" for w :: u32
  using unatSuc [of w] by (simp add: add.commute eq_neg_iff_add_eq_0)

lemma unat_pred: "w \<noteq> 0 \<Longrightarrow> unat (w - 1) = unat w - 1" for w :: u32
  by (simp add: unat_minus_one)

lemma le_succ: "e \<noteq> - 1 \<Longrightarrow> s \<le> e + 1 \<longleftrightarrow> unat s \<le> unat e + 1" for s e :: u32
  by (simp add: word_le_nat_alt unat_succ)

lemma ge_pred: "e \<noteq> - 1 \<Longrightarrow> s - 1 \<le> e \<longleftrightarrow> s \<noteq> 0 \<and> unat s \<le> unat e + 1" for s e :: u32
proof (cases "s = 0")
  case True
  then show "e \<noteq> - 1 \<Longrightarrow> ?thesis" by (simp add: word_order.extremum_unique)
next
  case False
  then show ?thesis by (auto simp: word_le_nat_alt unat_pred)
qed

section \<open>set is union\<close>

abbreviation lo :: "bm_range \<Rightarrow> nat" where "lo r \<equiv> unat (r_start r)"
abbreviation hi :: "bm_range \<Rightarrow> nat" where "hi r \<equiv> unat (r_end r)"

text \<open>A range that was passed: it ends before the new one, or the new one covers it.\<close>

definition passed_by :: "nat \<Rightarrow> nat \<Rightarrow> bm_range \<Rightarrow> bool" where
  "passed_by s e q \<longleftrightarrow> hi q + 1 < s \<or> s < lo q \<and> hi q < e"

lemma good_range_unat: "good_range r \<Longrightarrow> lo r \<le> hi r"
  by (simp add: good_range_def word_le_nat_alt)

lemma bm_inv_Cons: "bm_inv (r # b) \<longleftrightarrow> good_range r \<and> list_all (apart r) b \<and> bm_inv b"
  by (auto simp: bm_inv_def list_all_iff)

lemma apart_trans: "apart r q \<Longrightarrow> good_range q \<Longrightarrow> apart q p \<Longrightarrow> apart r p"
  using good_range_unat [of q] by (simp add: apart_def)

lemma bm_inv_append:
  "bm_inv (b @ c) \<longleftrightarrow> bm_inv b \<and> bm_inv c \<and> (\<forall>r \<in> set b. \<forall>q \<in> set c. apart r q)"
  by (auto simp: bm_inv_def sorted_wrt_append list_all_iff)

text \<open>What the first loop finds.\<close>

definition found :: "nat set \<Rightarrow> bitmap \<Rightarrow> bm_range \<Rightarrow> bitmap \<Rightarrow> bool" where
  "found A left r rest \<longleftrightarrow> bm_bits left \<union> {lo r .. hi r} \<union> bm_bits rest = A \<and> good_range r \<and>
     bm_inv (rev left @ rest) \<and> (\<forall>q \<in> set left. passed_by (lo r) (hi r) q) \<and> (\<forall>q \<in> set rest. lo r < lo q)"

lemma bm_find_found:
  assumes "bm_inv (rev left @ rest)" and "s \<le> e" and "e \<noteq> - 1"
    and "\<forall>q \<in> set left. passed_by (unat s) (unat e) q"
  shows "case bm_find s e left rest of
      None \<Rightarrow> {unat s .. unat e} \<subseteq> bm_bits rest
    | Some (left', r, rest') \<Rightarrow> found (bm_bits left \<union> bm_bits rest \<union> {unat s .. unat e}) left' r rest'"
  using assms
proof (induction rest arbitrary: left)
  case Nil
  then show ?case by (auto simp: bm_find.simps found_def good_range_def)
next
  case (Cons i rest)
  have i: "good_range i" "bm_inv (rev left)" "bm_inv rest" "\<forall>q \<in> set rest. apart i q" "\<forall>q \<in> set left. apart q i"
      "\<forall>r \<in> set left. \<forall>q \<in> set rest. apart r q"
    using Cons.prems(1) by (auto simp: bm_inv_append bm_inv_Cons list_all_iff)
  have se: "unat s \<le> unat e" using Cons.prems(2) by (simp add: word_le_nat_alt)
  have li: "lo i \<le> hi i" "r_end i \<noteq> - 1" using i(1) good_range_unat by (auto simp: good_range_def)
  have "unat (r_start i - 1) \<le> unat e \<longleftrightarrow> lo i \<noteq> 0 \<and> lo i \<le> unat e + 1"
    using ge_pred [OF Cons.prems(3), of "r_start i"] by (simp add: word_le_nat_alt unat_eq_zero)
  note conv = word_le_nat_alt word_less_nat_alt unat_succ [OF li(2)] this
  have rev_inv: "bm_inv (rev left @ rest)" using i by (simp add: bm_inv_append)
  consider (ext_right) "lo i \<le> unat s" "unat s \<le> hi i + 1"
    | (ext_left) "unat s < lo i" "lo i \<le> unat e + 1" "unat e \<le> hi i"
    | (before) "unat e + 1 < lo i"
    | (covered) "unat s < lo i" "hi i < unat e"
    | (after) "hi i + 1 < unat s"
    by linarith
  then show ?case
  proof cases
    case ext_right
    then have f: "bm_find s e left (i # rest) = (if e \<le> r_end i then None else Some (left, i\<lparr>r_end := e\<rparr>, rest))"
      by (simp add: bm_find.simps conv)
    show ?thesis
    proof (cases "e \<le> r_end i")
      case True
      then show ?thesis using ext_right by (simp add: f word_le_nat_alt) fastforce
    next
      case False
      then have "hi i < unat e" by (simp add: word_less_nat_alt not_le)
      then have "{lo i .. unat e} = {lo i .. hi i} \<union> {unat s .. unat e}" using ext_right by auto
      moreover have "\<forall>q \<in> set left. passed_by (lo i) (unat e) q" using i(5) by (simp add: passed_by_def apart_def)
      moreover have "\<forall>q \<in> set rest. lo i < lo q" using i(4) li(1) by (auto simp: apart_def)
      ultimately show ?thesis
        using rev_inv Cons.prems(3) \<open>hi i < unat e\<close> li(1)
        by (simp add: f False found_def good_range_def word_le_nat_alt) blast
    qed
  next
    case ext_left
    then have f: "bm_find s e left (i # rest) = Some (left, i\<lparr>r_start := s\<rparr>, rest)"
      by (auto simp: bm_find.simps conv unat_eq_zero [symmetric])
    have "{unat s .. hi i} = {lo i .. hi i} \<union> {unat s .. unat e}" using ext_left by auto
    moreover have "\<forall>q \<in> set left. passed_by (unat s) (hi i) q"
      using Cons.prems(4) ext_left by (auto simp: passed_by_def)
    moreover have "\<forall>q \<in> set rest. unat s < lo q" using i(4) li(1) ext_left by (auto simp: apart_def)
    ultimately show ?thesis
      using rev_inv li ext_left by (simp add: f found_def good_range_def word_le_nat_alt) blast
  next
    case before
    then have f: "bm_find s e left (i # rest) = Some (left, \<lparr>r_start = s, r_end = e\<rparr>, i # rest)"
      using se by (auto simp: bm_find.simps conv)
    have "\<forall>q \<in> set (i # rest). unat s < lo q" using i(4) li(1) before se by (auto simp: apart_def)
    then show ?thesis
      using Cons.prems se by (simp add: f found_def good_range_def word_le_nat_alt) blast
  next
    case covered
    then have f: "bm_find s e left (i # rest) = bm_find s e (i # left) rest" using se li(1) by (auto simp: bm_find.simps conv)
    have "\<forall>q \<in> set (i # left). passed_by (unat s) (unat e) q" using Cons.prems(4) covered by (simp add: passed_by_def)
    moreover have "bm_inv (rev (i # left) @ rest)" using Cons.prems(1) by simp
    ultimately show ?thesis
      using Cons.IH [OF _ Cons.prems(2,3), of "i # left"] unfolding f by (auto split: option.splits simp: Un_ac)
  next
    case after
    then have f: "bm_find s e left (i # rest) = bm_find s e (i # left) rest" using se li(1) by (auto simp: bm_find.simps conv)
    have "\<forall>q \<in> set (i # left). passed_by (unat s) (unat e) q" using Cons.prems(4) after by (simp add: passed_by_def)
    moreover have "bm_inv (rev (i # left) @ rest)" using Cons.prems(1) by simp
    ultimately show ?thesis
      using Cons.IH [OF _ Cons.prems(2,3), of "i # left"] unfolding f by (auto split: option.splits simp: Un_ac)
  qed
qed

text \<open>Where the new range starts, and when ranges are passed.\<close>

lemma bm_find_start:
  "bm_inv (rev left @ rest) \<Longrightarrow> s \<noteq> 0 \<Longrightarrow> bm_find s e left rest = Some (left', r, rest') \<Longrightarrow> left' \<noteq> [] \<Longrightarrow> 0 < lo r"
proof (induction s e left rest rule: bm_find.induct)
  case (1 s e left)
  then show ?case by (auto simp: bm_find.simps unat_gt_0)
next
  case (2 s e left i rest)
  have "0 < lo i" if "left \<noteq> []"
    using 2(2) that by (cases left) (auto simp: bm_inv_append bm_inv_Cons apart_def)
  then show ?case
    using 2 by (auto simp: bm_find.simps unat_gt_0 split: if_splits)
qed

lemma bm_find_zero:
  "\<forall>q \<in> set rest. 0 < lo q \<Longrightarrow>
   \<exists>p r rest'. bm_find 0 e left rest = Some (p @ left, r, rest') \<and> r_start r = 0"
proof (induction rest arbitrary: left)
  case (Cons i rest)
  have i: "\<not> 0 \<ge> r_start i" using Cons.prems by (simp add: word_le_nat_alt)
  obtain p r rest' where "bm_find 0 e (i # left) rest = Some (p @ i # left, r, rest')" "r_start r = 0"
    using Cons.IH [of "i # left"] Cons.prems by auto
  then show ?case using i by (auto simp: bm_find.simps)
qed (simp add: bm_find.simps)

lemma absorb_right_ok:
  assumes "good_range r" and "bm_inv rest" and "\<forall>q \<in> set rest. lo r < lo q"
  shows "\<exists>r' rest'. absorb_right r rest = (r', rest') \<and> {lo r' .. hi r'} \<union> bm_bits rest' = {lo r .. hi r} \<union> bm_bits rest \<and>
    r_start r' = r_start r \<and> hi r \<le> hi r' \<and> good_range r' \<and> bm_inv rest' \<and> set rest' \<subseteq> set rest \<and> (\<forall>q \<in> set rest'. apart r' q)"
  using assms
proof (induction rest arbitrary: r)
  case (Cons j rest)
  have j: "good_range j" "\<forall>q \<in> set rest. apart j q" "bm_inv rest" "lo r < lo j" "lo j \<le> hi j" "lo r \<le> hi r"
    using Cons.prems good_range_unat by (auto simp: bm_inv_Cons list_all_iff)
  have cond: "r_end r \<ge> r_start j - 1 \<longleftrightarrow> lo j \<le> hi r + 1"
  proof -
    have "r_end r \<noteq> -1" using Cons.prems(1) by (simp add: good_range_def)
    then show ?thesis using ge_pred [of "r_end r" "r_start j"] j(4) by (auto simp: unat_eq_zero)
  qed
  show ?case
  proof (cases "lo j \<le> hi r + 1")
    case True
    let ?r = "if r_end r < r_end j then r\<lparr>r_end := r_end j\<rparr> else r"
    have g: "good_range ?r" using Cons.prems(1) j(1,4) by (auto simp: good_range_def word_le_nat_alt word_less_nat_alt)
    have s: "r_start ?r = r_start r" by simp
    have "hi ?r = max (hi r) (hi j)" by (auto simp: word_less_nat_alt)
    then have b: "{lo ?r .. hi ?r} = {lo r .. hi r} \<union> {lo j .. hi j}" "hi r \<le> hi ?r" using True j(4-6) unfolding s by auto
    have "\<forall>q \<in> set rest. lo ?r < lo q" using Cons.prems(3) by simp
    from Cons.IH [OF g j(3) this] b s True show ?thesis by (fastforce simp: cond)
  next
    case False
    then have "apart r j" by (simp add: apart_def)
    then have "\<forall>q \<in> set (j # rest). apart r q" using j(1,2) apart_trans [of r j] by auto
    then show ?thesis using Cons.prems False by (simp add: cond)
  qed
qed simp

lemma absorb_left_ok:
  assumes "good_range r" and "bm_inv (rev left)" and "\<forall>q \<in> set left. passed_by (lo r) (hi r) q" and "left = [] \<or> 0 < lo r"
  shows "\<exists>left'. absorb_left left r = (left', r) \<and> bm_bits left' \<union> {lo r .. hi r} = bm_bits left \<union> {lo r .. hi r} \<and>
    bm_inv (rev left') \<and> set left' \<subseteq> set left \<and> (\<forall>q \<in> set left'. apart q r)"
  using assms
proof (induction left)
  case (Cons j left)
  have j: "good_range j" "bm_inv (rev left)" "\<forall>q \<in> set left. apart q j" "passed_by (lo r) (hi r) j" "0 < lo r"
    using Cons.prems by (auto simp: bm_inv_append bm_inv_Cons)
  have cond: "r_end j \<ge> r_start r - 1 \<longleftrightarrow> lo r \<le> hi j + 1"
  proof -
    have "r_end j \<noteq> -1" using j(1) by (simp add: good_range_def)
    then show ?thesis using ge_pred [of "r_end j" "r_start r"] j(5) by (auto simp: unat_eq_zero)
  qed
  show ?case
  proof (cases "lo r \<le> hi j + 1")
    case True
    then have c: "lo r < lo j" "hi j < hi r" using j(4) by (auto simp: passed_by_def)
    then have "absorb_left (j # left) r = absorb_left left r"
      using True by (simp add: cond word_less_nat_alt not_less Let_def)
    moreover have "{lo j .. hi j} \<subseteq> {lo r .. hi r}" using c by auto
    ultimately show ?thesis using Cons.IH [OF Cons.prems(1) j(2)] Cons.prems(3) j(5) by fastforce
  next
    case False
    then have a: "apart j r" by (simp add: apart_def)
    then have "\<forall>q \<in> set (j # left). apart q r" using j(1,3) apart_trans by auto
    then show ?thesis using Cons.prems False by (simp add: cond)
  qed
qed simp

lemma absorb_left_zero: "left = [] \<or> good_range (hd left) \<Longrightarrow> r_start r = 0 \<Longrightarrow> absorb_left left r = (left, r)"
  by (cases left) (auto simp: good_range_def word_order.extremum_unique)

lemma validate_ranges_ok: "bm_inv (i # b) \<Longrightarrow> validate_ranges i b"
  by (induction b arbitrary: i) (auto simp: bm_inv_Cons good_range_def apart_def word_less_nat_alt)

lemma bm_validate_ok: "bm_inv b \<Longrightarrow> b \<noteq> [] \<Longrightarrow> bm_validate b = Done True"
  using validate_ranges_ok by (cases b) (auto simp: bm_validate_def bm_inv_Cons good_range_def)

lemma validate_ranges_append: "validate_ranges i (xs @ j # ys) \<Longrightarrow> r_start j \<noteq> 0"
  by (induction xs arbitrary: i) (auto simp: word_less_nat_alt)

text \<open>The range that \<open>set\<close> looks for.\<close>

lemma bm_set_range:
  assumes inv: "bm_inv b" and len: "len \<noteq> 0" and top: "unat s + unat len < 2 ^ 32"
  shows "unat (s + len - 1) = unat s + unat len - 1" and "0 < unat len"
    and "{unat s .. unat (s + len - 1)} = {unat s ..< unat s + unat len}"
    and "case bm_find s (s + len - 1) [] b of None \<Rightarrow> {unat s .. unat (s + len - 1)} \<subseteq> bm_bits b
      | Some (left', r, rest') \<Rightarrow> found (bm_bits b \<union> {unat s .. unat (s + len - 1)}) left' r rest'"
proof -
  let ?e = "s + len - 1"
  have sum: "unat (s + len) = unat s + unat len" using top unat_add_lem [of s len] by simp
  show pos: "0 < unat len" using len by (simp add: unat_gt_0)
  have "s + len \<noteq> 0" using sum pos by auto
  then show e: "unat ?e = unat s + unat len - 1" by (simp add: unat_pred sum)
  have se: "s \<le> ?e" using e pos by (simp add: word_le_nat_alt)
  have top_e: "?e \<noteq> - 1"
  proof
    assume "?e = - 1"
    then have "s + len = 0" by (simp add: algebra_simps)
    then show False using \<open>s + len \<noteq> 0\<close> by simp
  qed
  show range: "{unat s .. unat ?e} = {unat s ..< unat s + unat len}" using pos by (auto simp: e)
  show f: "case bm_find s ?e [] b of None \<Rightarrow> {unat s .. unat ?e} \<subseteq> bm_bits b
      | Some (left', r, rest') \<Rightarrow> found (bm_bits b \<union> {unat s .. unat ?e}) left' r rest'"
    using bm_find_found [of "[]" b s ?e] inv se top_e unfolding bm_bits_simps(1) Un_empty_left by simp
qed

lemma bm_set_ok:
  assumes inv: "bm_inv b" and len: "len \<noteq> 0" and top: "unat s + unat len < 2 ^ 32"
    and start: "\<not> (s = 0 \<and> b \<noteq> [] \<and> 0 < lo (hd b) \<and> hi (hd b) + 1 < unat len)"
  shows "\<exists>b'. bm_set s len b = Done b' \<and> bm_inv b' \<and> bm_bits b' = bm_bits b \<union> {unat s ..< unat s + unat len}"
proof -
  let ?e = "s + len - 1"
  note e = bm_set_range(1) [OF inv len top] and pos = bm_set_range(2) [OF inv len top]
    and range = bm_set_range(3) [OF inv len top] and f = bm_set_range(4) [OF inv len top]
  have union: "\<exists>b'. bm_set s len b = Done b' \<and> bm_inv b' \<and> bm_bits b' = bm_bits b \<union> {unat s ..< unat s + unat len}"
    if no_zero: "\<And>left r rest'. bm_find s ?e [] b = Some (left, r, rest') \<Longrightarrow> left = [] \<or> 0 < lo r"
  proof (cases "bm_find s ?e [] b")
    case None
    then show ?thesis using f inv len range by (auto simp: bm_set_def)
  next
    case (Some res)
    obtain left r rest where res: "bm_find s ?e [] b = Some (left, r, rest)" using Some by (cases res) auto
    have fd: "bm_bits left \<union> {lo r .. hi r} \<union> bm_bits rest = bm_bits b \<union> {unat s .. unat ?e}" "good_range r"
        "bm_inv (rev left)" "bm_inv rest" "\<forall>q \<in> set left. passed_by (lo r) (hi r) q" "\<forall>q \<in> set rest. lo r < lo q"
        "\<forall>p \<in> set left. \<forall>q \<in> set rest. apart p q"
      using f res by (auto simp: found_def bm_inv_append)
    obtain r1 rest' where r1: "absorb_right r rest = (r1, rest')" "{lo r1 .. hi r1} \<union> bm_bits rest' = {lo r .. hi r} \<union> bm_bits rest"
        "r_start r1 = r_start r" "hi r \<le> hi r1" "good_range r1" "bm_inv rest'" "set rest' \<subseteq> set rest" "\<forall>q \<in> set rest'. apart r1 q"
      using absorb_right_ok [OF fd(2,4,6)] by blast
    have "\<forall>q \<in> set left. passed_by (lo r1) (hi r1) q" using fd(5) r1(3,4) by (auto simp: passed_by_def)
    moreover have "left = [] \<or> 0 < lo r1" using no_zero [OF res] r1(3) by simp
    ultimately obtain left' where l: "absorb_left left r1 = (left', r1)"
        "bm_bits left' \<union> {lo r1 .. hi r1} = bm_bits left \<union> {lo r1 .. hi r1}" "bm_inv (rev left')" "set left' \<subseteq> set left"
        "\<forall>q \<in> set left'. apart q r1"
      using absorb_left_ok [OF r1(5) fd(3)] by blast
    let ?b = "rev left' @ r1 # rest'"
    have "\<forall>p \<in> set left'. \<forall>q \<in> set rest'. apart p q" using l(4) r1(7) fd(7) by blast
    then have inv': "bm_inv ?b"
      using l(3,5) r1(5,6,8) by (auto simp: bm_inv_append bm_inv_Cons list_all_iff)
    have "bm_bits ?b = bm_bits b \<union> {unat s .. unat ?e}"
      using l(2) r1(2) fd(1) by auto
    then show ?thesis
      using inv' len by (simp add: bm_set_def res r1(1) l(1) bm_validate_ok range Let_def)
  qed
  have "left = [] \<or> 0 < lo r" if res: "bm_find s ?e [] b = Some (left, r, rest')" for left r rest'
  proof (cases "s = 0")
    case True
    show ?thesis
    proof (cases b)
      case (Cons i b')
      have gi: "good_range i" using inv Cons by (simp add: bm_inv_Cons)
      show ?thesis
      proof (cases "lo i = 0")
        case True
        then have "r_start i = 0" by (simp add: unat_eq_zero)
        then show ?thesis using res Cons \<open>s = 0\<close> by (auto simp: bm_find.simps split: if_splits)
      next
        case False
        then have "unat ?e \<le> hi i" using \<open>\<not> (s = 0 \<and> _)\<close> Cons True e by simp
        moreover have "unat (r_start i - 1) = lo i - 1" using False by (simp add: unat_pred unat_eq_zero [symmetric])
        ultimately show ?thesis
          using res Cons by (auto simp: bm_find.simps word_le_nat_alt word_less_nat_alt split: if_splits)
      qed
    qed (use res in \<open>simp add: bm_find.simps\<close>)
  next
    case False
    then show ?thesis using bm_find_start [of "[]" b s ?e left r rest'] inv res by (cases "left = []") simp_all
  qed
  then show ?thesis using union by auto
qed

text \<open>
  C28. Setting a range is union. On a bitmap whose ranges are sorted and apart, setting a
  range that ends below the largest number keeps the ranges so and adds exactly the numbers
  of the range to the set, and the internal check passes; except that setting a range from
  zero fails that check, and aborts the daemon, when the first range starts above zero and
  ends inside the new one, because the comparison with the predecessor of zero wraps around.
\<close>

theorem bm_set_is_union:
  assumes inv: "bm_inv b" and len: "len \<noteq> 0" and top: "unat s + unat len < 2 ^ 32"
  shows "if s = 0 \<and> b \<noteq> [] \<and> 0 < lo (hd b) \<and> hi (hd b) + 1 < unat len then bm_set s len b = Panic
    else \<exists>b'. bm_set s len b = Done b' \<and> bm_inv b' \<and> bm_bits b' = bm_bits b \<union> {unat s ..< unat s + unat len}"
proof (cases "s = 0 \<and> b \<noteq> [] \<and> 0 < lo (hd b) \<and> hi (hd b) + 1 < unat len")
  case True
  let ?e = "s + len - 1"
  note e = bm_set_range(1) [OF inv len top] and f = bm_set_range(4) [OF inv len top]
  obtain i b' where b: "b = i # b'" using True by (cases b) auto
  have i: "0 < lo i" "hi i < unat ?e" "good_range i" using True b e inv by (auto simp: bm_inv_Cons)
  have "\<forall>q \<in> set b'. 0 < lo q" using inv b by (auto simp: bm_inv_Cons list_all_iff apart_def)
  then obtain p r rest where "bm_find 0 ?e [i] b' = Some (p @ [i], r, rest)" "r_start r = 0" using bm_find_zero by blast
  moreover have "bm_find s ?e [] b = bm_find 0 ?e [i] b'"
    using i True b good_range_unat [OF i(3)]
    by (auto simp: bm_find.simps word_le_nat_alt word_less_nat_alt not_le)
  ultimately have res: "bm_find s ?e [] b = Some (p @ [i], r, rest)" "r_start r = 0" by simp_all
  have fd: "good_range r" "bm_inv (rev (p @ [i]))" "bm_inv rest" "\<forall>q \<in> set rest. lo r < lo q"
  proof -
    have "found (bm_bits b \<union> {unat s .. unat ?e}) (p @ [i]) r rest" using f unfolding res(1) by simp
    then show "good_range r" "bm_inv (rev (p @ [i]))" "bm_inv rest" "\<forall>q \<in> set rest. lo r < lo q"
      unfolding found_def bm_inv_append by blast+
  qed
  obtain r1 rest' where r1: "absorb_right r rest = (r1, rest')" "r_start r1 = 0"
    using absorb_right_ok [OF fd(1,3,4)] res(2) by auto
  have "good_range (hd (p @ [i]))" using fd(2) by (cases p) (auto simp: bm_inv_append bm_inv_Cons)
  then have l: "absorb_left (p @ [i]) r1 = (p @ [i], r1)" using r1(2) by (intro absorb_left_zero) simp_all
  have "\<not> validate_ranges i (rev p @ r1 # rest')" using validate_ranges_append r1(2) by blast
  then have "bm_validate (rev (p @ [i]) @ r1 # rest') = Panic" by (simp add: bm_validate_def assert_that_def)
  then have "bm_set s len b = Panic" using len by (simp add: bm_set_def res(1) r1(1) l)
  then show ?thesis using True by simp
next
  case False
  then show ?thesis using bm_set_ok [OF inv len top] by auto
qed

theorem bm_set_is_union_witness:
  "\<exists>b'. bm_set 5 3 [\<lparr>r_start = 1, r_end = 4\<rparr>, \<lparr>r_start = 6, r_end = 6\<rparr>] = Done b' \<and>
      bm_bits b' = {1 .. 4} \<union> {6} \<union> {5 ..< 8} \<and>
    bm_set 0 9 [\<lparr>r_start = 3, r_end = 4\<rparr>] = Panic"
proof -
  have "bm_inv [\<lparr>r_start = 1, r_end = 4\<rparr>, \<lparr>r_start = 6, r_end = 6\<rparr>]" "bm_inv [\<lparr>r_start = 3, r_end = 4\<rparr>]"
    by (simp_all add: bm_inv_def apart_def good_range_def)
  from bm_set_is_union [OF this(1), of 3 5] bm_set_is_union [OF this(2), of 9 0]
  show ?thesis by simp blast
qed

text \<open>With the length zero a split inserts the same entry again and again.\<close>

lemma bm_clear_loop_diverges:
  assumes "bm_clear_loop s e passed rest = Some b"
  shows "e < s \<longrightarrow> rest = [\<lparr>r_start = e, r_end = t\<rparr>] \<longrightarrow> t < s"
proof (rule bm_clear_loop.raw_induct [OF _ assms], intro impI)
  fix loop s e passed rest b
  assume ih: "\<And>s e passed rest b. loop s e passed rest = Some b \<Longrightarrow> e < s \<longrightarrow> rest = [\<lparr>r_start = e, r_end = t\<rparr>] \<longrightarrow> t < s"
    and run: "(if rest = [] then Some (rev passed)
      else if s \<le> r_start (hd rest) \<and> e \<ge> r_end (hd rest) then loop s e passed (tl rest)
      else if s \<le> r_start (hd rest) \<and> e < r_end (hd rest) \<and> e \<ge> r_start (hd rest)
      then loop s e ((hd rest)\<lparr>r_start := e + 1\<rparr> # passed) (tl rest)
      else if s > r_start (hd rest) \<and> s \<le> r_end (hd rest)
      then if e \<ge> r_end (hd rest) then loop s e ((hd rest)\<lparr>r_end := s - 1\<rparr> # passed) (tl rest)
           else loop s e ((hd rest)\<lparr>r_end := s\<rparr> # passed) (\<lparr>r_start = e, r_end = r_end (hd rest)\<rparr> # tl rest)
      else loop s e (hd rest # passed) (tl rest)) = Some b"
    and e: "e < s" and rest: "rest = [\<lparr>r_start = e, r_end = t\<rparr>]"
  show "t < s"
  proof (rule ccontr)
    assume "\<not> t < s"
    then have "s \<le> t" "\<not> s \<le> e" "\<not> t \<le> e" using e by simp_all
    then have "loop s e (\<lparr>r_start = e, r_end = s\<rparr> # passed) [\<lparr>r_start = e, r_end = t\<rparr>] = Some b"
      using run [unfolded rest] e by simp
    from ih [OF this] e \<open>\<not> t < s\<close> show False by simp
  qed
qed



end
