(* ===== verification/Stream_Layer.thy ===== *)
theory Stream_Layer
  imports Consume_Progress Sparse_Bitmap Fragmentation
begin

text \<open>
  A connection of the stream convergence layer
  (\<open>servlib/conv_layers/StreamConvergenceLayer.cc\<close>, with \<open>CLConnection.cc\<close>, the \<open>send_data\<close> of
  \<open>TCPConvergenceLayer.cc\<close> and \<open>StreamBuffer.cc\<close> of \<open>oasys-1.4.0\<close>). Bundles travel in segments,
  which the peer acknowledges.

  The state of the connection is one record. A pointer to a bundle in flight is the number
  that the bundle got when it was put in flight; the bundle objects that the code makes are
  drawn from a supply. Events posted to the daemon are a list, and so are the results of the
  writes on the socket, which the environment decides. Times are milliseconds.
\<close>

section \<open>Buffers\<close>

record stream_buffer =
  sb_start :: nat
  sb_data :: "byte list"
  sb_size :: nat

definition fullbytes :: "stream_buffer \<Rightarrow> nat" where
  "fullbytes s = length (sb_data s)"

definition tailbytes :: "stream_buffer \<Rightarrow> nat" where
  "tailbytes s = sb_size s - (sb_start s + length (sb_data s))"

definition sb_moveup :: "stream_buffer \<Rightarrow> stream_buffer" where
  "sb_moveup s = s\<lparr>sb_start := 0\<rparr>"

definition sb_reserve :: "nat \<Rightarrow> stream_buffer \<Rightarrow> stream_buffer outcome" where
  "sb_reserve amount s =
     (let s' = (if amount \<le> tailbytes s then s
                else if amount \<le> sb_start s + tailbytes s then sb_moveup s
                else (sb_moveup s)\<lparr>sb_size := (if amount + fullbytes s > sb_size s * 2 then amount + fullbytes s
                                                  else sb_size s * 2)\<rparr>)
      in assert_that (amount \<le> tailbytes s') (Done s'))"

text \<open>Bytes are written behind \<open>end()\<close> and counted by \<open>fill\<close>.\<close>

definition sb_fill :: "byte list \<Rightarrow> stream_buffer \<Rightarrow> stream_buffer outcome" where
  "sb_fill bs s = assert_that (length bs \<le> tailbytes s) (Done (s\<lparr>sb_data := sb_data s @ bs\<rparr>))"

definition sb_consume :: "nat \<Rightarrow> stream_buffer \<Rightarrow> stream_buffer outcome" where
  "sb_consume n s =
     assert_that (n \<le> fullbytes s)
      (Done (if n = fullbytes s then s\<lparr>sb_start := 0, sb_data := []\<rparr>
             else s\<lparr>sb_start := sb_start s + n, sb_data := drop n (sb_data s)\<rparr>))"

section \<open>The state of a connection\<close>

record in_flight =
  if_id :: nat
  if_bundle :: dtn_bundle
  if_blocks :: block_info_vec
  if_total_length :: u32
  if_send_complete :: bool
  if_transmit_event_posted :: bool
  if_sent_data :: bitmap
  if_ack_data :: bitmap

record incoming_bundle =
  in_bundle :: dtn_bundle
  in_total_length :: u32
  in_acked_length :: u32
  in_rcvd_data :: bitmap
  in_ack_data :: bitmap

definition new_incoming :: "dtn_bundle \<Rightarrow> incoming_bundle" where
  "new_incoming b = \<lparr>in_bundle = b, in_total_length = 0, in_acked_length = 0, in_rcvd_data = [], in_ack_data = []\<rparr>"

record stream_params =
  sp_segment_ack :: bool
  sp_reactive_frag :: bool
  sp_negative_ack :: bool
  sp_keepalive :: u32
  sp_segment_length :: u32
  sp_data_timeout :: u32
  sp_test_write_delay :: u32
  sp_test_write_limit :: u32
  sp_test_read_limit :: u32
  sp_sendbuf_len :: u32
  sp_recvbuf_len :: u32

datatype contact_reason =
  CR_INVALID | CR_NO_INFO | CR_USER | CR_BROKEN | CR_DISCOVERY | CR_CL_ERROR | CR_CL_VERSION | CR_SHUTDOWN | CR_RECONNECT
  | CR_IDLE | CR_TIMEOUT

datatype cl_event =
    BundleReceived dtn_bundle u32
  | BundleTransmitted dtn_bundle u32 u32
  | SendCancelled dtn_bundle
  | LinkClosed contact_reason
  | ContactUp

datatype write_result = Wrote nat | WouldBlock | WriteError

record connection =
  c_params :: stream_params
  c_version :: byte
  c_recvbuf :: stream_buffer
  c_sendbuf :: stream_buffer
  c_in_flight :: "in_flight list"
  c_current :: "nat option"
  c_incoming :: "incoming_bundle list"
  c_send_todo :: nat
  c_recv_todo :: nat
  c_breaking :: bool
  c_broken :: bool
  c_initiated :: bool
  c_contact_up :: bool
  c_has_contact :: bool
  c_remote_eid :: endpoint_id
  c_poll_timeout :: u32
  c_queue :: "(dtn_bundle \<times> block_info_vec) list"
  c_events :: "cl_event list"
  c_writes :: "write_result list"
  c_wire :: "byte list"
  c_fresh :: "nat \<Rightarrow> dtn_bundle"
  c_count :: nat
  c_now :: nat
  c_data_rcvd :: nat
  c_data_sent :: nat
  c_keepalive_sent :: nat

definition post_event :: "cl_event \<Rightarrow> connection \<Rightarrow> connection" where
  "post_event e c = c\<lparr>c_events := c_events c @ [e]\<rparr>"

definition fill_send :: "byte list \<Rightarrow> connection \<Rightarrow> connection outcome" where
  "fill_send bs c = bind_outcome (sb_fill bs (c_sendbuf c)) (\<lambda>s. Done (c\<lparr>c_sendbuf := s\<rparr>))"

definition consume_recv :: "nat \<Rightarrow> connection \<Rightarrow> connection outcome" where
  "consume_recv n c = bind_outcome (sb_consume n (c_recvbuf c)) (\<lambda>s. Done (c\<lparr>c_recvbuf := s\<rparr>))"

section \<open>Message bytes\<close>

abbreviation DATA_SEGMENT :: byte where "DATA_SEGMENT \<equiv> 0x10"
abbreviation ACK_SEGMENT :: byte where "ACK_SEGMENT \<equiv> 0x20"
abbreviation REFUSE_BUNDLE :: byte where "REFUSE_BUNDLE \<equiv> 0x30"
abbreviation KEEPALIVE :: byte where "KEEPALIVE \<equiv> 0x40"
abbreviation SHUTDOWN :: byte where "SHUTDOWN \<equiv> 0x50"

abbreviation BUNDLE_START :: byte where "BUNDLE_START \<equiv> 2"
abbreviation BUNDLE_END :: byte where "BUNDLE_END \<equiv> 1"
abbreviation SHUTDOWN_HAS_REASON :: byte where "SHUTDOWN_HAS_REASON \<equiv> 2"
abbreviation SHUTDOWN_HAS_DELAY :: byte where "SHUTDOWN_HAS_DELAY \<equiv> 1"

abbreviation SEGMENT_ACK_ENABLED :: byte where "SEGMENT_ACK_ENABLED \<equiv> 1"
abbreviation REACTIVE_FRAG_ENABLED :: byte where "REACTIVE_FRAG_ENABLED \<equiv> 2"
abbreviation NEGATIVE_ACK_ENABLED :: byte where "NEGATIVE_ACK_ENABLED \<equiv> 4"

text \<open>The magic word ``dtn!'' in network order.\<close>

definition MAGIC :: "byte list" where "MAGIC = [0x64, 0x74, 0x6e, 0x21]"

section \<open>Breaking the contact, and sending\<close>

text \<open>\<open>break_contact\<close> of the base class; disconnecting the socket changes nothing here.\<close>

definition base_break_contact :: "contact_reason \<Rightarrow> connection \<Rightarrow> connection" where
  "base_break_contact reason c =
     (let c1 = c\<lparr>c_broken := True\<rparr>
      in if reason \<noteq> CR_USER \<and> c_has_contact c1 then post_event (LinkClosed reason) c1 else c1)"

text \<open>\<open>break_contact(BROKEN)\<close> of the stream layer, which sends no shutdown message.\<close>

definition break_broken :: "connection \<Rightarrow> connection" where
  "break_broken c = (if c_breaking c then c else base_break_contact CR_BROKEN (c\<lparr>c_breaking := True\<rparr>))"

definition send_data :: "connection \<Rightarrow> connection outcome" where
  "send_data c =
     assert_that (\<not> c_broken c)
      (let towrite = (if sp_test_write_limit (c_params c) \<noteq> 0
                      then min (fullbytes (c_sendbuf c)) (unat (sp_test_write_limit (c_params c)))
                      else fullbytes (c_sendbuf c));
           c1 = c\<lparr>c_writes := tl (c_writes c)\<rparr>
       in assert_that (towrite > 0)
        (case (if c_writes c = [] then WouldBlock else hd (c_writes c)) of
           Wrote n \<Rightarrow>
             (let cc = min n towrite
              in if cc = 0 then Done c1
                 else bind_outcome (sb_consume cc (c_sendbuf c1)) (\<lambda>s.
                   Done (c1\<lparr>c_sendbuf := s, c_wire := c_wire c1 @ take cc (sb_data (c_sendbuf c1))\<rparr>)))
         | WouldBlock \<Rightarrow> Done c1
         | WriteError \<Rightarrow> Done (break_broken c1)))"

datatype shutdown_reason = NO_REASON | IDLE_TIMEOUT | VERSION_MISMATCH | BUSY

fun shutdown_value :: "shutdown_reason \<Rightarrow> byte" where
  "shutdown_value NO_REASON = 0xff"
| "shutdown_value IDLE_TIMEOUT = 0"
| "shutdown_value VERSION_MISMATCH = 1"
| "shutdown_value BUSY = 2"

text \<open>Whether a shutdown message is sent, and its reason; other reasons are not reached.\<close>

fun shutdown_for :: "contact_reason \<Rightarrow> (bool \<times> shutdown_reason) outcome" where
  "shutdown_for CR_USER = Done (True, BUSY)"
| "shutdown_for CR_IDLE = Done (True, IDLE_TIMEOUT)"
| "shutdown_for CR_SHUTDOWN = Done (True, NO_REASON)"
| "shutdown_for CR_BROKEN = Done (False, NO_REASON)"
| "shutdown_for CR_CL_ERROR = Done (False, NO_REASON)"
| "shutdown_for CR_CL_VERSION = Done (True, VERSION_MISMATCH)"
| "shutdown_for CR_INVALID = Panic"
| "shutdown_for CR_NO_INFO = Panic"
| "shutdown_for CR_RECONNECT = Panic"
| "shutdown_for CR_TIMEOUT = Panic"
| "shutdown_for CR_DISCOVERY = Panic"

definition shutdown_message :: "shutdown_reason \<Rightarrow> byte list" where
  "shutdown_message r = (if r \<noteq> NO_REASON then [SHUTDOWN OR SHUTDOWN_HAS_REASON, shutdown_value r] else [SHUTDOWN])"

definition break_contact :: "contact_reason \<Rightarrow> connection \<Rightarrow> connection outcome" where
  "break_contact reason c =
     (if c_breaking c then Done c
      else let c1 = c\<lparr>c_breaking := True\<rparr>
           in bind_outcome (shutdown_for reason) (\<lambda>(send, r).
             bind_outcome
               (if send \<and> fullbytes (c_sendbuf c1) = 0 \<and> c_send_todo c1 = 0
                then bind_outcome (fill_send (shutdown_message r) c1) send_data else Done c1)
               (\<lambda>c2. Done (base_break_contact reason c2))))"

definition note_data_rcvd :: "connection \<Rightarrow> connection" where
  "note_data_rcvd c = c\<lparr>c_data_rcvd := c_now c\<rparr>"

definition note_data_sent :: "connection \<Rightarrow> connection" where
  "note_data_sent c = c\<lparr>c_data_sent := c_now c\<rparr>"

section \<open>Sending segments\<close>

text \<open>Looking up and changing a bundle in flight; a dangling pointer is undefined.\<close>

definition in_flight_at :: "nat \<Rightarrow> connection \<Rightarrow> in_flight outcome" where
  "in_flight_at i c = (case filter (\<lambda>x. if_id x = i) (c_in_flight c) of [] \<Rightarrow> Panic | x # _ \<Rightarrow> Done x)"

definition set_in_flight :: "in_flight \<Rightarrow> connection \<Rightarrow> connection" where
  "set_in_flight x c = c\<lparr>c_in_flight := map (\<lambda>y. if if_id y = if_id x then x else y) (c_in_flight c)\<rparr>"

definition bytes_sent :: "in_flight \<Rightarrow> nat outcome" where
  "bytes_sent x = (if if_sent_data x = [] then Done 0 else bind_outcome (bm_last (if_sent_data x)) (\<lambda>l. Done (unat (l + 1))))"

text \<open>\<open>check_completed\<close> of a bundle in flight, by then removed from \<open>current_inflight_\<close> or not.\<close>

definition check_sent :: "nat \<Rightarrow> connection \<Rightarrow> connection outcome" where
  "check_sent i c =
     (if c_current c = Some i then Done c
      else bind_outcome (in_flight_at i c) (\<lambda>x.
        if sp_segment_ack (c_params c) \<and> bm_num_contiguous (if_ack_data x) < if_total_length x then Done c
        else let c1 = (if sp_segment_ack (c_params c) then c
                       else post_event (BundleTransmitted (if_bundle x) (bm_num_contiguous (if_sent_data x))
                                         (bm_num_contiguous (if_sent_data x)))
                              (set_in_flight (x\<lparr>if_transmit_event_posted := True\<rparr>) c))
             in case c_in_flight c1 of
                  [] \<Rightarrow> Panic
                | y # ys \<Rightarrow> assert_that (if_id y = i) (Done (c1\<lparr>c_in_flight := ys\<rparr>))))"

definition finish_bundle :: "nat \<Rightarrow> connection \<Rightarrow> (bool \<times> connection) outcome" where
  "finish_bundle i c =
     bind_outcome (in_flight_at i c) (\<lambda>x. assert_that (if_send_complete x) (assert_that (c_current c = Some i)
       (bind_outcome (check_sent i (c\<lparr>c_current := None\<rparr>)) (\<lambda>c1. Done (True, c1)))))"

text \<open>One round of the loop of \<open>send_data_todo\<close>: the next bytes of the bundle go into the buffer.\<close>

definition send_chunk :: "nat \<Rightarrow> connection \<Rightarrow> connection outcome" where
  "send_chunk i c =
     bind_outcome (in_flight_at i c) (\<lambda>x. bind_outcome (bytes_sent x) (\<lambda>sent.
       let send_len = min (c_send_todo c) (tailbytes (c_sendbuf c))
       in bind_outcome (produce (if_bundle x) (biv_blocks (if_blocks x)) sent send_len) (\<lambda>(bs, ret, complete, b').
            assert_that (ret = send_len)
             (bind_outcome (fill_send bs c) (\<lambda>c1.
                bind_outcome (bm_set (of_nat sent) (of_nat send_len) (if_sent_data x)) (\<lambda>m.
                  let x' = x\<lparr>if_bundle := b', if_send_complete := complete, if_sent_data := m\<rparr>
                  in send_data (note_data_sent ((set_in_flight x' c1)\<lparr>c_send_todo := c_send_todo c - send_len\<rparr>))))))))"

lemma send_data_keeps:
  "send_data c = Done c' \<Longrightarrow> c_send_todo c' = c_send_todo c"
  by (auto simp: send_data_def assert_that_def Let_def sb_consume_def break_broken_def base_break_contact_def post_event_def
      split: if_splits write_result.splits)

lemma send_chunk_todo:
  "send_chunk i c = Done c' \<Longrightarrow> c_send_todo c' = c_send_todo c - min (c_send_todo c) (tailbytes (c_sendbuf c))"
  by (auto simp: send_chunk_def bind_outcome_Done_iff assert_that_def Let_def note_data_sent_def dest!: send_data_keeps
      split: if_splits)

function send_data_todo_loop :: "nat \<Rightarrow> connection \<Rightarrow> (bool \<times> connection) outcome" where
  "send_data_todo_loop i c =
     (if c_send_todo c \<noteq> 0 \<and> tailbytes (c_sendbuf c) \<noteq> 0
      then case send_chunk i c of
             Panic \<Rightarrow> Panic
           | Done c1 \<Rightarrow>
               if c_broken c1 then Done (True, c1)
               else if sp_test_write_delay (c_params c1) \<noteq> 0 then Done (True, c1)
               else send_data_todo_loop i c1
      else Done (c_send_todo c = 0, c))"
  by pat_completeness auto
termination
  by (relation "measure (\<lambda>(i, c). c_send_todo c)") (auto dest: send_chunk_todo)

definition send_data_todo :: "nat \<Rightarrow> connection \<Rightarrow> (bool \<times> connection) outcome" where
  "send_data_todo i c = assert_that (c_send_todo c \<noteq> 0) (send_data_todo_loop i c)"

text \<open>The flags and the length of the next segment.\<close>

definition next_segment :: "stream_params \<Rightarrow> nat \<Rightarrow> nat \<Rightarrow> byte \<times> nat" where
  "next_segment p sent total_len =
     (let start = (if sent = 0 then BUNDLE_START else 0)
      in if unat (sp_segment_length p) \<ge> size_minus total_len sent then (start OR BUNDLE_END, size_minus total_len sent)
         else (start, unat (sp_segment_length p)))"

definition send_next_segment :: "nat \<Rightarrow> connection \<Rightarrow> (bool \<times> connection) outcome" where
  "send_next_segment i c =
     (if tailbytes (c_sendbuf c) = 0 then Done (False, c)
      else assert_that (c_send_todo c = 0)
       (bind_outcome (in_flight_at i c) (\<lambda>x. bind_outcome (bytes_sent x) (\<lambda>sent.
          if sent = unat (if_total_length x) then assert_that (if_send_complete x) (finish_bundle i c)
          else case next_segment (c_params c) sent (unat (if_total_length x)) of (flags, segment_len) \<Rightarrow>
            bind_outcome (sdnv_encoding_len (of_nat segment_len)) (\<lambda>sdnv_len.
              if tailbytes (c_sendbuf c) < 1 + sdnv_len then Done (False, c)
              else bind_outcome (sdnv_encode (of_nat segment_len) (replicate (tailbytes (c_sendbuf c) - 1) 0)) (\<lambda>(cc, bs).
                assert_that (cc = int sdnv_len)
                 (bind_outcome (fill_send ((DATA_SEGMENT OR flags) # take sdnv_len bs) c) (\<lambda>c1.
                    send_data_todo i (c1\<lparr>c_send_todo := segment_len\<rparr>)))))))))"

text \<open>The next bundle of the queue of the link, with its blocks, is put in flight.\<close>

definition start_next_bundle :: "connection \<Rightarrow> (bool \<times> connection) outcome" where
  "start_next_bundle c =
     assert_that (c_current c = None)
      (if \<not> c_contact_up c then Done (False, c)
       else case c_queue c of
              [] \<Rightarrow> Done (False, c)
            | (b, blocks) # rest \<Rightarrow>
                (let i = c_count c;
                     x = \<lparr>if_id = i, if_bundle = b, if_blocks = blocks, if_total_length = of_nat (total_length blocks),
                          if_send_complete = False, if_transmit_event_posted = False, if_sent_data = [], if_ack_data = []\<rparr>
                 in send_next_segment i
                      (c\<lparr>c_in_flight := c_in_flight c @ [x], c_current := Some i, c_count := Suc i, c_queue := rest\<rparr>)))"

section \<open>Acknowledging segments\<close>

text \<open>
  The loop of \<open>send_pending_acks\<close> for the bundle at the front of the list, on which a bit is
  marked; whether an acknowledgement was generated comes first. Clearing can fail to end.
\<close>

partial_function (option) ack_loop :: "incoming_bundle \<Rightarrow> bool \<Rightarrow> connection \<Rightarrow> (bool \<times> incoming_bundle \<times> connection) outcome option" where
  "ack_loop x generated c =
     (case bm_first (in_ack_data x) of
        Panic \<Rightarrow> Some Panic
      | Done mark \<Rightarrow>
          (let ack_len = mark + 1; encoding_len = 1 + length (sdnv_bytes (ucast ack_len))
           in if ack_len > bm_num_contiguous (in_rcvd_data x) then Some (Done (generated, x, c))
              else if sp_segment_ack (c_params c) \<and> encoding_len > tailbytes (c_sendbuf c) then Some (Done (generated, x, c))
              else case (if sp_segment_ack (c_params c) then fill_send (ACK_SEGMENT # sdnv_bytes (ucast ack_len)) c else Done c) of
                     Panic \<Rightarrow> Some Panic
                   | Done c1 \<Rightarrow>
                       (case bm_clear mark 1 (in_ack_data x) of
                          None \<Rightarrow> None
                        | Some m \<Rightarrow>
                            (let x1 = x\<lparr>in_acked_length := ack_len, in_ack_data := m\<rparr>;
                                 generated1 = (generated \<or> sp_segment_ack (c_params c))
                             in if m = [] then Some (Done (generated1, x1, c1)) else ack_loop x1 generated1 c1))))"

text \<open>The bundle at the front is done when all of it has been acknowledged.\<close>

definition ack_check_done :: "incoming_bundle \<Rightarrow> incoming_bundle list \<Rightarrow> connection \<Rightarrow> connection" where
  "ack_check_done x rest c =
     c\<lparr>c_incoming := (if in_total_length x \<noteq> 0 \<and> in_total_length x = in_acked_length x then rest else x # rest)\<rparr>"

definition send_pending_acks :: "connection \<Rightarrow> (bool \<times> connection) outcome option" where
  "send_pending_acks c =
     (if c_broken c then Some (Done (False, c))
      else case c_incoming c of
             [] \<Rightarrow> Some (Done (False, c))
           | x # rest \<Rightarrow>
               (if in_ack_data x = [] \<or> in_rcvd_data x = [] then Some (Done (False, ack_check_done x rest c))
                else map_option (\<lambda>r. bind_outcome r (\<lambda>(generated, x1, c1).
                       bind_outcome (if generated then bind_outcome (send_data c1) (\<lambda>c2. Done (note_data_sent c2)) else Done c1)
                         (\<lambda>c2. Done (generated, ack_check_done x1 rest c2))))
                     (ack_loop x False c)))"

text \<open>\<open>send_pending_data\<close>, which the thread of the connection calls again and again.\<close>

definition send_more :: "connection \<Rightarrow> (bool \<times> connection) outcome" where
  "send_more c = (case c_current c of None \<Rightarrow> start_next_bundle c | Some i \<Rightarrow> send_next_segment i c)"

definition send_pending_data :: "connection \<Rightarrow> (bool \<times> connection) outcome option" where
  "send_pending_data c =
     (if tailbytes (c_sendbuf c) = 0 then Some (Done (False, c))
      else case (if c_send_todo c \<noteq> 0
                 then case c_current c of None \<Rightarrow> Panic | Some i \<Rightarrow> send_data_todo i c
                 else Done (True, c)) of
             Panic \<Rightarrow> Some Panic
           | Done (_, c1) \<Rightarrow>
               if c_broken c1 \<or> c_send_todo c1 \<noteq> 0 then Some (Done (sp_test_write_delay (c_params c1) \<noteq> 0, c1))
               else map_option (\<lambda>r. bind_outcome r (\<lambda>(sent_ack, c2).
                      if c_broken c2 then Done (sent_ack, c2)
                      else bind_outcome (send_more c2) (\<lambda>(sent_data, c3). Done (sent_ack \<or> sent_data, c3))))
                    (send_pending_acks c1))"

section \<open>Receiving segments\<close>

text \<open>\<open>BundleProtocol::consume\<close> returns for all arguments (theory Consume\<open>_\<close>Progress).\<close>

definition consume_bytes :: "dtn_bundle \<Rightarrow> byte list \<Rightarrow> (int \<times> bool \<times> dtn_bundle) outcome" where
  "consume_bytes b bs = the (bundle_consume b bs)"

text \<open>The incoming bundle that is read is the last of the list.\<close>

definition set_last_incoming :: "incoming_bundle \<Rightarrow> connection \<Rightarrow> connection" where
  "set_last_incoming x c = c\<lparr>c_incoming := butlast (c_incoming c) @ [x]\<rparr>"

definition check_received :: "incoming_bundle \<Rightarrow> connection \<Rightarrow> connection outcome" where
  "check_received x c =
     (let rcvd_len = bm_num_contiguous (in_rcvd_data x);
          formatted_len = of_nat (total_length (b_recv_blocks (in_bundle x))) :: u32
      in if in_total_length x = 0 then Done c
         else if rcvd_len < in_total_length x then Done c
         else if rcvd_len > in_total_length x \<or> in_total_length x \<noteq> formatted_len
         then break_contact CR_CL_ERROR (set_last_incoming (x\<lparr>in_rcvd_data := []\<rparr>) c)
         else Done (post_event (BundleReceived (in_bundle x) (in_total_length x)) c))"

definition handle_data_todo :: "connection \<Rightarrow> (bool \<times> connection) outcome" where
  "handle_data_todo c =
     assert_that (c_incoming c \<noteq> []) (assert_that (c_recv_todo c \<noteq> 0)
      (let x = last (c_incoming c); rcvd_offset = bm_num_contiguous (in_rcvd_data x);
           rcvd_len = fullbytes (c_recvbuf c); chunk_len = min rcvd_len (c_recv_todo c)
       in if rcvd_len = 0 then Done (False, c)
          else bind_outcome (consume_bytes (in_bundle x) (take chunk_len (sb_data (c_recvbuf c)))) (\<lambda>(cc, _, b').
            let x1 = x\<lparr>in_bundle := b'\<rparr>
            in if cc < 0
               then bind_outcome (break_contact CR_CL_ERROR (set_last_incoming x1 c)) (\<lambda>c1. Done (False, c1))
               else assert_that (cc = int chunk_len)
                 (bind_outcome (consume_recv chunk_len c) (\<lambda>c1.
                    bind_outcome (bm_set rcvd_offset (of_nat chunk_len) (in_rcvd_data x1)) (\<lambda>m.
                      let x2 = x1\<lparr>in_rcvd_data := m\<rparr>;
                          c2 = set_last_incoming x2 (c1\<lparr>c_recv_todo := c_recv_todo c - chunk_len\<rparr>)
                      in if c_recv_todo c2 = 0 then bind_outcome (check_received x2 c2) (\<lambda>c3. Done (True, c3))
                         else Done (False, c2)))))))"

text \<open>
  Which incoming bundle a segment with the start flag belongs to: \<open>None\<close> is the protocol
  error that the previous bundle is not complete.
\<close>

definition open_incoming :: "byte \<Rightarrow> connection \<Rightarrow> connection option" where
  "open_incoming flags c =
     (if flags AND BUNDLE_START \<noteq> 0
      then let create = c\<lparr>c_incoming := c_incoming c @ [new_incoming (c_fresh c (c_count c))], c_count := Suc (c_count c)\<rparr>
           in if c_incoming c = [] then Some create
              else let x = last (c_incoming c)
                   in if in_rcvd_data x = [] \<and> in_ack_data x = [] then Some c
                      else if in_total_length x = 0 then None else Some create
      else if c_incoming c = [] then None else Some c)"

definition handle_data_segment :: "byte \<Rightarrow> connection \<Rightarrow> (bool \<times> connection) outcome" where
  "handle_data_segment flags c =
     (case open_incoming flags c of
        None \<Rightarrow> bind_outcome (break_contact CR_CL_ERROR c) (\<lambda>c1. Done (False, c1))
      | Some c1 \<Rightarrow>
          (case sdnv_decode32 (drop 1 (sb_data (c_recvbuf c1))) of (n, val) \<Rightarrow>
             if n < 0 then Done (False, c1)
             else let segment_len = the val
                  in bind_outcome (consume_recv (1 + nat n) c1) (\<lambda>c2.
                    if segment_len = 0 then bind_outcome (break_contact CR_CL_ERROR c2) (\<lambda>c3. Done (False, c3))
                    else let x = last (c_incoming c2); offset = bm_num_contiguous (in_rcvd_data x)
                         in bind_outcome (bm_set (offset + segment_len - 1) 1 (in_ack_data x)) (\<lambda>m.
                              let x1 = x\<lparr>in_ack_data := m\<rparr>;
                                  x2 = (if flags AND BUNDLE_END \<noteq> 0 then x1\<lparr>in_total_length := offset + segment_len\<rparr> else x1)
                              in handle_data_todo ((set_last_incoming x2 c2)\<lparr>c_recv_todo := unat segment_len\<rparr>)))))"

definition ack_begin :: "bitmap \<Rightarrow> nat outcome" where
  "ack_begin b =
     (if b = [] then Done 0
      else bind_outcome (iter_skip_contiguous b (iter_begin b)) (\<lambda>i. bind_outcome (iter_deref b i) (\<lambda>l. Done (unat (l + 1)))))"

definition handle_ack_segment :: "byte \<Rightarrow> connection \<Rightarrow> (bool \<times> connection) outcome" where
  "handle_ack_segment flags c =
     (case sdnv_decode32 (drop 1 (sb_data (c_recvbuf c))) of (n, val) \<Rightarrow>
        if n < 0 then Done (False, c)
        else let acked_len = the val
             in bind_outcome (consume_recv (1 + nat n) c) (\<lambda>c1.
               case c_in_flight c1 of
                 [] \<Rightarrow> bind_outcome (break_contact CR_CL_ERROR c1) (\<lambda>c2. Done (False, c2))
               | x # _ \<Rightarrow>
                   bind_outcome (ack_begin (if_ack_data x)) (\<lambda>begin_len.
                     if unat acked_len < begin_len
                     then bind_outcome (break_contact CR_CL_ERROR c1) (\<lambda>c2. Done (False, c2))
                     else bind_outcome (bm_set 0 acked_len (if_ack_data x)) (\<lambda>m.
                       let x1 = x\<lparr>if_ack_data := m\<rparr>
                       in if acked_len = if_total_length x1
                          then let x2 = x1\<lparr>if_transmit_event_posted := True\<rparr>;
                                   c2 = post_event (BundleTransmitted (if_bundle x2) (bm_num_contiguous (if_sent_data x2))
                                                     (bm_num_contiguous (if_ack_data x2))) (set_in_flight x2 c1)
                               in bind_outcome (check_sent (if_id x2) c2) (\<lambda>c3. Done (True, c3))
                          else Done (True, set_in_flight x1 c1)))))"

definition handle_refuse_bundle :: "byte \<Rightarrow> connection \<Rightarrow> (bool \<times> connection) outcome" where
  "handle_refuse_bundle flags c = bind_outcome (break_contact CR_CL_ERROR c) (\<lambda>c1. Done (True, c1))"

definition handle_keepalive :: "byte \<Rightarrow> connection \<Rightarrow> (bool \<times> connection) outcome" where
  "handle_keepalive flags c = bind_outcome (consume_recv 1 c) (\<lambda>c1. Done (True, c1))"

text \<open>The reason code and the delay of a shutdown message are only logged.\<close>

definition handle_shutdown :: "byte \<Rightarrow> connection \<Rightarrow> (bool \<times> connection) outcome" where
  "handle_shutdown flags c =
     (let reason_len = (if flags AND SHUTDOWN_HAS_REASON \<noteq> 0 then 1 else 0);
          delay_len = (if flags AND SHUTDOWN_HAS_DELAY \<noteq> 0 then 2 else 0)
      in if fullbytes (c_recvbuf c) < 1 + reason_len + delay_len then Done (False, c)
         else bind_outcome (consume_recv 1 c) (\<lambda>c1. bind_outcome (consume_recv reason_len c1) (\<lambda>c2.
              bind_outcome (consume_recv delay_len c2) (\<lambda>c3.
              bind_outcome (break_contact CR_SHUTDOWN c3) (\<lambda>c4. Done (False, c4))))))"

section \<open>Dispatching messages\<close>

definition handle_message :: "connection \<Rightarrow> (bool \<times> connection) outcome" where
  "handle_message c =
     (let x = hd (sb_data (c_recvbuf c)); type = x AND 0xf0; flags = x AND 0x0f
      in if type = DATA_SEGMENT then handle_data_segment flags c
         else if type = ACK_SEGMENT then handle_ack_segment flags c
         else if type = REFUSE_BUNDLE then handle_refuse_bundle flags c
         else if type = KEEPALIVE then handle_keepalive flags c
         else if type = SHUTDOWN then handle_shutdown flags c
         else bind_outcome (break_contact CR_CL_ERROR c) (\<lambda>c1. Done (False, c1)))"

text \<open>Room for more data after an incomplete message; not when the message type was invalid.\<close>

definition make_room :: "connection \<Rightarrow> connection outcome" where
  "make_room c =
     (if fullbytes (c_recvbuf c) = sb_size (c_recvbuf c)
      then bind_outcome (sb_reserve (sb_size (c_recvbuf c) * 2) (c_recvbuf c)) (\<lambda>s. Done (c\<lparr>c_recvbuf := s\<rparr>))
      else if tailbytes (c_recvbuf c) = 0
      then bind_outcome (sb_reserve (sb_size (c_recvbuf c) - fullbytes (c_recvbuf c)) (c_recvbuf c))
             (\<lambda>s. assert_that (tailbytes s \<noteq> 0) (Done (c\<lparr>c_recvbuf := s\<rparr>)))
      else Done c)"

definition valid_type :: "connection \<Rightarrow> bool" where
  "valid_type c \<longleftrightarrow> hd (sb_data (c_recvbuf c)) AND 0xf0 \<in> {DATA_SEGMENT, ACK_SEGMENT, REFUSE_BUNDLE, KEEPALIVE, SHUTDOWN}"

partial_function (option) process_messages :: "connection \<Rightarrow> connection outcome option" where
  "process_messages c =
     (if fullbytes (c_recvbuf c) = 0 \<or> c_broken c then Some (Done c)
      else case handle_message c of
             Panic \<Rightarrow> Some Panic
           | Done r \<Rightarrow>
               if fst r then process_messages (snd r)
               else if valid_type c then Some (make_room (snd r)) else Some (Done (snd r)))"

text \<open>
  The contact header, the peer's identifier and the negotiation of parameters. Whether a link
  is found or made for the peer is an argument; the length of the identifier is checked in
  64 bits, where the sum can wrap around, and an identifier that is read behind the buffer is
  undefined.
\<close>

definition negotiate :: "byte \<Rightarrow> u32 \<Rightarrow> stream_params \<Rightarrow> stream_params" where
  "negotiate flags keepalive p =
     p\<lparr>sp_keepalive := min (sp_keepalive p) keepalive,
       sp_segment_ack := sp_segment_ack p \<and> flags AND SEGMENT_ACK_ENABLED \<noteq> 0,
       sp_reactive_frag := sp_reactive_frag p \<and> flags AND REACTIVE_FRAG_ENABLED \<noteq> 0,
       sp_negative_ack := sp_negative_ack p \<and> flags AND NEGATIVE_ACK_ENABLED \<noteq> 0\<rparr>"

definition negotiated_timeout :: "stream_params \<Rightarrow> u32 \<Rightarrow> u32" where
  "negotiated_timeout p old =
     (if sp_keepalive p \<noteq> 0 \<and> sp_keepalive p * 1000 < sp_data_timeout p then sp_keepalive p * 1000 else old)"

definition string_of_bytes :: "byte list \<Rightarrow> string" where
  "string_of_bytes bs = map (\<lambda>b. char_of (unat b)) bs"

definition meet_peer :: "bool \<Rightarrow> endpoint_id \<Rightarrow> nat \<Rightarrow> connection \<Rightarrow> connection outcome" where
  "meet_peer link_found peer_eid peer_eid_len c =
     (if \<not> link_found \<and> \<not> c_has_contact c then break_contact CR_CL_ERROR c
      else let c1 = c\<lparr>c_has_contact := True\<rparr>
           in bind_outcome (consume_recv peer_eid_len c1) (\<lambda>c2.
              bind_outcome NULL_EID (\<lambda>null.
              let c3 = (if eid_str (c_remote_eid c2) = eid_str null then c2\<lparr>c_remote_eid := peer_eid\<rparr> else c2)
              in assert_that (\<not> c_contact_up c3) (Done (post_event ContactUp (c3\<lparr>c_contact_up := True\<rparr>))))))"

definition handle_contact_initiation :: "bool \<Rightarrow> connection \<Rightarrow> connection outcome" where
  "handle_contact_initiation link_found c =
     (let bs = sb_data (c_recvbuf c)
      in assert_that (\<not> c_contact_up c)
       (if length bs < 4 then Done c
        else if take 4 bs \<noteq> MAGIC then break_contact CR_CL_ERROR c
        else if length bs < 8 then Done c
        else case sdnv_decode (drop 8 bs) of (n, peer_eid_len) \<Rightarrow>
          if n < 0 then Done c
          else if length bs < unat (8 + of_int n + peer_eid_len) then Done c
          else bind_outcome (consume_recv 8 c) (\<lambda>c1.
            if bs ! 4 < c_version c1 then break_contact CR_CL_VERSION c1
            else let p = negotiate (bs ! 5) (push_bit 8 (ucast (bs ! 6)) OR ucast (bs ! 7)) (c_params c1);
                     c2 = c1\<lparr>c_params := p, c_poll_timeout := negotiated_timeout p (c_poll_timeout c1)\<rparr>
                 in bind_outcome (consume_recv (nat n) c2) (\<lambda>c3.
                    assert_that (unat peer_eid_len \<le> fullbytes (c_recvbuf c3))
                     (bind_outcome (eid_assign (string_of_bytes (take (unat peer_eid_len) (sb_data (c_recvbuf c3)))) empty_eid)
                      (\<lambda>e. if \<not> eid_valid e then break_contact CR_CL_ERROR c3
                           else meet_peer link_found e (unat peer_eid_len) c3))))))"

definition process_data :: "bool \<Rightarrow> connection \<Rightarrow> connection outcome option" where
  "process_data link_found c =
     (if fullbytes (c_recvbuf c) = 0 then Some (Done c)
      else let c1 = note_data_rcvd c
           in if \<not> c_contact_up c1 then Some (handle_contact_initiation link_found c1)
              else if c_recv_todo c1 \<noteq> 0
              then (case handle_data_todo c1 of
                      Panic \<Rightarrow> Some Panic
                    | Done (ok, c2) \<Rightarrow> if ok then process_messages c2 else Some (Done c2))
              else process_messages c1)"

section \<open>Starting the contact, keepalives and commands\<close>

definition bytes_of_string :: "string \<Rightarrow> byte list" where
  "bytes_of_string s = map (\<lambda>c. of_nat (of_char c)) s"

definition contact_header :: "byte \<Rightarrow> stream_params \<Rightarrow> byte list" where
  "contact_header version p =
     MAGIC @ [version, (if sp_segment_ack p then SEGMENT_ACK_ENABLED else 0) OR (if sp_reactive_frag p then REACTIVE_FRAG_ENABLED else 0)]
     @ [ucast (drop_bit 8 (sp_keepalive p)), ucast (sp_keepalive p)]"

definition reserve_send :: "nat \<Rightarrow> connection \<Rightarrow> connection outcome" where
  "reserve_send n c =
     (if tailbytes (c_sendbuf c) < n then bind_outcome (sb_reserve n (c_sendbuf c)) (\<lambda>s. Done (c\<lparr>c_sendbuf := s\<rparr>)) else Done c)"

definition initiate_contact :: "string \<Rightarrow> connection \<Rightarrow> connection outcome" where
  "initiate_contact local_eid c =
     (let eid_bytes = bytes_of_string local_eid; len_bytes = sdnv_bytes (of_nat (length eid_bytes))
      in assert_that (fullbytes (c_sendbuf c) = 0)
       (bind_outcome (reserve_send 8 c) (\<lambda>c1.
        bind_outcome (fill_send (contact_header (c_version c) (c_params c)) c1) (\<lambda>c2.
        bind_outcome (reserve_send (length len_bytes + length eid_bytes) c2) (\<lambda>c3.
        bind_outcome (fill_send len_bytes c3) (\<lambda>c4.
        bind_outcome (fill_send eid_bytes c4) (\<lambda>c5.
        bind_outcome (send_data (note_data_sent c5)) (\<lambda>c6.
          Done (c6\<lparr>c_data_rcvd := c_now c6, c_data_sent := c_now c6, c_keepalive_sent := c_now c6, c_initiated := True\<rparr>)))))))))"

definition send_keepalive :: "connection \<Rightarrow> connection outcome" where
  "send_keepalive c =
     (if fullbytes (c_sendbuf c) \<noteq> 0 then Done c
      else assert_that (tailbytes (c_sendbuf c) > 0) (assert_that (c_send_todo c = 0)
       (bind_outcome (fill_send [KEEPALIVE] (c\<lparr>c_keepalive_sent := c_now c\<rparr>)) send_data)))"

definition elapsed :: "nat \<Rightarrow> connection \<Rightarrow> u32" where
  "elapsed since c = of_nat (c_now c - since)"

definition check_keepalive :: "connection \<Rightarrow> connection outcome" where
  "check_keepalive c =
     (if sp_keepalive (c_params c) \<noteq> 0 \<and>
         min (elapsed (c_data_sent c) c) (elapsed (c_keepalive_sent c) c) > sp_keepalive (c_params c) * 1000 - 500 \<and>
         c_send_todo c = 0
      then send_keepalive c else Done c)"

text \<open>The idle time after which an on-demand link is closed, in seconds, is an argument; 0 for other links.\<close>

definition handle_poll_timeout :: "bool \<Rightarrow> u32 \<Rightarrow> connection \<Rightarrow> connection outcome" where
  "handle_poll_timeout shutting_down idle_close_time c =
     (if shutting_down \<or> \<not> c_initiated c then Done c
      else if sp_keepalive (c_params c) > 0 \<and> elapsed (c_data_rcvd c) c > sp_data_timeout (c_params c)
      then break_contact CR_BROKEN c
      else if \<not> c_has_contact c then Done c
      else if idle_close_time \<noteq> 0 \<and> elapsed (c_data_rcvd c) c > idle_close_time * 1000 \<and>
              elapsed (c_data_sent c) c > idle_close_time * 1000
      then break_contact CR_IDLE c
      else check_keepalive c)"

text \<open>Cancelling a bundle, by its identifier, when none of its data has been sent.\<close>

fun cancel_in :: "dtn_bundle \<Rightarrow> in_flight list \<Rightarrow> in_flight option" where
  "cancel_in b [] = None"
| "cancel_in b (x # xs) = (if b_bundleid (if_bundle x) = b_bundleid b then Some x else cancel_in b xs)"

definition handle_cancel_bundle :: "dtn_bundle \<Rightarrow> connection \<Rightarrow> connection" where
  "handle_cancel_bundle b c =
     (case cancel_in b (c_in_flight c) of
        None \<Rightarrow> c
      | Some x \<Rightarrow>
          if if_sent_data x \<noteq> [] then c
          else if c_current c = Some (if_id x) \<and> c_send_todo c \<noteq> 0 then c
          else let c1 = (if c_current c = Some (if_id x) then c\<lparr>c_current := None\<rparr> else c)
               in post_event (SendCancelled b) (c1\<lparr>c_in_flight := filter (\<lambda>y. if_id y \<noteq> if_id x) (c_in_flight c1)\<rparr>))"

datatype cl_command = BUNDLES_QUEUED | CANCEL_BUNDLE dtn_bundle | BREAK_CONTACT

fun process_command :: "cl_command \<Rightarrow> connection \<Rightarrow> connection outcome" where
  "process_command BUNDLES_QUEUED c = Done c"
| "process_command (CANCEL_BUNDLE b) c = Done (handle_cancel_bundle b c)"
| "process_command BREAK_CONTACT c = break_contact CR_USER c"

end
