(* ===== verification/Stream_Thread.thy ===== *)
theory Stream_Thread
  imports Stream_Layer
begin

text \<open>
  The thread of a connection (\<open>CLConnection::run\<close>, the poll handler of
  \<open>TCPConvergenceLayer.cc\<close>) and what happens to unfinished bundles when the contact is closed
  (\<open>ConnectionConvergenceLayer::close_contact\<close>). What \<open>poll\<close> and the socket return is an argument.
\<close>

section \<open>Reading from the socket\<close>

definition new_stream_buffer :: "nat \<Rightarrow> stream_buffer outcome" where
  "new_stream_buffer n = sb_reserve n \<lparr>sb_start = 0, sb_data = [], sb_size = 512\<rparr>"

text \<open>The bytes that the socket has; none when the peer has closed it, or on an error.\<close>

definition recv_data :: "byte list \<Rightarrow> connection \<Rightarrow> connection outcome" where
  "recv_data bs c =
     assert_that (\<not> c_broken c)
      (if tailbytes (c_recvbuf c) = 0 then Done c
       else let toread = (if sp_test_read_limit (c_params c) \<noteq> 0
                          then min (tailbytes (c_recvbuf c)) (unat (sp_test_read_limit (c_params c)))
                          else tailbytes (c_recvbuf c))
            in if bs = [] then break_contact CR_BROKEN c
               else bind_outcome (sb_fill (take toread bs) (c_recvbuf c)) (\<lambda>s. Done (c\<lparr>c_recvbuf := s\<rparr>)))"

text \<open>
  The events that \<open>poll\<close> reports for the socket; a connect that was pending, and whether it
  succeeded; the bytes that have arrived.
\<close>

record poll_events =
  pe_hup :: bool
  pe_err :: bool
  pe_out :: bool
  pe_in :: bool
  pe_connecting :: "bool option"
  pe_bytes :: "byte list"

definition write_ready :: "string \<Rightarrow> poll_events \<Rightarrow> connection \<Rightarrow> (bool \<times> connection) outcome" where
  "write_ready local_eid e c =
     (if \<not> pe_out e then Done (True, c)
      else case pe_connecting e of
             Some ok \<Rightarrow>
               bind_outcome (if ok \<and> fullbytes (c_sendbuf c) = 0 then initiate_contact local_eid c else break_contact CR_BROKEN c)
                 (\<lambda>c1. Done (False, c1))
           | None \<Rightarrow> bind_outcome (send_data c) (\<lambda>c1. Done (True, c1)))"

definition read_ready :: "bool \<Rightarrow> poll_events \<Rightarrow> connection \<Rightarrow> connection outcome option" where
  "read_ready link_found e c =
     (if \<not> pe_in e then Some (Done c)
      else case recv_data (pe_bytes e) c of
             Panic \<Rightarrow> Some Panic
           | Done c1 \<Rightarrow> map_option (\<lambda>r. bind_outcome r (\<lambda>c2.
                          if c_contact_up c2 \<and> \<not> c_broken c2 then check_keepalive c2 else Done c2))
                        (process_data link_found c1))"

definition handle_poll_activity :: "string \<Rightarrow> bool \<Rightarrow> poll_events \<Rightarrow> connection \<Rightarrow> connection outcome option" where
  "handle_poll_activity local_eid link_found e c =
     (if pe_hup e \<or> pe_err e then Some (break_contact CR_BROKEN c)
      else case write_ready local_eid e c of
             Panic \<Rightarrow> Some Panic
           | Done (go_on, c1) \<Rightarrow> if \<not> go_on \<or> c_broken c1 then Some (Done c1) else read_ready link_found e c1)"

section \<open>One round of the thread\<close>

datatype poll_result = PollTimeout | PollCommand | PollActivity poll_events | PollFailed

record conn_thread =
  th_conn :: connection
  th_commands :: "cl_command list"
  th_next_write :: nat

text \<open>What the daemon knows: its endpoint, whether it shuts down, the idle time of the link, the link of the peer.\<close>

record thread_env =
  te_local_eid :: string
  te_shutting_down :: bool
  te_idle_close_time :: u32
  te_link_found :: bool

text \<open>The time of the next write, 0 for none, and the time that \<open>poll\<close> waits.\<close>

definition next_write_time :: "connection \<Rightarrow> bool \<Rightarrow> nat \<Rightarrow> nat" where
  "next_write_time c more_to_send next_write =
     (if sp_test_write_delay (c_params c) = 0 \<or> c_now c < next_write then next_write
      else if more_to_send then c_now c + unat (sp_test_write_delay (c_params c)) else 0)"

definition poll_wait :: "connection \<Rightarrow> bool \<Rightarrow> nat \<Rightarrow> u32" where
  "poll_wait c more_to_send next_write =
     (if sp_test_write_delay (c_params c) = 0 then (if more_to_send then 0 else c_poll_timeout c)
      else if next_write \<noteq> 0 then min (c_poll_timeout c) (of_nat (next_write - c_now c))
      else c_poll_timeout c)"

definition after_poll :: "thread_env \<Rightarrow> poll_result \<Rightarrow> connection \<Rightarrow> connection outcome option" where
  "after_poll env r c =
     (case r of
        PollTimeout \<Rightarrow> Some (handle_poll_timeout (te_shutting_down env) (te_idle_close_time env) c)
      | PollCommand \<Rightarrow> Some (Done c)
      | PollActivity e \<Rightarrow> handle_poll_activity (te_local_eid env) (te_link_found env) e c
      | PollFailed \<Rightarrow> Some (break_contact CR_BROKEN c))"

text \<open>\<open>poll\<close> is a function of the time that it may wait. The thread ends when the contact is broken.\<close>

definition thread_round ::
    "thread_env \<Rightarrow> (u32 \<Rightarrow> poll_result) \<Rightarrow> conn_thread \<Rightarrow> (bool \<times> conn_thread) outcome option" where
  "thread_round env poll t =
     (let c = th_conn t
      in if c_broken c then Some (Done (False, t))
         else case th_commands t of
                cmd # rest \<Rightarrow>
                  Some (bind_outcome (process_command cmd c) (\<lambda>c1. Done (True, t\<lparr>th_conn := c1, th_commands := rest\<rparr>)))
              | [] \<Rightarrow>
                  (let due = (sp_test_write_delay (c_params c) = 0 \<or> th_next_write t \<le> c_now c)
                   in case (if due then send_pending_data c else Some (Done (False, c))) of
                        None \<Rightarrow> None
                      | Some Panic \<Rightarrow> Some Panic
                      | Some (Done (more_to_send, c1)) \<Rightarrow>
                          (let next = next_write_time c more_to_send (th_next_write t);
                               t1 = t\<lparr>th_conn := c1, th_next_write := next\<rparr>
                           in if c_broken c1 then Some (Done (False, t1))
                              else map_option (\<lambda>r. bind_outcome r (\<lambda>c2. Done (True, t1\<lparr>th_conn := c2\<rparr>)))
                                     (after_poll env (poll (poll_wait c more_to_send next)) c1))))"

section \<open>Closing the contact\<close>

text \<open>
  What is left of the bundles in flight: a bundle of which nothing has arrived goes back to
  the queue of the link when it was still in flight there; for another its partial
  transmission is reported.
\<close>

definition close_in_flight :: "bool \<Rightarrow> (dtn_bundle \<Rightarrow> bool) \<Rightarrow> in_flight \<Rightarrow> connection \<Rightarrow> connection" where
  "close_in_flight reliable on_link x c =
     (let sent_bytes = bm_num_contiguous (if_sent_data x); acked_bytes = bm_num_contiguous (if_ack_data x)
      in if \<not> sp_reactive_frag (c_params c) \<or> sent_bytes = 0 \<or> (reliable \<and> acked_bytes = 0)
         then if on_link (if_bundle x) then c\<lparr>c_queue := c_queue c @ [(if_bundle x, if_blocks x)]\<rparr> else c
         else if \<not> if_transmit_event_posted x then post_event (BundleTransmitted (if_bundle x) sent_bytes acked_bytes) c
         else c)"

definition close_incoming :: "connection \<Rightarrow> connection outcome" where
  "close_incoming c =
     (if c_incoming c = [] then Done c
      else let x = last (c_incoming c)
           in if in_rcvd_data x = [] then Done c
              else bind_outcome (bm_last (in_rcvd_data x)) (\<lambda>l.
                   bind_outcome (payload_offset (b_recv_blocks (in_bundle x))) (\<lambda>header_block_length.
                     let rcvd_len = unat (l + 1)
                     in if in_total_length x = 0 \<and> sp_reactive_frag (c_params c) \<and> rcvd_len > header_block_length
                        then Done (post_event (BundleReceived (in_bundle x) (of_nat rcvd_len)) c)
                        else Done c)))"

definition close_contact :: "bool \<Rightarrow> (dtn_bundle \<Rightarrow> bool) \<Rightarrow> conn_thread \<Rightarrow> conn_thread outcome" where
  "close_contact reliable on_link t =
     bind_outcome (close_incoming ((fold (close_in_flight reliable on_link) (c_in_flight (th_conn t)) (th_conn t))\<lparr>c_in_flight := []\<rparr>))
       (\<lambda>c. Done (t\<lparr>th_conn := c\<lparr>c_incoming := []\<rparr>, th_commands := []\<rparr>))"

end
