(* ===== verification/Stream_Reception.thy ===== *)
theory Stream_Reception
  imports Stream_Thread
begin

text \<open>
  What a connection receives: however the bytes of the segments of a bundle arrive, the bundle
  is put together and reported once, when its last byte is there.
\<close>

section \<open>Reading a bundle piece by piece\<close>

text \<open>The state of a bundle object after the prefix \<open>p\<close> of the bytes of the bundle \<open>b\<close>.\<close>

definition reading :: "dtn_bundle \<Rightarrow> byte list \<Rightarrow> byte list \<Rightarrow> dtn_bundle \<Rightarrow> bool" where
  "reading b img p st \<longleftrightarrow>
     payload_ok (b_payload b) \<and>
     (\<exists>d vs r. sent_with b d vs \<and> img = wire_image b d vs \<and> blank_bundle r \<and> payload_ok (b_payload r) \<and>
        pl_bytes (b_payload r) = [] \<and> receiving b d vs r p (first_block st)) \<and>
     (p \<noteq> [] \<longrightarrow> first_block st = st)"

lemma reading_Nil: "sent_with b d vs \<Longrightarrow> payload_ok (b_payload b) \<Longrightarrow> awaiting r \<Longrightarrow> reading b (wire_image b d vs) [] r"
  using receiving_Nil unfolding reading_def awaiting_def by blast

lemma consume_reading:
  assumes "reading b img p st" and "p @ c @ rest = img @ later" and "length p < length img"
  shows "\<exists>st'. consume_bytes st c = Done (int (min (length c) (length img - length p)), length img \<le> length p + length c, st') \<and>
    reading b img (p @ take (length img - length p) c) st'"
proof -
  obtain d vs r where r: "payload_ok (b_payload b)" "sent_with b d vs" "img = wire_image b d vs" "blank_bundle r"
      "payload_ok (b_payload r)" "pl_bytes (b_payload r) = []" "receiving b d vs r p (first_block st)"
    using assms(1) unfolding reading_def by blast
  obtain st' where st': "bundle_consume st c =
      Some (Done (int (min (length c) (length img - length p)), length img \<le> length p + length c, st'))"
      "receiving b d vs r (p @ take (length img - length p) c) st'"
    using consume_step [OF r(2,1,4-6) _ _ r(7), of c rest later] assms(2,3) unfolding r(3) by blast
  have "reading b img (p @ take (length img - length p) c) st'"
    using r st'(2) first_block_receiving [OF st'(2)] unfolding reading_def by metis
  then show ?thesis using st'(1) by (auto simp: consume_bytes_def)
qed

lemma reading_step:
  assumes "reading b img p st" and "p @ c @ rest = img" and "c \<noteq> []"
  shows "\<exists>st' l. consume_bytes st c = Done (int (length c), l, st') \<and> reading b img (p @ c) st'"
proof -
  have len: "length p + length c \<le> length img" using assms(2) by auto
  have "length p < length img" using len assms(3) by (cases c) auto
  then show ?thesis using consume_reading [OF assms(1), of c rest "[]"] assms(2) len by auto
qed

lemma full_length_block_after:
  assumes "length pre \<le> length p" and "length pre + n < 2 ^ 32"
  shows "unat (full_length (block_after owner pre n p c)) = length pre + n"
  by (rule full_length_eq) (use assms in \<open>simp_all add: full_length_def block_after_def Let_def\<close>)

lemma reading_done:
  assumes "reading b img img st"
  shows "total_length (b_recv_blocks st) = length img"
    and "eids_parse_back b \<Longrightarrow> b_priority b < 4 \<Longrightarrow> same_contents b st"
proof -
  obtain d vs r where r: "payload_ok (b_payload b)" "sent_with b d vs" "img = wire_image b d vs" "blank_bundle r"
      "payload_ok (b_payload r)" "pl_bytes (b_payload r) = []" "receiving b d vs r img st"
    using assms wire_image_longer unfolding reading_def by (metis list.size(3) not_less_zero)
  show "same_contents b st" if "eids_parse_back b" "b_priority b < 4"
    using received_same_contents [OF r(7) [unfolded r(3)] that] .
  let ?P = "primary_image b d vs"
  have sz: "length ?P < 2 ^ 32" "length (payload_preamble b) + pl_length (b_payload b) < 2 ^ 32"
    using r(2) by (simp_all add: sent_with_def)
  obtain s pl where s: "img = ?P @ s" "st = set_recv_blocks (primary_after b d vs ?P True # received_payload_block b s)
      (with_primary_of b d r)\<lparr>b_payload := pl\<rparr>"
    using r(7) wire_image_longer [of b d vs] unfolding receiving_def r(3) by (auto simp del: append.assoc)
  have s_eq: "s = payload_preamble b @ pl_bytes (b_payload b)" using s(1) r(3) by (simp add: wire_image_def)
  have blocks: "biv_blocks (b_recv_blocks st) = [primary_after b d vs ?P True,
      payload_after b (take (length (payload_preamble b)) s) True]"
    using payload_preamble_length(1) [of b] length_pl_bytes [OF r(1)]
    by (auto simp: s(2) set_recv_blocks_def received_payload_block_def s_eq)
  have "unat (full_length (primary_after b d vs ?P True)) = length ?P"
    using sz(1) unfolding primary_after_def primary_image_parts length_append
    by (intro full_length_block_after) simp_all
  moreover have "unat (full_length (payload_after b (take (length (payload_preamble b)) s) True)) = length s"
    using sz(2) length_pl_bytes [OF r(1)] unfolding payload_after_def s_eq length_append
    by (subst full_length_block_after) simp_all
  ultimately show "total_length (b_recv_blocks st) = length img"
    by (simp add: total_length_def blocks s(1))
qed

section \<open>Bitmaps of what has been received\<close>

lemma bm_inv_empty: "bm_inv b \<Longrightarrow> bm_bits b = {} \<longleftrightarrow> b = []"
  using good_range_unat by (cases b) (auto simp: bm_inv_Cons)

lemma bm_prefix:
  assumes "bm_inv b" and "bm_bits b = {..<n}" and "n < 2 ^ 32"
  shows "bm_num_contiguous b = of_nat n"
proof (cases b)
  case Nil
  then have "n = 0" using assms(2) by (cases n) auto
  then show ?thesis using Nil by (simp add: bm_num_contiguous_def)
next
  case (Cons r b')
  have inv: "good_range r" "\<forall>q \<in> set b'. apart r q" "bm_inv b'" using assms(1) by (auto simp: Cons bm_inv_Cons list_all_iff)
  have bits: "{lo r .. hi r} \<union> bm_bits b' = {..<n}" using assms(2) by (simp add: Cons)
  have le: "lo r \<le> hi r" using good_range_unat [OF inv(1)] .
  have above: "hi r + 1 < m" if "m \<in> bm_bits b'" for m using that inv(2) unfolding bm_bits_def apart_def by force
  then have top: "hi r + 1 \<notin> bm_bits b'" by blast
  then have "hi r + 1 \<notin> {lo r .. hi r} \<union> bm_bits b'" by simp
  then have "n \<le> hi r + 1" unfolding bits by simp
  moreover have "hi r \<in> {..<n}" unfolding bits [symmetric] using le by simp
  ultimately have n: "hi r + 1 = n" by simp
  have "0 \<in> {lo r .. hi r} \<union> bm_bits b'" unfolding bits n [symmetric] by simp
  then have "lo r = 0" using above [of 0] by (cases "0 \<in> bm_bits b'") simp_all
  then have "r_start r = 0" by (simp add: unat_eq_zero)
  then have "bm_num_contiguous b = of_nat (hi r) + 1" by (simp add: Cons bm_num_contiguous_def)
  then show ?thesis using n by (metis of_nat_1 of_nat_add)
qed

lemma bm_set_behind:
  assumes "bm_inv b" and "bm_bits b \<subseteq> {..<unat s}" and "len \<noteq> 0" and "unat s + unat len < 2 ^ 32"
  shows "\<exists>b'. bm_set s len b = Done b' \<and> bm_inv b' \<and> bm_bits b' = bm_bits b \<union> {unat s ..< unat s + unat len}"
  using bm_set_ok [OF assms(1,3,4)] assms(1,2) bm_inv_empty [OF assms(1)] by (cases "s = 0") auto

section \<open>Segments on the wire\<close>

definition frame :: "bool \<Rightarrow> bool \<Rightarrow> byte list \<Rightarrow> byte list" where
  "frame first final seg =
     (DATA_SEGMENT OR (if first then BUNDLE_START else 0) OR (if final then BUNDLE_END else 0))
     # sdnv_bytes (of_nat (length seg)) @ seg"

fun frames :: "bool \<Rightarrow> byte list list \<Rightarrow> byte list" where
  "frames first [] = []"
| "frames first (seg # segs) = frame first (segs = []) seg @ frames False segs"

text \<open>A bundle to send: the bundle, the bytes of its blocks, and the segments they are cut into.\<close>

type_synonym sending = "dtn_bundle \<times> byte list \<times> byte list list"

definition sending_ok :: "sending \<Rightarrow> bool" where
  "sending_ok = (\<lambda>(b, img, segs).
     (\<exists>d vs. sent_with b d vs \<and> img = wire_image b d vs) \<and> payload_ok (b_payload b) \<and> eids_parse_back b \<and> b_priority b < 4 \<and>
     concat segs = img \<and> [] \<notin> set segs \<and> length img < 2 ^ 32)"

definition wire_of :: "sending list \<Rightarrow> byte list" where
  "wire_of ss = concat (map (\<lambda>(b, img, segs). frames True segs) ss)"

lemma frame_flags:
  "hd (frame first final seg) AND 0xf0 = DATA_SEGMENT"
  "(hd (frame first final seg) AND 0x0f) AND BUNDLE_START \<noteq> 0 \<longleftrightarrow> first"
  "(hd (frame first final seg) AND 0x0f) AND BUNDLE_END \<noteq> 0 \<longleftrightarrow> final"
  by (simp_all add: frame_def)

lemma wire_of_simps [simp]: "wire_of [] = []" "wire_of ((b, img, segs) # ss) = frames True segs @ wire_of ss"
  by (simp_all add: wire_of_def)

lemma sending_ok_not_Nil: "sending_ok (b, img, segs) \<Longrightarrow> img \<noteq> [] \<and> segs \<noteq> []"
proof -
  assume "sending_ok (b, img, segs)"
  then obtain d vs where "img = wire_image b d vs" "concat segs = img" by (auto simp: sending_ok_def)
  moreover have "wire_image b d vs \<noteq> []" using wire_image_longer [of b d vs] by force
  ultimately show ?thesis by (cases segs) auto
qed

section \<open>The state of the receiver\<close>

definition buf_ok :: "stream_buffer \<Rightarrow> bool" where
  "buf_ok s \<longleftrightarrow> 0 < sb_size s \<and> sb_start s + length (sb_data s) \<le> sb_size s \<and> (sb_data s = [] \<longrightarrow> sb_start s = 0)"

lemma buf_ok_consume:
  assumes "buf_ok s" and "n \<le> length (sb_data s)"
  shows "\<exists>s'. sb_consume n s = Done s' \<and> buf_ok s' \<and> sb_data s' = drop n (sb_data s)"
  using assms by (auto simp: sb_consume_def buf_ok_def fullbytes_def)

lemma buf_ok_empty: "buf_ok s \<Longrightarrow> sb_data s = [] \<Longrightarrow> 0 < tailbytes s"
  by (simp add: buf_ok_def tailbytes_def)

definition up_and_well :: "connection \<Rightarrow> bool" where
  "up_and_well c \<longleftrightarrow> c_contact_up c \<and> \<not> c_broken c \<and> \<not> c_breaking c \<and> buf_ok (c_recvbuf c) \<and> (\<forall>n. awaiting (c_fresh c n))"

text \<open>Between bundles: the last incoming bundle has no data yet, or all of its data.\<close>

definition between_bundles :: "connection \<Rightarrow> bool" where
  "between_bundles c \<longleftrightarrow> c_recv_todo c = 0 \<and>
     (c_incoming c = [] \<or>
      (let x = last (c_incoming c)
       in if in_rcvd_data x = [] \<and> in_ack_data x = [] then awaiting (in_bundle x) \<and> in_total_length x = 0
          else in_total_length x \<noteq> 0))"

text \<open>The last incoming bundle has got the bytes \<open>p\<close>, and the marks of segments below \<open>n\<close>.\<close>

definition has_got :: "dtn_bundle \<Rightarrow> byte list \<Rightarrow> byte list \<Rightarrow> nat \<Rightarrow> u32 \<Rightarrow> connection \<Rightarrow> bool" where
  "has_got b img p n l c \<longleftrightarrow>
     c_incoming c \<noteq> [] \<and>
     (let x = last (c_incoming c)
      in reading b img p (in_bundle x) \<and> bm_inv (in_rcvd_data x) \<and> bm_bits (in_rcvd_data x) = {..<length p} \<and>
         bm_inv (in_ack_data x) \<and> bm_bits (in_ack_data x) \<subseteq> {..<n} \<and> in_total_length x = l)"

text \<open>Inside a bundle: \<open>t\<close> is the rest of the segment that is read, \<open>segs\<close> are the segments that follow.\<close>

definition inside_bundle :: "dtn_bundle \<Rightarrow> byte list \<Rightarrow> byte list \<Rightarrow> byte list \<Rightarrow> byte list list \<Rightarrow> connection \<Rightarrow> bool" where
  "inside_bundle b img p t segs c \<longleftrightarrow>
     has_got b img p (length p + length t) (if segs = [] then of_nat (length img) else 0) c \<and>
     c_recv_todo c = length t \<and> img = p @ t @ concat segs \<and> [] \<notin> set segs \<and> (t \<noteq> [] \<or> segs \<noteq> [])"

lemma has_got_set_last:
  "has_got b img p n l (set_last_incoming x c) \<longleftrightarrow>
     reading b img p (in_bundle x) \<and> bm_inv (in_rcvd_data x) \<and> bm_bits (in_rcvd_data x) = {..<length p} \<and>
     bm_inv (in_ack_data x) \<and> bm_bits (in_ack_data x) \<subseteq> {..<n} \<and> in_total_length x = l"
  by (simp add: has_got_def set_last_incoming_def Let_def)

text \<open>Reading the part of a segment that has arrived.\<close>

lemma handle_data_todo_step:
  assumes c: "up_and_well c" and ins: "inside_bundle b img p t segs c" and sz: "length img < 2 ^ 32"
    and b: "eids_parse_back b" "b_priority b < 4"
    and d: "sb_data (c_recvbuf c) @ w = t @ u" "sb_data (c_recvbuf c) \<noteq> []" "t \<noteq> []"
  defines "k \<equiv> min (length (sb_data (c_recvbuf c))) (length t)"
  shows "\<exists>c'. handle_data_todo c = Done (k = length t, c') \<and> up_and_well c' \<and>
    sb_data (c_recvbuf c') = drop k (sb_data (c_recvbuf c)) \<and> c_recv_todo c' = length t - k \<and>
    (if k = length t \<and> segs = []
     then between_bundles c' \<and> (\<exists>r. c_events c' = c_events c @ [BundleReceived r (of_nat (length img))] \<and> same_contents b r)
     else inside_bundle b img (p @ take k t) (drop k t) segs c' \<and> c_events c' = c_events c)"
proof -
  let ?d = "sb_data (c_recvbuf c)" and ?x = "last (c_incoming c)"
  have ins': "c_incoming c \<noteq> []" "reading b img p (in_bundle ?x)" "bm_inv (in_rcvd_data ?x)" "bm_bits (in_rcvd_data ?x) = {..<length p}"
      "bm_inv (in_ack_data ?x)" "bm_bits (in_ack_data ?x) \<subseteq> {..<length p + length t}"
      "in_total_length ?x = (if segs = [] then of_nat (length img) else 0)"
      "c_recv_todo c = length t" "img = p @ t @ concat segs" "[] \<notin> set segs"
    using ins by (auto simp: inside_bundle_def has_got_def Let_def)
  have n: "min (fullbytes (c_recvbuf c)) (length t) = k" "fullbytes (c_recvbuf c) \<noteq> 0"
    using d(2) by (simp_all add: k_def fullbytes_def)
  have kpos: "0 < k" "k \<le> length t" "k \<le> length ?d" using d(2,3) by (simp_all add: k_def)
  have ch: "take k ?d = take k t" using arg_cong [OF d(1), of "take k"] kpos by simp
  have plen: "length p + length t \<le> length img" "length p < length img" "length p + k \<le> length img"
    using kpos d(3) by (simp_all add: ins'(9))
  obtain st' l where st': "consume_bytes (in_bundle ?x) (take k t) = Done (int (length (take k t)), l, st')"
      "reading b img (p @ take k t) st'"
    using reading_step [OF ins'(2), of "take k t" "drop k t @ concat segs"] kpos d(3) by (auto simp: ins'(9))
  have num: "bm_num_contiguous (in_rcvd_data ?x) = of_nat (length p)"
    using bm_prefix [OF ins'(3,4)] plen(2) sz by simp
  have up: "unat (of_nat (length p) :: u32) = length p" "unat (of_nat k :: u32) = k"
    using plen sz by (simp_all add: u32_of_nat)
  have "(of_nat k :: u32) \<noteq> 0" using up(2) kpos(1) by (metis unat_0 less_irrefl)
  then obtain m where m: "bm_set (of_nat (length p)) (of_nat k) (in_rcvd_data ?x) = Done m" "bm_inv m" "bm_bits m = {..<length p + k}"
    using bm_set_behind [OF ins'(3), of "of_nat (length p)" "of_nat k"] ins'(4) up plen sz by (auto simp: ivl_disj_un)
  obtain s where s: "sb_consume k (c_recvbuf c) = Done s" "buf_ok s" "sb_data s = drop k ?d"
    using buf_ok_consume [OF _ kpos(3)] c unfolding up_and_well_def by blast
  define x2 where "x2 = ?x\<lparr>in_bundle := st', in_rcvd_data := m\<rparr>"
  define c2 where "c2 = set_last_incoming x2 (c\<lparr>c_recvbuf := s, c_recv_todo := length t - k\<rparr>)"
  have step: "handle_data_todo c =
      (if k = length t then bind_outcome (check_received x2 c2) (\<lambda>c3. Done (True, c3)) else Done (False, c2))"
    using ins'(1,8) d(2,3) kpos num ch st'(1) m(1) s(1)
    by (simp add: handle_data_todo_def n Let_def consume_recv_def x2_def c2_def set_last_incoming_def)
  have c2: "up_and_well c2" "sb_data (c_recvbuf c2) = drop k ?d" "c_recv_todo c2 = length t - k" "c_events c2 = c_events c"
      "c_incoming c2 \<noteq> []" "last (c_incoming c2) = x2"
    using c s(2,3) by (simp_all add: c2_def up_and_well_def set_last_incoming_def)
  have x2: "in_bundle x2 = st'" "in_rcvd_data x2 = m" "in_ack_data x2 = in_ack_data ?x" "in_total_length x2 = in_total_length ?x"
    by (simp_all add: x2_def)
  have num2: "bm_num_contiguous m = of_nat (length p + k)" using bm_prefix [OF m(2,3)] plen sz by simp
  have got: "has_got b img (p @ take k t) (length p + length t) (in_total_length ?x) c2"
    using c2(5,6) st'(2) m kpos ins'(5,6) by (simp add: has_got_def Let_def x2)
  show ?thesis
  proof (cases "k = length t \<and> segs = []")
    case True
    then have img: "p @ take k t = img" "length p + k = length img" by (simp_all add: ins'(9))
    have rd: "reading b img img st'" using st'(2) img(1) by simp
    have tot: "in_total_length x2 = of_nat (length img)" "(of_nat (length img) :: u32) \<noteq> 0" using ins'(7) True plen sz
      by (auto simp: x2 u32_of_nat_zero)
    then have "check_received x2 c2 = Done (post_event (BundleReceived st' (of_nat (length img))) c2)"
      using num2 img(2) reading_done(1) [OF rd] by (simp add: check_received_def Let_def x2)
    moreover have "between_bundles (post_event e c2)" for e
      using True c2 m tot kpos bm_inv_empty [OF m(2)]
      by (auto simp: between_bundles_def post_event_def x2 Let_def)
    ultimately show ?thesis
      using True step c2 reading_done(2) [OF rd b] by (auto simp: post_event_def up_and_well_def)
  next
    case False
    have "inside_bundle b img (p @ take k t) (drop k t) segs c2"
      using got c2(3) False ins'(7,9,10) kpos by (auto simp: inside_bundle_def min_def)
    moreover have "check_received x2 c2 = Done c2" if "k = length t"
      using that False ins'(7) by (simp add: check_received_def Let_def x2)
    ultimately show ?thesis using False step c2 by auto
  qed
qed

section \<open>The header of a segment\<close>

lemma append_short:
  assumes "q @ w = e @ r" and "length q < length e"
  shows "\<exists>z. e = q @ z \<and> z \<noteq> []"
proof -
  have "q = take (length q) e" using arg_cong [OF assms(1), of "take (length q)"] assms(2) by simp
  then have "e = q @ drop (length q) e" by (metis append_take_drop_id)
  then show ?thesis using assms(2) by (intro exI [of _ "drop (length q) e"]) auto
qed

lemma append_long:
  assumes "q @ w = e @ r" and "length e \<le> length q"
  shows "\<exists>z. q = e @ z \<and> z @ w = r"
proof -
  have "e = take (length e) q" using arg_cong [OF assms(1), of "take (length e)"] assms(2) by simp
  then have "q = e @ drop (length e) q" by (metis append_take_drop_id)
  then show ?thesis using assms(1) by (metis append.assoc same_append_eq)
qed

lemma partial_header:
  assumes "data @ w = frame first final seg @ u" and "data \<noteq> []" and "length data < 1 + length (sdnv_bytes (of_nat (length seg)))"
  shows "fst (sdnv_decode32 (drop 1 data)) < 0"
proof -
  let ?e = "sdnv_bytes (of_nat (length seg))"
  obtain x q where q: "data = x # q" using assms(2) by (cases data) auto
  have "q @ w = ?e @ seg @ u" using assms(1) by (simp add: q frame_def)
  moreover have "length q < length ?e" using assms(3) by (simp add: q)
  ultimately obtain r where "?e = q @ r" "r \<noteq> []" using append_short by blast
  from sdnv_bytes_prefix_undecodable [OF this] show ?thesis
    by (cases "sdnv_decode q") (auto simp: q sdnv_decode32_def split: if_splits)
qed

lemma whole_header:
  assumes "data @ w = frame first final seg @ u" and "1 + length (sdnv_bytes (of_nat (length seg))) \<le> length data"
    and "length seg < 2 ^ 32"
  shows "sdnv_decode32 (drop 1 data) = (int (length (sdnv_bytes (of_nat (length seg)))), Some (of_nat (length seg)))"
    and "drop (1 + length (sdnv_bytes (of_nat (length seg)))) data @ w = seg @ u"
proof -
  let ?e = "sdnv_bytes (of_nat (length seg))"
  obtain x q where q: "data = x # q" using assms(2) by (cases data) auto
  have "q @ w = ?e @ seg @ u" using assms(1) by (simp add: q frame_def)
  moreover have "length ?e \<le> length q" using assms(2) by (simp add: q)
  ultimately obtain r where r: "q = ?e @ r" "r @ w = seg @ u" using append_long by blast
  have n: "unat (of_nat (length seg) :: u64) = length seg" using assms(3) by (simp add: u64_of_nat)
  then have "\<not> (of_nat (length seg) :: u64) > 0xffffffff" using assms(3) by (simp add: word_less_nat_alt)
  moreover have "(ucast (of_nat (length seg) :: u64) :: u32) = of_nat (length seg)"
    by transfer (simp add: take_bit_of_nat)
  ultimately show "sdnv_decode32 (drop 1 data) = (int (length ?e), Some (of_nat (length seg)))"
    by (simp add: q r(1) sdnv_decode32_def sdnv_decode_bytes)
  show "drop (1 + length ?e) data @ w = seg @ u" using r by (simp add: q)
qed

lemma hd_frame: "data @ w = frame first final seg @ u \<Longrightarrow> data \<noteq> [] \<Longrightarrow> hd data = hd (frame first final seg)"
  by (cases data) (auto simp: frame_def)

lemma open_incoming_first:
  assumes c: "up_and_well c" "between_bundles c" and s: "sending_ok (b, img, segs)" and f: "flags AND BUNDLE_START \<noteq> 0"
  shows "\<exists>c1. open_incoming flags c = Some c1 \<and> up_and_well c1 \<and> between_bundles c1 \<and> c_recvbuf c1 = c_recvbuf c \<and>
    c_events c1 = c_events c \<and> has_got b img [] 0 0 c1"
proof -
  have reads: "reading b img [] r" if "awaiting r" for r using s reading_Nil that by (auto simp: sending_ok_def)
  let ?new = "c\<lparr>c_incoming := c_incoming c @ [new_incoming (c_fresh c (c_count c))], c_count := Suc (c_count c)\<rparr>"
  have fresh: "awaiting (c_fresh c (c_count c))" using c(1) by (simp add: up_and_well_def)
  have new: "up_and_well ?new" "between_bundles ?new" "has_got b img [] 0 0 ?new"
    using c fresh reads [OF fresh]
    by (simp_all add: up_and_well_def between_bundles_def has_got_def new_incoming_def bm_inv_def)
  show ?thesis
  proof (cases "c_incoming c = [] \<or> \<not> (in_rcvd_data (last (c_incoming c)) = [] \<and> in_ack_data (last (c_incoming c)) = [])")
    case True
    then have "open_incoming flags c = Some ?new"
      using f c(2) by (auto simp: open_incoming_def between_bundles_def Let_def split: if_splits)
    then show ?thesis using new by auto
  next
    case False
    then have "open_incoming flags c = Some c" using f by (simp add: open_incoming_def Let_def)
    moreover have "has_got b img [] 0 0 c"
      using False c(2) reads by (auto simp: has_got_def between_bundles_def bm_inv_def Let_def)
    ultimately show ?thesis using c by blast
  qed
qed

text \<open>A whole header: the segment is entered, and what has arrived of it is read.\<close>

lemma enter_segment:
  assumes c: "open_incoming flags c = Some c1" "up_and_well c1" "has_got b img p (length p) 0 c1" "c_recvbuf c1 = c_recvbuf c"
    and img: "img = p @ seg @ concat segs" "seg \<noteq> []" "[] \<notin> set segs" "length img < 2 ^ 32"
    and fl: "flags AND BUNDLE_END \<noteq> 0 \<longleftrightarrow> segs = []"
    and d: "sb_data (c_recvbuf c) @ w = frame first final seg @ u"
      "1 + length (sdnv_bytes (of_nat (length seg))) \<le> length (sb_data (c_recvbuf c))"
  shows "\<exists>c2. handle_data_segment flags c = handle_data_todo c2 \<and> up_and_well c2 \<and> inside_bundle b img p seg segs c2 \<and>
    sb_data (c_recvbuf c2) @ w = seg @ u \<and> length (sb_data (c_recvbuf c2)) < length (sb_data (c_recvbuf c)) \<and> c_events c2 = c_events c1"
proof -
  let ?L = "length (sdnv_bytes (of_nat (length seg)))" and ?x = "last (c_incoming c1)"
  have sz: "length p + length seg \<le> length img" "0 < length seg" using img(2) by (simp_all add: img(1))
  then have small: "length seg < 2 ^ 32" using img(4) by linarith
  note hd = whole_header [OF d small]
  have up: "unat (of_nat (length p) :: u32) = length p" "unat (of_nat (length seg) :: u32) = length seg"
    using sz img(4) by (simp_all add: u32_of_nat)
  have nz: "(of_nat (length seg) :: u32) \<noteq> 0" using up(2) sz(2) by (metis unat_0 less_irrefl)
  have got: "c_incoming c1 \<noteq> []" "reading b img p (in_bundle ?x)" "bm_inv (in_rcvd_data ?x)" "bm_bits (in_rcvd_data ?x) = {..<length p}"
      "bm_inv (in_ack_data ?x)" "bm_bits (in_ack_data ?x) \<subseteq> {..<length p}" "in_total_length ?x = 0"
    using c(3) by (auto simp: has_got_def Let_def)
  obtain s where s: "sb_consume (1 + ?L) (c_recvbuf c1) = Done s" "buf_ok s" "sb_data s = drop (1 + ?L) (sb_data (c_recvbuf c1))"
    using buf_ok_consume [of "c_recvbuf c1" "1 + ?L"] c(2,4) d(2) unfolding up_and_well_def by auto
  have num: "bm_num_contiguous (in_rcvd_data ?x) = of_nat (length p)"
    using bm_prefix [OF got(3,4)] sz img(4) by simp
  have sum: "of_nat (length p) + of_nat (length seg) - (1 :: u32) = of_nat (length p + length seg - 1)"
    using sz(2) by (cases "length p + length seg") (simp_all flip: of_nat_add)
  then have mark: "unat (of_nat (length p) + of_nat (length seg) - 1 :: u32) = length p + length seg - 1"
    unfolding sum using sz img(4) by (intro u32_of_nat) linarith
  obtain m where m: "bm_set (of_nat (length p) + of_nat (length seg) - 1) 1 (in_ack_data ?x) = Done m" "bm_inv m"
      "bm_bits m \<subseteq> {..<length p + length seg}"
  proof -
    have "bm_bits (in_ack_data ?x) \<subseteq> {..<unat (of_nat (length p) + of_nat (length seg) - 1 :: u32)}"
      unfolding mark using sz(2) by (intro order_trans [OF got(6)] lessThan_subset_iff [THEN iffD2]) linarith
    moreover have "length p + length seg - 1 + unat (1 :: u32) < 2 ^ 32" using sz img(4) by simp
    ultimately obtain m where m: "bm_set (of_nat (length p) + of_nat (length seg) - 1) 1 (in_ack_data ?x) = Done m" "bm_inv m"
        "bm_bits m = bm_bits (in_ack_data ?x) \<union> {length p + length seg - 1 ..< length p + length seg - 1 + unat (1 :: u32)}"
      using bm_set_behind [OF got(5), of "of_nat (length p) + of_nat (length seg) - 1" 1] unfolding mark by auto
    moreover have "bm_bits m \<subseteq> {..<length p + length seg}"
      unfolding m(3) using order_trans [OF got(6), of "{..<length p + length seg}"] sz(2) by auto
    ultimately show ?thesis using that by blast
  qed
  define x2 where "x2 = (if segs = [] then ?x\<lparr>in_ack_data := m, in_total_length := of_nat (length p) + of_nat (length seg)\<rparr>
      else ?x\<lparr>in_ack_data := m\<rparr>)"
  define c2 where "c2 = (set_last_incoming x2 (c1\<lparr>c_recvbuf := s\<rparr>))\<lparr>c_recv_todo := length seg\<rparr>"
  have "handle_data_segment flags c = handle_data_todo c2"
    using c(1,4) hd(1) nz num m(1) s(1) up(2) fl
    by (simp add: handle_data_segment_def consume_recv_def Let_def x2_def c2_def nat_int)
  moreover have "up_and_well c2" using c(2) s(2) by (simp add: up_and_well_def c2_def set_last_incoming_def)
  moreover have "inside_bundle b img p seg segs c2"
  proof -
    have "has_got b img p (length p + length seg) (if segs = [] then of_nat (length img) else 0) c2"
      using got m(2,3) img(1) by (cases "segs = []") (simp_all add: c2_def has_got_def set_last_incoming_def x2_def)
    moreover have "c_recv_todo c2 = length seg" by (simp add: c2_def)
    ultimately show ?thesis using img(1-3) unfolding inside_bundle_def by blast
  qed
  moreover have "sb_data (c_recvbuf c2) = drop (1 + ?L) (sb_data (c_recvbuf c))" "c_events c2 = c_events c1"
    using s(3) c(4) by (simp_all add: c2_def set_last_incoming_def)
  ultimately show ?thesis using hd(2) d(2) by (intro exI [of _ c2]) auto
qed

section \<open>Processing what has arrived\<close>

text \<open>What has been reported of the bundles, in their order.\<close>

definition reported :: "sending list \<Rightarrow> cl_event list \<Rightarrow> bool" where
  "reported = list_all2 (\<lambda>(b, img, segs) e. \<exists>r. e = BundleReceived r (of_nat (length img)) \<and> same_contents b r)"

text \<open>
  The receiver has reported the events \<open>es\<close>; the bundles \<open>todo\<close> are not complete, and the
  bytes that follow are those of the third argument.
\<close>

inductive recv_at :: "cl_event list \<Rightarrow> sending list \<Rightarrow> byte list \<Rightarrow> connection \<Rightarrow> bool" where
  between: "up_and_well c \<Longrightarrow> between_bundles c \<Longrightarrow> c_events c = es \<Longrightarrow> list_all sending_ok todo \<Longrightarrow>
     recv_at es todo (wire_of todo) c"
| inside: "up_and_well c \<Longrightarrow> inside_bundle b img p t segs c \<Longrightarrow> c_events c = es \<Longrightarrow> sending_ok (b, img, segs0) \<Longrightarrow>
     list_all sending_ok todo \<Longrightarrow> recv_at es ((b, img, segs0) # todo) (t @ frames False segs @ wire_of todo) c"

inductive_cases recv_atE: "recv_at es todo u c"

text \<open>Some bundles have been completed in between.\<close>

definition progress :: "cl_event list \<Rightarrow> sending list \<Rightarrow> cl_event list \<Rightarrow> sending list \<Rightarrow> bool" where
  "progress es todo es' todo' \<longleftrightarrow> (\<exists>ds rs. todo = ds @ todo' \<and> es' = es @ rs \<and> reported ds rs)"

lemma progress_refl [simp]: "progress es todo es todo"
  by (auto simp: progress_def reported_def)

lemma progress_trans: "progress es todo es1 todo1 \<Longrightarrow> progress es1 todo1 es2 todo2 \<Longrightarrow> progress es todo es2 todo2"
  by (auto simp: progress_def reported_def intro: list_all2_appendI)

lemma handle_data_todo_recv:
  assumes c: "up_and_well c" "inside_bundle b img p t segs c" "c_events c = es" "sending_ok (b, img, segs0)" "list_all sending_ok todo"
    and d: "sb_data (c_recvbuf c) @ w = t @ frames False segs @ wire_of todo" "t \<noteq> []"
  shows "\<exists>fin c' es' todo'. handle_data_todo c = Done (fin, c') \<and> recv_at es' todo' (sb_data (c_recvbuf c') @ w) c' \<and>
    progress es ((b, img, segs0) # todo) es' todo' \<and> length (sb_data (c_recvbuf c')) \<le> length (sb_data (c_recvbuf c)) \<and>
    (sb_data (c_recvbuf c) \<noteq> [] \<longrightarrow> length (sb_data (c_recvbuf c')) < length (sb_data (c_recvbuf c))) \<and>
    (if fin then c_recv_todo c' = 0 else sb_data (c_recvbuf c') = [])"
proof (cases "sb_data (c_recvbuf c) = []")
  case True
  have "handle_data_todo c = Done (False, c)"
    using c(2) d(2) True by (auto simp: handle_data_todo_def inside_bundle_def has_got_def fullbytes_def Let_def)
  moreover have "recv_at es ((b, img, segs0) # todo) (sb_data (c_recvbuf c) @ w) c"
    unfolding d(1) by (rule recv_at.inside [OF c])
  ultimately show ?thesis using True by (intro exI) auto
next
  case False
  let ?d = "sb_data (c_recvbuf c)"
  define k where "k = min (length ?d) (length t)"
  have b: "length img < 2 ^ 32" "eids_parse_back b" "b_priority b < 4" using c(4) by (auto simp: sending_ok_def)
  obtain c' where c': "handle_data_todo c = Done (k = length t, c')" "up_and_well c'" "sb_data (c_recvbuf c') = drop k ?d"
      "c_recv_todo c' = length t - k"
      "if k = length t \<and> segs = []
       then between_bundles c' \<and> (\<exists>r. c_events c' = c_events c @ [BundleReceived r (of_nat (length img))] \<and> same_contents b r)
       else inside_bundle b img (p @ take k t) (drop k t) segs c' \<and> c_events c' = c_events c"
    using handle_data_todo_step [OF c(1,2) b d(1) False d(2)] unfolding k_def by blast
  have k: "0 < k" "k \<le> length ?d" "k \<le> length t" using False d(2) by (simp_all add: k_def)
  have rest: "drop k ?d @ w = drop k t @ frames False segs @ wire_of todo"
    using arg_cong [OF d(1), of "drop k"] k by simp
  have len: "length (sb_data (c_recvbuf c')) < length ?d" using k by (simp add: c'(3))
  have fin: "if k = length t then c_recv_todo c' = 0 else sb_data (c_recvbuf c') = []"
    using c'(3,4) k by (auto simp: k_def min_def split: if_splits)
  show ?thesis
  proof (cases "k = length t \<and> segs = []")
    case True
    then obtain r where r: "c_events c' = es @ [BundleReceived r (of_nat (length img))]" "same_contents b r" "between_bundles c'"
      using c'(5) c(3) by auto
    have "sb_data (c_recvbuf c') @ w = wire_of todo" using rest True by (simp add: c'(3))
    then have "recv_at (es @ [BundleReceived r (of_nat (length img))]) todo (sb_data (c_recvbuf c') @ w) c'"
      using recv_at.between [OF c'(2) r(3,1) c(5)] by simp
    moreover have "progress es ((b, img, segs0) # todo) (es @ [BundleReceived r (of_nat (length img))]) todo"
      unfolding progress_def reported_def using r(2) by (intro exI [of _ "[(b, img, segs0)]"]) auto
    ultimately show ?thesis using c'(1) len fin by (intro exI) auto
  next
    case more: False
    then have ins: "inside_bundle b img (p @ take k t) (drop k t) segs c'" "c_events c' = es" using c'(5) c(3) by (auto split: if_splits)
    have "recv_at es ((b, img, segs0) # todo) (sb_data (c_recvbuf c') @ w) c'"
      unfolding c'(3) rest by (rule recv_at.inside [OF c'(2) ins c(4,5)])
    then show ?thesis using c'(1) len fin by (intro exI) auto
  qed
qed

text \<open>A message is handled: at its first byte a segment starts.\<close>

lemma handle_data_segment_recv:
  assumes r: "recv_at es todo (sb_data (c_recvbuf c) @ w) c" and t: "c_recv_todo c = 0" and d: "sb_data (c_recvbuf c) \<noteq> []"
  shows "hd (sb_data (c_recvbuf c)) AND 0xf0 = DATA_SEGMENT \<and>
    (\<exists>fin c' es' todo'. handle_data_segment (hd (sb_data (c_recvbuf c)) AND 0x0f) c = Done (fin, c') \<and>
      recv_at es' todo' (sb_data (c_recvbuf c') @ w) c' \<and> progress es todo es' todo' \<and>
      (if fin then c_recv_todo c' = 0 \<and> length (sb_data (c_recvbuf c')) < length (sb_data (c_recvbuf c))
       else sb_data (c_recvbuf c') = [] \<or> c_recvbuf c' = c_recvbuf c \<and> c_recv_todo c' = 0 \<and> w \<noteq> []))"
proof -
  let ?d = "sb_data (c_recvbuf c)" and ?fl = "hd (sb_data (c_recvbuf c)) AND 0x0f"
  obtain first b img p seg segs segs0 rest c1 where
      head: "?d @ w = frame first (segs = []) seg @ (frames False segs @ wire_of rest)" "todo = (b, img, segs0) # rest"
      "sending_ok (b, img, segs0)" "list_all sending_ok rest"
      "img = p @ seg @ concat segs" "seg \<noteq> []" "[] \<notin> set segs" and
      opened: "open_incoming ?fl c = Some c1" "up_and_well c1" "has_got b img p (length p) 0 c1" "c_recvbuf c1 = c_recvbuf c"
        "c_events c1 = es" "c_recv_todo c1 = 0" "recv_at es todo (?d @ w) c1"
  proof -
    consider (between) "?d @ w = wire_of todo" "up_and_well c" "between_bundles c" "c_events c = es" "list_all sending_ok todo"
      | (inside) b img p t segs segs0 rest where "todo = (b, img, segs0) # rest" "?d @ w = t @ frames False segs @ wire_of rest"
          "up_and_well c" "inside_bundle b img p t segs c" "c_events c = es" "sending_ok (b, img, segs0)" "list_all sending_ok rest"
      using r by (elim recv_atE) blast+
    then show thesis
    proof cases
      case between
      have "?d @ w \<noteq> []" using d by simp
      then obtain b img segs0 rest where todo: "todo = (b, img, segs0) # rest" using between(1) by (cases todo) auto
      have s: "sending_ok (b, img, segs0)" "list_all sending_ok rest" using between(5) by (simp_all add: todo)
      then obtain seg segs where segs: "segs0 = seg # segs" using sending_ok_not_Nil by (cases segs0) auto
      have h: "?d @ w = frame True (segs = []) seg @ (frames False segs @ wire_of rest)" using between(1) by (simp add: todo segs)
      have "?fl AND BUNDLE_START \<noteq> 0" using frame_flags(2) [of True "segs = []" seg] hd_frame [OF h d] by simp
      from open_incoming_first [OF between(2,3) s(1) this] obtain c1 where c1: "open_incoming ?fl c = Some c1"
          "up_and_well c1" "between_bundles c1" "c_recvbuf c1 = c_recvbuf c" "c_events c1 = c_events c" "has_got b img [] 0 0 c1"
        by blast
      moreover have "recv_at es todo (?d @ w) c1" unfolding between(1) using recv_at.between [OF c1(2,3)] c1(5) between(4,5) by simp
      moreover have "img = [] @ seg @ concat segs" "seg \<noteq> []" "[] \<notin> set segs" using s(1) segs by (auto simp: sending_ok_def)
      ultimately show ?thesis
        using that [OF h todo s, of "[]" c1] between(4) by (simp add: between_bundles_def)
    next
      case (inside b img p t segs' segs0 rest)
      have ins: "has_got b img (p @ t) (length (p @ t)) (if segs' = [] then of_nat (length img) else 0) c" "t = []"
          "img = p @ t @ concat segs'" "[] \<notin> set segs'" "segs' \<noteq> []"
        using inside(4) t by (auto simp: inside_bundle_def)
      obtain seg segs where segs: "segs' = seg # segs" using ins(5) by (cases segs') auto
      have h: "?d @ w = frame False (segs = []) seg @ (frames False segs @ wire_of rest)" using inside(2) ins(2) by (simp add: segs)
      have "?fl AND BUNDLE_START = 0" using frame_flags(2) [of False "segs = []" seg] hd_frame [OF h d] by simp
      then have "open_incoming ?fl c = Some c" using ins(1) by (simp add: open_incoming_def has_got_def)
      then show ?thesis
        using that [OF h inside(1,6,7), of p c] inside(3,5) ins t r segs by auto
    qed
  qed
  have hd: "hd ?d = hd (frame first (segs = []) seg)" by (rule hd_frame [OF head(1) d])
  have sz: "length img < 2 ^ 32" using head(3) by (simp add: sending_ok_def)
  show ?thesis
  proof (cases "1 + length (sdnv_bytes (of_nat (length seg))) \<le> length ?d")
    case True
    have e: "?fl AND BUNDLE_END \<noteq> 0 \<longleftrightarrow> segs = []" using frame_flags(3) [of first "segs = []" seg] hd by simp
    obtain c2 where c2: "handle_data_segment ?fl c = handle_data_todo c2" "up_and_well c2" "inside_bundle b img p seg segs c2"
        "sb_data (c_recvbuf c2) @ w = seg @ frames False segs @ wire_of rest" "length (sb_data (c_recvbuf c2)) < length ?d"
        "c_events c2 = es"
      using enter_segment [OF opened(1-4) head(5-7) sz e head(1) True] opened(5) by auto
    show ?thesis
      using handle_data_todo_recv [OF c2(2,3,6) head(3,4) c2(4) head(6)] c2(1,5) frame_flags(1) [of first "segs = []" seg]
      unfolding head(2) hd by (fastforce split: if_splits)
  next
    case False
    then have "fst (sdnv_decode32 (drop 1 ?d)) < 0" using partial_header [OF head(1) d] by simp
    then have "handle_data_segment ?fl c = Done (False, c1)"
      using opened(1,4) by (cases "sdnv_decode32 (drop 1 ?d)") (simp add: handle_data_segment_def)
    moreover have "w \<noteq> []"
    proof
      assume "w = []"
      then have "length ?d = length (frame first (segs = []) seg) + length (frames False segs @ wire_of rest)"
        using arg_cong [OF head(1), of length] by simp
      then show False using False by (simp add: frame_def)
    qed
    ultimately show ?thesis using opened frame_flags(1) [of first "segs = []" seg] hd
      by (metis (no_types, lifting) progress_refl)
  qed
qed

lemma recv_at_cong:
  assumes "recv_at es todo u c" and "up_and_well c'"
    and same: "c_incoming c' = c_incoming c" "c_recv_todo c' = c_recv_todo c" "c_events c' = c_events c"
  shows "recv_at es todo u c'"
proof -
  have "between_bundles c' = between_bundles c" by (simp only: between_bundles_def same)
  moreover have "inside_bundle b img p t segs c' = inside_bundle b img p t segs c" for b img p t segs
    by (simp only: inside_bundle_def has_got_def same)
  ultimately show ?thesis
    using assms(1,2) same(3) by (elim recv_atE) (auto intro: recv_at.intros)
qed

lemma recv_at_recvbuf:
  assumes "recv_at es todo u c" and "buf_ok s"
  shows "recv_at es todo u (c\<lparr>c_recvbuf := s\<rparr>)"
  by (rule recv_at_cong [OF assms(1)]) (use assms in \<open>auto simp: up_and_well_def elim: recv_atE\<close>)

lemma recv_at_well: "recv_at es todo u c \<Longrightarrow> up_and_well c"
  by (elim recv_atE)

lemma sb_reserve_ok:
  assumes "buf_ok s"
  shows "\<exists>s'. sb_reserve n s = Done s' \<and> buf_ok s' \<and> sb_data s' = sb_data s \<and> n \<le> tailbytes s'"
proof -
  define s' where "s' = (if n \<le> tailbytes s then s
      else if n \<le> sb_start s + tailbytes s then sb_moveup s
      else (sb_moveup s)\<lparr>sb_size := (if n + fullbytes s > sb_size s * 2 then n + fullbytes s else sb_size s * 2)\<rparr>)"
  have "n \<le> tailbytes s'" "buf_ok s'" "sb_data s' = sb_data s"
    using assms by (auto simp: s'_def sb_moveup_def tailbytes_def fullbytes_def buf_ok_def)
  then show ?thesis by (simp add: sb_reserve_def s'_def [symmetric])
qed

lemma make_room_ok:
  assumes "buf_ok (c_recvbuf c)"
  shows "\<exists>s. make_room c = Done (c\<lparr>c_recvbuf := s\<rparr>) \<and> buf_ok s \<and> sb_data s = sb_data (c_recvbuf c) \<and> 0 < tailbytes s"
proof (cases "tailbytes (c_recvbuf c) = 0")
  case True
  let ?s = "c_recvbuf c"
  obtain s1 s2 where s: "sb_reserve (sb_size ?s * 2) ?s = Done s1" "buf_ok s1" "sb_data s1 = sb_data ?s" "sb_size ?s * 2 \<le> tailbytes s1"
      "sb_reserve (sb_size ?s - fullbytes ?s) ?s = Done s2" "buf_ok s2" "sb_data s2 = sb_data ?s" "sb_size ?s - fullbytes ?s \<le> tailbytes s2"
    using sb_reserve_ok [OF assms] by metis
  have "0 < sb_size ?s" "fullbytes ?s \<le> sb_size ?s" using assms by (simp_all add: buf_ok_def fullbytes_def)
  then have "0 < tailbytes s1" "fullbytes ?s \<noteq> sb_size ?s \<longrightarrow> 0 < tailbytes s2" using s(4,8) by linarith+
  then show ?thesis using s True by (cases "fullbytes ?s = sb_size ?s") (auto simp: make_room_def)
next
  case False
  then have "fullbytes (c_recvbuf c) \<noteq> sb_size (c_recvbuf c)" by (auto simp: tailbytes_def fullbytes_def)
  then show ?thesis using False assms by (auto simp: make_room_def intro!: exI [of _ "c_recvbuf c"])
qed

text \<open>After all messages: there is room for more data, and nothing is left when nothing follows.\<close>

definition settled :: "byte list \<Rightarrow> connection \<Rightarrow> bool" where
  "settled w c \<longleftrightarrow> 0 < tailbytes (c_recvbuf c) \<and> (c_recv_todo c \<noteq> 0 \<or> w = [] \<longrightarrow> sb_data (c_recvbuf c) = [])"

lemma process_messages_recv:
  assumes "recv_at es todo (sb_data (c_recvbuf c) @ w) c" and "c_recv_todo c = 0"
  shows "\<exists>c' es' todo'. process_messages c = Some (Done c') \<and> recv_at es' todo' (sb_data (c_recvbuf c') @ w) c' \<and>
    progress es todo es' todo' \<and> settled w c'"
  using assms
proof (induction "length (sb_data (c_recvbuf c))" arbitrary: c es todo rule: less_induct)
  case less
  let ?d = "sb_data (c_recvbuf c)"
  have c: "buf_ok (c_recvbuf c)" "\<not> c_broken c" using recv_at_well [OF less.prems(1)] by (simp_all add: up_and_well_def)
  show ?case
  proof (cases "?d = []")
    case True
    then have "process_messages c = Some (Done c)" by (simp add: process_messages.simps fullbytes_def)
    moreover have "settled w c" using buf_ok_empty [OF c(1) True] True by (simp add: settled_def)
    ultimately show ?thesis using less.prems(1) by (intro exI) auto
  next
    case False
    obtain fin c1 es1 todo1 where h: "handle_data_segment (hd ?d AND 0x0f) c = Done (fin, c1)"
        "recv_at es1 todo1 (sb_data (c_recvbuf c1) @ w) c1" "progress es todo es1 todo1"
        "if fin then c_recv_todo c1 = 0 \<and> length (sb_data (c_recvbuf c1)) < length ?d
         else sb_data (c_recvbuf c1) = [] \<or> c_recvbuf c1 = c_recvbuf c \<and> c_recv_todo c1 = 0 \<and> w \<noteq> []"
        "hd ?d AND 0xf0 = DATA_SEGMENT"
      using handle_data_segment_recv [OF less.prems False] by blast
    have hm: "handle_message c = Done (fin, c1)" "valid_type c" using h(1,5) by (simp_all add: handle_message_def valid_type_def Let_def)
    show ?thesis
    proof (cases fin)
      case True
      have "process_messages c = process_messages c1"
        using hm(1) True False c(2) by (subst process_messages.simps) (simp add: fullbytes_def)
      then show ?thesis
        using less.hyps [OF _ h(2)] h(4) True progress_trans [OF h(3)] by (auto split: if_splits) blast
    next
      case nofin: False
      have "buf_ok (c_recvbuf c1)" using recv_at_well [OF h(2)] by (simp add: up_and_well_def)
      then obtain s where s: "make_room c1 = Done (c1\<lparr>c_recvbuf := s\<rparr>)" "buf_ok s" "sb_data s = sb_data (c_recvbuf c1)" "0 < tailbytes s"
        using make_room_ok by blast
      have "process_messages c = Some (Done (c1\<lparr>c_recvbuf := s\<rparr>))"
        using hm nofin False c(2) s(1) by (subst process_messages.simps) (simp add: fullbytes_def)
      moreover have "recv_at es1 todo1 (sb_data (c_recvbuf (c1\<lparr>c_recvbuf := s\<rparr>)) @ w) (c1\<lparr>c_recvbuf := s\<rparr>)"
        using recv_at_recvbuf [OF h(2) s(2)] s(3) by simp
      moreover have "settled w (c1\<lparr>c_recvbuf := s\<rparr>)" using s(3,4) h(4) nofin by (auto simp: settled_def)
      ultimately show ?thesis using h(3) by blast
    qed
  qed
qed

lemma process_data_recv:
  assumes r: "recv_at es todo (sb_data (c_recvbuf c) @ w) c"
  shows "\<exists>c' es' todo'. process_data link_found c = Some (Done c') \<and> recv_at es' todo' (sb_data (c_recvbuf c') @ w) c' \<and>
    progress es todo es' todo' \<and> settled w c'"
proof -
  let ?d = "sb_data (c_recvbuf c)" and ?c = "note_data_rcvd c"
  have c: "buf_ok (c_recvbuf c)" "c_contact_up c" using recv_at_well [OF r] by (simp_all add: up_and_well_def)
  have "recv_at es todo (sb_data (c_recvbuf c) @ w) ?c"
    by (rule recv_at_cong [OF r]) (use recv_at_well [OF r] in \<open>simp_all add: up_and_well_def note_data_rcvd_def\<close>)
  then have r1: "recv_at es todo (sb_data (c_recvbuf ?c) @ w) ?c" by (simp add: note_data_rcvd_def)
  have same: "c_recvbuf ?c = c_recvbuf c" "c_recv_todo ?c = c_recv_todo c" "c_contact_up ?c" using c by (simp_all add: note_data_rcvd_def)
  show ?thesis
  proof (cases "?d = []")
    case True
    then have "process_data link_found c = Some (Done c)" by (simp add: process_data_def fullbytes_def)
    moreover have "settled w c" using buf_ok_empty [OF c(1) True] True by (simp add: settled_def)
    ultimately show ?thesis using r by (intro exI) auto
  next
    case False
    show ?thesis
    proof (cases "c_recv_todo c = 0")
      case True
      then have "process_data link_found c = process_messages ?c"
        using False same by (simp add: process_data_def fullbytes_def)
      then show ?thesis using process_messages_recv [OF r1] True same by simp
    next
      case todo: False
      obtain b img p t segs segs0 rest where i: "todo = (b, img, segs0) # rest" "up_and_well ?c" "inside_bundle b img p t segs ?c"
          "c_events ?c = es" "sending_ok (b, img, segs0)" "list_all sending_ok rest"
          "sb_data (c_recvbuf ?c) @ w = t @ frames False segs @ wire_of rest"
        using r1 todo same by (elim recv_atE) (auto simp: between_bundles_def)
      have t: "t \<noteq> []" using i(3) todo same by (auto simp: inside_bundle_def)
      obtain fin c1 es1 todo1 where h: "handle_data_todo ?c = Done (fin, c1)" "recv_at es1 todo1 (sb_data (c_recvbuf c1) @ w) c1"
          "progress es todo es1 todo1" "if fin then c_recv_todo c1 = 0 else sb_data (c_recvbuf c1) = []"
        using handle_data_todo_recv [OF i(2-7) t] unfolding i(1) by blast
      show ?thesis
      proof (cases fin)
        case True
        then have "process_data link_found c = process_messages c1"
          using False todo h(1) same by (simp add: process_data_def fullbytes_def)
        moreover have "c_recv_todo c1 = 0" using h(4) True by simp
        ultimately show ?thesis using process_messages_recv [OF h(2)] progress_trans [OF h(3)] by auto blast
      next
        case nofin: False
        then have "process_data link_found c = Some (Done c1)"
          using False todo h(1) same by (simp add: process_data_def fullbytes_def)
        moreover have "settled w c1"
          using h(4) nofin buf_ok_empty recv_at_well [OF h(2)] by (simp add: settled_def up_and_well_def)
        ultimately show ?thesis using h(2,3) by blast
      qed
    qed
  qed
qed

section \<open>A whole connection\<close>

text \<open>
  The wire holds bytes; in each round some have arrived, as many as the numbers say, the
  thread reads what fits into the buffer, and processes it.
\<close>

fun receive_rounds :: "bool \<Rightarrow> nat list \<Rightarrow> byte list \<Rightarrow> connection \<Rightarrow> (byte list \<times> connection) outcome option" where
  "receive_rounds link_found [] w c = Some (Done (w, c))"
| "receive_rounds link_found (n # ns) w c =
     (if w = [] then Some (Done (w, c))
      else case recv_data (take n w) c of
             Panic \<Rightarrow> Some Panic
           | Done c1 \<Rightarrow>
               (case process_data link_found c1 of
                  None \<Rightarrow> None
                | Some Panic \<Rightarrow> Some Panic
                | Some (Done c2) \<Rightarrow>
                    receive_rounds link_found ns (drop (fullbytes (c_recvbuf c1) - fullbytes (c_recvbuf c)) w) c2))"

lemma recv_data_reads:
  assumes c: "up_and_well c" and t: "0 < tailbytes (c_recvbuf c)" and w: "w \<noteq> []" "0 < n"
  shows "\<exists>s x w'. recv_data (take n w) c = Done (c\<lparr>c_recvbuf := s\<rparr>) \<and> buf_ok s \<and> sb_data s = sb_data (c_recvbuf c) @ x \<and>
    w = x @ w' \<and> x \<noteq> []"
proof -
  let ?s = "c_recvbuf c"
  define m where "m = (if sp_test_read_limit (c_params c) \<noteq> 0 then min (tailbytes ?s) (unat (sp_test_read_limit (c_params c)))
    else tailbytes ?s)"
  have m: "0 < m" "m \<le> tailbytes ?s" using t by (auto simp: m_def unat_gt_0)
  let ?x = "take m (take n w)"
  have fill: "sb_fill ?x ?s = Done (?s\<lparr>sb_data := sb_data ?s @ ?x\<rparr>)" using m(2) by (simp add: sb_fill_def assert_that_def)
  have "buf_ok (?s\<lparr>sb_data := sb_data ?s @ ?x\<rparr>)"
    using c m(2) w m(1) by (auto simp: up_and_well_def buf_ok_def tailbytes_def)
  moreover have "recv_data (take n w) c = Done (c\<lparr>c_recvbuf := ?s\<lparr>sb_data := sb_data ?s @ ?x\<rparr>\<rparr>)"
    using c t w fill by (simp add: recv_data_def up_and_well_def m_def [symmetric])
  moreover have "w = ?x @ drop (length ?x) w" by (simp add: min_def)
  moreover have "?x \<noteq> []" using w m(1) by simp
  ultimately show ?thesis by (intro exI conjI) (assumption | simp)+
qed

lemma receive_rounds_recv:
  assumes "recv_at es todo (sb_data (c_recvbuf c) @ w) c" and "settled w c" and "\<forall>n \<in> set ns. 0 < n"
  shows "\<exists>w' c' es' todo'. receive_rounds link_found ns w c = Some (Done (w', c')) \<and>
    recv_at es' todo' (sb_data (c_recvbuf c') @ w') c' \<and> progress es todo es' todo' \<and> settled w' c' \<and>
    (w' \<noteq> [] \<longrightarrow> length w' + length ns \<le> length w)"
  using assms
proof (induction ns arbitrary: w c es todo)
  case (Cons n ns)
  show ?case
  proof (cases "w = []")
    case True
    then show ?thesis using Cons.prems progress_refl [of es todo] by fastforce
  next
    case False
    have "0 < tailbytes (c_recvbuf c)" "0 < n" using Cons.prems(2,3) by (simp_all add: settled_def)
    then obtain s x w1 where s: "recv_data (take n w) c = Done (c\<lparr>c_recvbuf := s\<rparr>)" "buf_ok s" "sb_data s = sb_data (c_recvbuf c) @ x"
        "w = x @ w1" "x \<noteq> []"
      using recv_data_reads [OF recv_at_well [OF Cons.prems(1)] _ False] by blast
    let ?c1 = "c\<lparr>c_recvbuf := s\<rparr>"
    have "recv_at es todo (sb_data (c_recvbuf ?c1) @ w1) ?c1"
      using recv_at_recvbuf [OF Cons.prems(1) s(2)] by (simp add: s(3,4))
    then obtain c2 es2 todo2 where c2: "process_data link_found ?c1 = Some (Done c2)"
        "recv_at es2 todo2 (sb_data (c_recvbuf c2) @ w1) c2" "progress es todo es2 todo2" "settled w1 c2"
      using process_data_recv by blast
    have "fullbytes s - fullbytes (c_recvbuf c) = length x" by (simp add: fullbytes_def s(3))
    then have "receive_rounds link_found (n # ns) w c = receive_rounds link_found ns w1 c2"
      using s(1,5) c2(1) by (simp add: s(4))
    moreover have "\<forall>n \<in> set ns. 0 < n" using Cons.prems(3) by simp
    then obtain w' c' es' todo' where r: "receive_rounds link_found ns w1 c2 = Some (Done (w', c'))"
        "recv_at es' todo' (sb_data (c_recvbuf c') @ w') c'" "progress es2 todo2 es' todo'" "settled w' c'"
        "w' \<noteq> [] \<longrightarrow> length w' + length ns \<le> length w1"
      using Cons.IH [OF c2(2,4)] by blast
    moreover have "w' \<noteq> [] \<longrightarrow> length w' + length (n # ns) \<le> length w" using r(5) s(5) by (cases x) (auto simp: s(4))
    ultimately show ?thesis using progress_trans [OF c2(3) r(3)] by auto
  qed
qed (auto intro: progress_refl)

lemma frames_not_Nil: "segs \<noteq> [] \<Longrightarrow> frames first segs \<noteq> []"
  by (cases segs) (simp_all add: frame_def)

lemma recv_at_done:
  assumes "recv_at es todo [] c"
  shows "todo = [] \<and> between_bundles c \<and> c_events c = es \<and> \<not> c_broken c"
  using assms
proof (elim recv_atE)
  assume a: "[] = wire_of todo" "up_and_well c" "between_bundles c" "c_events c = es" "list_all sending_ok todo"
  have "todo = []"
  proof (cases todo)
    case (Cons x rest)
    obtain b img segs where "x = (b, img, segs)" by (cases x)
    then show ?thesis using a(1,5) Cons sending_ok_not_Nil frames_not_Nil by auto
  qed
  then show ?thesis using a by (simp add: up_and_well_def)
qed (use frames_not_Nil in \<open>auto simp: inside_bundle_def\<close>)

text \<open>
  C30. Reception over a stream. A sequence of bundles without extension blocks is cut into
  segments in any way, and the segments are sent one after the other over an established
  connection without a transfer in progress; the bytes arrive in pieces of any sizes. When
  enough pieces have arrived, the receiver has reported every bundle exactly once, in their
  order, with its contents and its length, whatever the boundaries of the reads were; no
  assertion fails, the contact is not broken, and its loops have ended.
\<close>

theorem stream_reception:
  assumes "up_and_well c" and "between_bundles c" and "sb_data (c_recvbuf c) = []"
    and "list_all sending_ok todo" and "\<forall>n \<in> set ns. 0 < n" and "length (wire_of todo) \<le> length ns"
  shows "\<exists>c' rs. receive_rounds link_found ns (wire_of todo) c = Some (Done ([], c')) \<and>
    c_events c' = c_events c @ rs \<and> reported todo rs \<and> \<not> c_broken c' \<and> between_bundles c'"
proof -
  have "recv_at (c_events c) todo (sb_data (c_recvbuf c) @ wire_of todo) c"
    using recv_at.between [OF assms(1,2) refl assms(4)] assms(3) by simp
  moreover have "settled (wire_of todo) c"
    using assms(1-3) buf_ok_empty by (simp add: settled_def up_and_well_def between_bundles_def)
  ultimately obtain w' c' es' todo' where r: "receive_rounds link_found ns (wire_of todo) c = Some (Done (w', c'))"
      "recv_at es' todo' (sb_data (c_recvbuf c') @ w') c'" "progress (c_events c) todo es' todo'" "settled w' c'"
      "w' \<noteq> [] \<longrightarrow> length w' + length ns \<le> length (wire_of todo)"
    using receive_rounds_recv [OF _ _ assms(5)] by blast
  have w': "w' = []" using r(5) assms(6) by (cases w') auto
  then have "recv_at es' todo' [] c'" using r(2,4) by (simp add: settled_def)
  then have "todo' = []" "between_bundles c'" "c_events c' = es'" "\<not> c_broken c'"
    using recv_at_done by blast+
  then show ?thesis using r(1,3) w' by (auto simp: progress_def)
qed

text \<open>A connection that is up, with a small buffer, for the examples.\<close>

definition example_connection :: connection where
  "example_connection =
     \<lparr>c_params = \<lparr>sp_segment_ack = True, sp_reactive_frag = True, sp_negative_ack = False, sp_keepalive = 10,
        sp_segment_length = 4096, sp_data_timeout = 30000, sp_test_write_delay = 0, sp_test_write_limit = 0, sp_test_read_limit = 0,
        sp_sendbuf_len = 64, sp_recvbuf_len = 16\<rparr>,
      c_version = 3, c_recvbuf = \<lparr>sb_start = 0, sb_data = [], sb_size = 16\<rparr>, c_sendbuf = \<lparr>sb_start = 0, sb_data = [], sb_size = 64\<rparr>,
      c_in_flight = [], c_current = None, c_incoming = [], c_send_todo = 0, c_recv_todo = 0, c_breaking = False, c_broken = False,
      c_initiated = True, c_contact_up = True, c_has_contact = True, c_remote_eid = example_eid, c_poll_timeout = 0, c_queue = [],
      c_events = [], c_writes = [], c_wire = [], c_fresh = (\<lambda>n. new_bundle 100 8 (payload_init False DISK [])), c_count = 0,
      c_now = 0, c_data_rcvd = 0, c_data_sent = 0, c_keepalive_sent = 0\<rparr>"

lemma example_connection_up: "up_and_well example_connection" "between_bundles example_connection"
  using example_awaiting
  by (simp_all add: up_and_well_def between_bundles_def example_connection_def buf_ok_def)

lemma example_sending: "\<exists>img. sending_ok (example_bundle, img, [take 5 img, drop 5 img]) \<and> 5 < length img"
proof -
  obtain d vs where s: "sent_with example_bundle d vs"
    using sent_with_exists [OF example_text_size(2,1)] by (auto simp: example_payload_bundle example_payload_ok)
  let ?img = "wire_image example_bundle d vs"
  have "primary_image example_bundle d vs \<noteq> []" using length_preamble_bytes [of CURRENT_VERSION]
    by (auto simp: primary_image_def preamble_bytes_def)
  then have "0 < length (primary_image example_bundle d vs)" by simp
  then have len: "5 < length ?img"
    using payload_preamble_length(1) [of example_bundle] by (simp add: wire_image_def example_payload_bundle example_payload_ok)
  have "text_size example_bundle < 100" by code_simp
  then have "length (primary_image example_bundle d vs) < 261"
    using s primary_image_size [of example_bundle d vs] by (simp add: sent_with_def)
  then have "length ?img < 2 ^ 32"
    using payload_preamble_length(2) [of example_bundle] by (simp add: wire_image_def example_payload_bundle example_payload_ok)
  then have "sending_ok (example_bundle, ?img, [take 5 ?img, drop 5 ?img])"
    using s len example_eids by (auto simp: sending_ok_def example_payload_bundle example_payload_ok)
  with len show ?thesis by blast
qed

theorem stream_reception_witness:
  "\<exists>img ns c' rs. 5 < length img \<and>
    receive_rounds True ns (wire_of [(example_bundle, img, [take 5 img, drop 5 img]), (example_bundle, img, [take 5 img, drop 5 img])])
      example_connection = Some (Done ([], c')) \<and>
    c_events c' = rs \<and> length rs = 2"
proof -
  obtain img where img: "sending_ok (example_bundle, img, [take 5 img, drop 5 img])" "5 < length img" using example_sending by blast
  let ?todo = "[(example_bundle, img, [take 5 img, drop 5 img]), (example_bundle, img, [take 5 img, drop 5 img])]"
  let ?ns = "replicate (length (wire_of ?todo)) (7 :: nat)"
  have "list_all sending_ok ?todo" "\<forall>n \<in> set ?ns. 0 < n" "length (wire_of ?todo) \<le> length ?ns" "sb_data (c_recvbuf example_connection) = []"
    using img(1) by (simp_all del: wire_of_simps add: example_connection_def)
  from stream_reception [OF example_connection_up this(4,1-3), of True]
  obtain c' rs where "receive_rounds True ?ns (wire_of ?todo) example_connection = Some (Done ([], c'))"
      "c_events c' = c_events example_connection @ rs" "reported ?todo rs"
    by blast
  moreover have "length rs = 2" using \<open>reported ?todo rs\<close> by (auto simp: reported_def dest: list_all2_lengthD)
  ultimately show ?thesis using img(2) by (intro exI [of _ img] exI [of _ ?ns]) (auto simp: example_connection_def)
qed

end
