(* ===== verification/Bundle_List.thy ===== *)
theory Bundle_List
  imports Fragmentation
begin

text \<open>
  \<open>BundleList.cc\<close>, \<open>BundleMappings.cc\<close> and the reference counts of \<open>Bundle.cc\<close>: bundles are
  shared objects, a list holds pointers to them, and each bundle knows the lists it is on and
  its position on them. A pointer to a bundle or a list is a number, and so is a position, which stays
  valid when other parts of the list change. The list 0 is \<open>all_bundles\<close> of the daemon.
\<close>

section \<open>The store\<close>

type_synonym bundle_ptr = nat
type_synonym list_ptr = nat
type_synonym position = nat

record bundle_heap =
  h_bundle :: "bundle_ptr \<Rightarrow> dtn_bundle"
  h_refs :: "bundle_ptr \<Rightarrow> ref_state"
  h_mappings :: "bundle_ptr \<Rightarrow> (list_ptr \<times> position) list"
  h_list :: "list_ptr \<Rightarrow> (position \<times> bundle_ptr) list"
  h_pipe :: "list_ptr \<Rightarrow> nat option"
  h_next :: position
  h_free_events :: "bundle_ptr list"

abbreviation (input) all_bundles :: list_ptr where "all_bundles \<equiv> 0"

definition find_mapping :: "list_ptr \<Rightarrow> bundle_ptr \<Rightarrow> bundle_heap \<Rightarrow> position option" where
  "find_mapping l b h = map_of (h_mappings h b) l"

definition is_queued_on :: "list_ptr \<Rightarrow> bundle_ptr \<Rightarrow> bundle_heap \<Rightarrow> bool" where
  "is_queued_on l b h \<longleftrightarrow> find_mapping l b h \<noteq> None"

section \<open>Adding\<close>

text \<open>Inserting before a position; without one at the end.\<close>

fun insert_at :: "position option \<Rightarrow> position \<times> bundle_ptr \<Rightarrow> (position \<times> bundle_ptr) list \<Rightarrow> (position \<times> bundle_ptr) list" where
  "insert_at p x [] = [x]"
| "insert_at p x (y # ys) = (if p = Some (fst y) then x # y # ys else y # insert_at p x ys)"

definition link_in :: "list_ptr \<Rightarrow> position option \<Rightarrow> bundle_ptr \<Rightarrow> bundle_heap \<Rightarrow> bundle_heap" where
  "link_in l p b h =
     h\<lparr>h_list := (h_list h)(l := insert_at p (h_next h, b) (h_list h l)),
       h_mappings := (h_mappings h)(b := h_mappings h b @ [(l, h_next h)]), h_next := Suc (h_next h)\<rparr>"

definition notify_list :: "list_ptr \<Rightarrow> bundle_heap \<Rightarrow> bundle_heap" where
  "notify_list l h = h\<lparr>h_pipe := (h_pipe h)(l := map_option Suc (h_pipe h l))\<rparr>"

definition count_ref :: "bundle_ptr \<Rightarrow> bundle_heap \<Rightarrow> (bool \<times> bundle_heap) outcome" where
  "count_ref b h = bind_outcome (add_ref (h_refs h b)) (\<lambda>(_, first, r). Done (first, h\<lparr>h_refs := (h_refs h)(b := r)\<rparr>))"

text \<open>
  The first reference also puts the bundle on the list of all bundles, which takes the second;
  that one is never the first again.
\<close>

definition heap_add_ref :: "bundle_ptr \<Rightarrow> bundle_heap \<Rightarrow> bundle_heap outcome" where
  "heap_add_ref b h =
     bind_outcome (count_ref b h) (\<lambda>(first, h1).
       if first \<and> \<not> is_queued_on all_bundles b h1
       then bind_outcome (count_ref b (link_in all_bundles None b h1)) (\<lambda>(_, h2). Done (notify_list all_bundles h2))
       else Done h1)"

definition heap_del_ref :: "bundle_ptr \<Rightarrow> bundle_heap \<Rightarrow> bundle_heap outcome" where
  "heap_del_ref b h =
     bind_outcome (del_ref (h_refs h b)) (\<lambda>(_, free, r).
       Done (h\<lparr>h_refs := (h_refs h)(b := r), h_free_events := h_free_events h @ (if free then [b] else [])\<rparr>))"

definition list_add_bundle :: "list_ptr \<Rightarrow> position option \<Rightarrow> bundle_ptr \<Rightarrow> bundle_heap \<Rightarrow> bundle_heap outcome" where
  "list_add_bundle l p b h =
     (if is_queued_on l b h then Done h
      else bind_outcome (heap_add_ref b (link_in l p b h)) (\<lambda>h1. Done (notify_list l h1)))"

definition first_position :: "(position \<times> bundle_ptr) list \<Rightarrow> position option" where
  "first_position xs = (case xs of [] \<Rightarrow> None | x # _ \<Rightarrow> Some (fst x))"

definition list_push_front :: "list_ptr \<Rightarrow> bundle_ptr \<Rightarrow> bundle_heap \<Rightarrow> bundle_heap outcome" where
  "list_push_front l b h = list_add_bundle l (first_position (h_list h l)) b h"

definition list_push_back :: "list_ptr \<Rightarrow> bundle_ptr \<Rightarrow> bundle_heap \<Rightarrow> bundle_heap outcome" where
  "list_push_back l b h = list_add_bundle l None b h"

datatype sort_order = SORT_PRIORITY | SORT_FRAG_OFFSET

text \<open>The first bundle with a larger fragment offset; sorting by priority is not implemented.\<close>

fun sorted_position :: "bundle_heap \<Rightarrow> bundle_ptr \<Rightarrow> (position \<times> bundle_ptr) list \<Rightarrow> position option" where
  "sorted_position h b [] = None"
| "sorted_position h b (x # xs) =
     (if b_frag_offset (h_bundle h (snd x)) > b_frag_offset (h_bundle h b) then Some (fst x) else sorted_position h b xs)"

definition list_insert_sorted :: "list_ptr \<Rightarrow> sort_order \<Rightarrow> bundle_ptr \<Rightarrow> bundle_heap \<Rightarrow> bundle_heap outcome" where
  "list_insert_sorted l order b h =
     (if order = SORT_PRIORITY \<and> h_list h l \<noteq> [] then Panic
      else list_add_bundle l (sorted_position h b (h_list h l)) b h)"

text \<open>The random number is an argument.\<close>

definition list_insert_random :: "list_ptr \<Rightarrow> nat \<Rightarrow> bundle_ptr \<Rightarrow> bundle_heap \<Rightarrow> bundle_heap outcome" where
  "list_insert_random l random b h =
     (let xs = h_list h l; location = (if xs = [] then 0 else random mod length xs)
      in list_add_bundle l (first_position (drop location xs)) b h)"

section \<open>Removing\<close>

text \<open>Draining the pipe of the notifier when it has no byte is an error.\<close>

definition drain_list :: "list_ptr \<Rightarrow> bundle_heap \<Rightarrow> bundle_heap outcome" where
  "drain_list l h =
     (case h_pipe h l of None \<Rightarrow> Done h | Some 0 \<Rightarrow> Panic | Some (Suc n) \<Rightarrow> Done (h\<lparr>h_pipe := (h_pipe h)(l := Some n)\<rparr>))"

fun erase_mapping :: "list_ptr \<Rightarrow> (list_ptr \<times> position) list \<Rightarrow> (list_ptr \<times> position) list" where
  "erase_mapping l [] = []"
| "erase_mapping l (m # ms) = (if fst m = l then ms else m # erase_mapping l ms)"

text \<open>An invalid position is undefined.\<close>

definition list_del_bundle :: "list_ptr \<Rightarrow> position \<Rightarrow> bool \<Rightarrow> bundle_heap \<Rightarrow> (bundle_ptr \<times> bundle_heap) outcome" where
  "list_del_bundle l p used_notifier h =
     (case map_of (h_list h l) p of
        None \<Rightarrow> Panic
      | Some b \<Rightarrow>
          bind_outcome
            (case find_mapping l b h of
               None \<Rightarrow> Done h
             | Some q \<Rightarrow> assert_that (q = p) (Done (h\<lparr>h_mappings := (h_mappings h)(b := erase_mapping l (h_mappings h b))\<rparr>)))
            (\<lambda>h1. let h2 = h1\<lparr>h_list := (h_list h1)(l := filter (\<lambda>x. fst x \<noteq> p) (h_list h1 l))\<rparr>
                  in bind_outcome (if used_notifier then Done h2 else drain_list l h2) (\<lambda>h3. Done (b, h3))))"

text \<open>The caller gets a reference of its own to what is popped.\<close>

definition pop_at :: "list_ptr \<Rightarrow> position \<Rightarrow> bool \<Rightarrow> bundle_heap \<Rightarrow> (bundle_ptr option \<times> bundle_heap) outcome" where
  "pop_at l p used_notifier h =
     bind_outcome (list_del_bundle l p used_notifier h) (\<lambda>(b, h1).
       bind_outcome (heap_add_ref b h1) (\<lambda>h2. bind_outcome (heap_del_ref b h2) (\<lambda>h3. Done (Some b, h3))))"

definition list_pop_front :: "list_ptr \<Rightarrow> bool \<Rightarrow> bundle_heap \<Rightarrow> (bundle_ptr option \<times> bundle_heap) outcome" where
  "list_pop_front l used_notifier h =
     (if h_list h l = [] then Done (None, h) else pop_at l (fst (hd (h_list h l))) used_notifier h)"

definition list_pop_back :: "list_ptr \<Rightarrow> bool \<Rightarrow> bundle_heap \<Rightarrow> (bundle_ptr option \<times> bundle_heap) outcome" where
  "list_pop_back l used_notifier h =
     (if h_list h l = [] then Done (None, h) else pop_at l (fst (last (h_list h l))) used_notifier h)"

definition list_erase :: "list_ptr \<Rightarrow> bundle_ptr option \<Rightarrow> bool \<Rightarrow> bundle_heap \<Rightarrow> (bool \<times> bundle_heap) outcome" where
  "list_erase l ob used_notifier h =
     (case ob of
        None \<Rightarrow> Done (False, h)
      | Some b \<Rightarrow>
          (case find_mapping l b h of
             None \<Rightarrow> Done (False, h)
           | Some p \<Rightarrow>
               assert_that (map_of (h_list h l) p = Some b)
                (bind_outcome (list_del_bundle l p used_notifier h) (\<lambda>(b', h1).
                   assert_that (b' = b) (bind_outcome (heap_del_ref b h1) (\<lambda>h2. Done (True, h2)))))))"

definition list_erase_at :: "list_ptr \<Rightarrow> position \<Rightarrow> bool \<Rightarrow> bundle_heap \<Rightarrow> bundle_heap outcome" where
  "list_erase_at l p used_notifier h =
     bind_outcome (list_del_bundle l p used_notifier h) (\<lambda>(b, h1). heap_del_ref b h1)"

section \<open>Searching\<close>

text \<open>The mapping must agree with the list.\<close>

definition list_contains :: "list_ptr \<Rightarrow> bundle_ptr option \<Rightarrow> bundle_heap \<Rightarrow> bool outcome" where
  "list_contains l ob h =
     (case ob of
        None \<Rightarrow> Done False
      | Some b \<Rightarrow> assert_that (is_queued_on l b h = (b \<in> set (map snd (h_list h l)))) (Done (is_queued_on l b h)))"

definition list_find :: "(dtn_bundle \<Rightarrow> bool) \<Rightarrow> list_ptr \<Rightarrow> bundle_heap \<Rightarrow> bundle_ptr option" where
  "list_find P l h = List.find (\<lambda>b. P (h_bundle h b)) (map snd (h_list h l))"

definition find_by_id :: "u32 \<Rightarrow> list_ptr \<Rightarrow> bundle_heap \<Rightarrow> bundle_ptr option" where
  "find_by_id bid = list_find (\<lambda>b. b_bundleid b = bid)"

definition find_by_source :: "endpoint_id \<Rightarrow> bundle_timestamp \<Rightarrow> list_ptr \<Rightarrow> bundle_heap \<Rightarrow> bundle_ptr option" where
  "find_by_source source creation_ts =
     list_find (\<lambda>b. ts_seconds (b_creation_ts b) = ts_seconds creation_ts \<and> ts_seqno (b_creation_ts b) = ts_seqno creation_ts \<and>
                    eid_equals (b_source b) source)"

text \<open>The identity of a bundle that \<open>GbofId::equals\<close> compares, with the length of its payload.\<close>

definition gbof_of :: "dtn_bundle \<Rightarrow> gbof_id" where
  "gbof_of b = \<lparr>gb_source = b_source b, gb_creation_ts = b_creation_ts b, gb_is_fragment = b_is_fragment b,
     gb_frag_length = of_nat (pl_length (b_payload b)), gb_frag_offset = b_frag_offset b\<rparr>"

definition find_by_gbof :: "gbof_id \<Rightarrow> list_ptr \<Rightarrow> bundle_heap \<Rightarrow> bundle_ptr option" where
  "find_by_gbof g = list_find (\<lambda>b. gbof_equals g (gbof_of b))"

definition find_by_extended :: "gbof_id \<Rightarrow> bundle_timestamp \<Rightarrow> list_ptr \<Rightarrow> bundle_heap \<Rightarrow> bundle_ptr option" where
  "find_by_extended g extended_id = list_find (\<lambda>b. ts_equals extended_id (b_extended_id b) \<and> gbof_equals g (gbof_of b))"

section \<open>Whole lists\<close>

text \<open>Popping until the list is empty; the reference to what was popped is dropped.\<close>

partial_function (option) list_clear :: "list_ptr \<Rightarrow> bundle_heap \<Rightarrow> bundle_heap outcome option" where
  "list_clear l h =
     (if h_list h l = [] then Some (Done h)
      else case bind_outcome (list_pop_front l False h) (\<lambda>r. heap_del_ref (the (fst r)) (snd r)) of
             Panic \<Rightarrow> Some Panic
           | Done h1 \<Rightarrow> list_clear l h1)"

definition move_first :: "list_ptr \<Rightarrow> list_ptr \<Rightarrow> bundle_heap \<Rightarrow> bundle_heap outcome" where
  "move_first l other h =
     bind_outcome (list_pop_front l False h) (\<lambda>r. bind_outcome (list_push_back other (the (fst r)) (snd r)) (heap_del_ref (the (fst r))))"

partial_function (option) list_move_contents :: "list_ptr \<Rightarrow> list_ptr \<Rightarrow> bundle_heap \<Rightarrow> bundle_heap outcome option" where
  "list_move_contents l other h =
     (if h_list h l = [] then Some (Done h)
      else case move_first l other h of Panic \<Rightarrow> Some Panic | Done h1 \<Rightarrow> list_move_contents l other h1)"

text \<open>
  \<open>pop_blocking\<close>: the store after the other threads have acted during the wait is an argument,
  which is \<open>None\<close> when the wait timed out.
\<close>

definition pop_blocking :: "list_ptr \<Rightarrow> bundle_heap option \<Rightarrow> bundle_heap \<Rightarrow> (bundle_ptr option \<times> bundle_heap) outcome" where
  "pop_blocking l waited h =
     assert_that (h_pipe h l \<noteq> None)
      (if h_list h l = []
       then case waited of
              None \<Rightarrow> Done (None, h)
            | Some h1 \<Rightarrow> bind_outcome (drain_list l h1) (\<lambda>h2. assert_that (h_list h2 l \<noteq> []) (list_pop_front l True h2))
       else list_pop_front l False h)"

text \<open>The daemon frees a bundle when only the list of all bundles refers to it.\<close>

definition free_bundle :: "bundle_ptr \<Rightarrow> bundle_heap \<Rightarrow> bundle_heap outcome" where
  "free_bundle b h =
     assert_that (refcount (h_refs h b) = 1)
      (bind_outcome (list_contains all_bundles (Some b) h) (\<lambda>c. assert_that c
        (bind_outcome (list_erase all_bundles (Some b) False h) (\<lambda>(_, h1).
           assert_that (h_mappings h1 b = []) (Done h1)))))"

section \<open>Lists and mappings agree\<close>

definition lists_agree :: "bundle_heap \<Rightarrow> bool" where
  "lists_agree h \<longleftrightarrow>
     (\<forall>b. distinct (map fst (h_mappings h b))) \<and> (\<forall>l. distinct (map fst (h_list h l))) \<and>
     (\<forall>l p b. (l, p) \<in> set (h_mappings h b) \<longleftrightarrow> (p, b) \<in> set (h_list h l)) \<and>
     (\<forall>l p b. (p, b) \<in> set (h_list h l) \<longrightarrow> p < h_next h) \<and>
     (\<forall>l. h_pipe h l = None \<or> h_pipe h l = Some (length (h_list h l)))"

abbreviation refs :: "bundle_ptr \<Rightarrow> bundle_heap \<Rightarrow> int" where "refs b h \<equiv> refcount (h_refs h b)"

text \<open>
  A bundle has at least the references of the lists it is on. It is on the list of all bundles
  while there is a reference, and its free event is pending when that is the only one.
\<close>

definition refs_agree :: "bundle_heap \<Rightarrow> bool" where
  "refs_agree h \<longleftrightarrow>
     (\<forall>b. int (length (h_mappings h b)) \<le> refs b h \<and> (refs b h = 1 \<longrightarrow> freed (h_refs h b)) \<and>
          (freed (h_refs h b) \<longrightarrow> refs b h \<le> 1) \<and> (0 < refs b h \<longrightarrow> is_queued_on all_bundles b h) \<and>
          (b \<in> set (h_free_events h) \<longleftrightarrow> freed (h_refs h b) \<and> refs b h = 1)) \<and>
     distinct (h_free_events h)"

definition heap_inv :: "bundle_heap \<Rightarrow> bool" where
  "heap_inv h \<longleftrightarrow> lists_agree h \<and> refs_agree h"

lemma set_insert_at [simp]: "set (insert_at p x ys) = insert x (set ys)"
  by (induction ys) auto

lemma length_insert_at [simp]: "length (insert_at p x ys) = Suc (length ys)"
  by (induction ys) auto

lemma distinct_insert_at: "fst x \<notin> fst ` set ys \<Longrightarrow> distinct (map fst ys) \<Longrightarrow> distinct (map fst (insert_at p x ys))"
  by (induction ys) (auto simp: image_iff)

lemma lists_agreeD:
  assumes "lists_agree h"
  shows "distinct (map fst (h_mappings h b))" "distinct (map fst (h_list h l))"
    and "(l, p) \<in> set (h_mappings h b) \<longleftrightarrow> (p, b) \<in> set (h_list h l)"
    and "(p, b) \<in> set (h_list h l) \<Longrightarrow> p < h_next h"
    and "h_pipe h l = None \<or> h_pipe h l = Some (length (h_list h l))"
  using assms unfolding lists_agree_def by blast+

lemma queued_mapping: "is_queued_on l b h \<longleftrightarrow> l \<in> fst ` set (h_mappings h b)"
  by (simp add: is_queued_on_def find_mapping_def map_of_eq_None_iff)

lemma queued_iff: "lists_agree h \<Longrightarrow> is_queued_on l b h \<longleftrightarrow> b \<in> snd ` set (h_list h l)"
  unfolding queued_mapping by (force dest: lists_agreeD(3) [THEN iffD1] lists_agreeD(3) [THEN iffD2])

text \<open>Attaching a bundle to a list and detaching it, with the reference that the list has.\<close>

definition bump :: "bundle_ptr \<Rightarrow> bundle_heap \<Rightarrow> bundle_heap" where
  "bump b h = h\<lparr>h_refs := (h_refs h)(b := (h_refs h b)\<lparr>refcount := refs b h + 1\<rparr>)\<rparr>"

definition attach :: "list_ptr \<Rightarrow> position option \<Rightarrow> bundle_ptr \<Rightarrow> bundle_heap \<Rightarrow> bundle_heap" where
  "attach l p b h = notify_list l (bump b (link_in l p b h))"

definition detach :: "list_ptr \<Rightarrow> position \<Rightarrow> bundle_ptr \<Rightarrow> bundle_heap \<Rightarrow> bundle_heap" where
  "detach l p b h =
     h\<lparr>h_list := (h_list h)(l := filter (\<lambda>x. fst x \<noteq> p) (h_list h l)),
       h_mappings := (h_mappings h)(b := erase_mapping l (h_mappings h b)),
       h_pipe := (h_pipe h)(l := map_option (\<lambda>n. n - 1) (h_pipe h l))\<rparr>"

lemma attach_fields [simp]:
  "h_list (attach l p b h) = (h_list h)(l := insert_at p (h_next h, b) (h_list h l))"
  "h_mappings (attach l p b h) = (h_mappings h)(b := h_mappings h b @ [(l, h_next h)])"
  "h_refs (attach l p b h) = (h_refs h)(b := (h_refs h b)\<lparr>refcount := refs b h + 1\<rparr>)"
  "h_next (attach l p b h) = Suc (h_next h)" "h_free_events (attach l p b h) = h_free_events h"
  "h_pipe (attach l p b h) = (h_pipe h)(l := map_option Suc (h_pipe h l))" "h_bundle (attach l p b h) = h_bundle h"
  by (simp_all add: attach_def notify_list_def bump_def link_in_def)

lemma detach_fields [simp]:
  "h_list (detach l p b h) = (h_list h)(l := filter (\<lambda>x. fst x \<noteq> p) (h_list h l))"
  "h_mappings (detach l p b h) = (h_mappings h)(b := erase_mapping l (h_mappings h b))"
  "h_refs (detach l p b h) = h_refs h" "h_next (detach l p b h) = h_next h" "h_free_events (detach l p b h) = h_free_events h"
  "h_pipe (detach l p b h) = (h_pipe h)(l := map_option (\<lambda>n. n - 1) (h_pipe h l))" "h_bundle (detach l p b h) = h_bundle h"
  by (simp_all add: detach_def)

lemma set_erase_mapping: "distinct (map fst ms) \<Longrightarrow> m \<in> set (erase_mapping l ms) \<longleftrightarrow> m \<in> set ms \<and> fst m \<noteq> l"
  by (induction ms) auto

lemma distinct_erase_mapping: "distinct (map fst ms) \<Longrightarrow> distinct (map fst (erase_mapping l ms))"
  by (induction ms) (auto simp: set_erase_mapping image_iff)

lemma length_erase_mapping: "l \<in> fst ` set ms \<Longrightarrow> Suc (length (erase_mapping l ms)) = length ms"
  by (induction ms) auto

lemma attach_agree:
  assumes h: "lists_agree h" and q: "\<not> is_queued_on l b h"
  shows "lists_agree (attach l p b h)"
proof -
  have below: "p' \<noteq> h_next h" if "(p', b') \<in> set (h_list h l')" for p' b' l' using lists_agreeD(4) [OF h that] by simp
  then have fresh: "h_next h \<notin> fst ` set (h_list h l')" for l' by force
  have new: "l \<notin> fst ` set (h_mappings h b)" using q by (simp add: queued_mapping)
  have "distinct (map fst (insert_at p (h_next h, b) (h_list h l)))"
    by (rule distinct_insert_at) (simp_all add: fresh lists_agreeD(2) [OF h])
  then show ?thesis
    unfolding lists_agree_def attach_fields
    using lists_agreeD(1,2,5) [OF h] lists_agreeD(3) [OF h] lists_agreeD(4) [OF h] new below
    by (intro conjI allI) (auto simp: less_Suc_eq)
qed

lemma filter_position:
  "distinct (map fst xs) \<Longrightarrow> (p, b) \<in> set xs \<Longrightarrow> Suc (length (filter (\<lambda>x. fst x \<noteq> p) xs)) = length xs"
proof (induction xs)
  case (Cons x xs)
  show ?case
  proof (cases "fst x = p")
    case True
    then have "\<forall>y \<in> set xs. fst y \<noteq> p" using Cons.prems(1) by (auto simp: image_iff)
    then show ?thesis using True by (simp add: filter_True)
  next
    case False
    then show ?thesis using Cons by auto
  qed
qed simp

lemma detach_agree:
  assumes h: "lists_agree h" and m: "(p, b) \<in> set (h_list h l)"
  shows "lists_agree (detach l p b h)"
proof -
  note d = lists_agreeD(1) [OF h] lists_agreeD(2) [OF h]
  have one: "b' = b" if "(p, b') \<in> set (h_list h l)" for b' using d(2) m that by (metis eq_key_imp_eq_value)
  have "(l, p) \<in> set (h_mappings h b)" using m lists_agreeD(3) [OF h] by simp
  then have "p' = p" if "(l, p') \<in> set (h_mappings h b)" for p' using d(1) that by (metis eq_key_imp_eq_value)
  then have only: "p' = p" if "(p', b) \<in> set (h_list h l)" for p' using that lists_agreeD(3) [OF h] by simp
  show ?thesis
    unfolding lists_agree_def detach_fields
  proof (intro conjI allI)
    show "distinct (map fst (((h_mappings h)(b := erase_mapping l (h_mappings h b))) b'))" for b'
      by (simp add: d distinct_erase_mapping)
    show "distinct (map fst (((h_list h)(l := filter (\<lambda>x. fst x \<noteq> p) (h_list h l))) l'))" for l'
      by (simp add: d distinct_map_filter)
    show "(l', p') \<in> set (((h_mappings h)(b := erase_mapping l (h_mappings h b))) b') \<longleftrightarrow>
        (p', b') \<in> set (((h_list h)(l := filter (\<lambda>x. fst x \<noteq> p) (h_list h l))) l')" for l' p' b'
    proof (cases "b' = b \<and> l' = l")
      case True
      then show ?thesis using only [of p'] by (auto simp: d set_erase_mapping)
    next
      case False
      then have "p' \<noteq> p" if "l' = l" "(p', b') \<in> set (h_list h l')" using one [of b'] that by blast
      then show ?thesis using False by (auto simp: d set_erase_mapping lists_agreeD(3) [OF h])
    qed
    show "(p', b') \<in> set (((h_list h)(l := filter (\<lambda>x. fst x \<noteq> p) (h_list h l))) l') \<longrightarrow> p' < h_next h" for l' p' b'
      using lists_agreeD(4) [OF h, of p' b' l'] by (auto split: if_splits)
    show "((h_pipe h)(l := map_option (\<lambda>n. n - 1) (h_pipe h l))) l' = None \<or>
        ((h_pipe h)(l := map_option (\<lambda>n. n - 1) (h_pipe h l))) l' =
          Some (length (((h_list h)(l := filter (\<lambda>x. fst x \<noteq> p) (h_list h l))) l'))" for l'
      using lists_agreeD(5) [OF h, of l'] filter_position [OF d(2) m] by auto
  qed
qed

section \<open>The operations in terms of attaching and detaching\<close>

definition unref :: "bundle_ptr \<Rightarrow> bundle_heap \<Rightarrow> bundle_heap" where
  "unref b h =
     h\<lparr>h_refs := (h_refs h)(b := (h_refs h b)\<lparr>refcount := refs b h - 1, freed := freed (h_refs h b) \<or> refs b h = 2\<rparr>),
       h_free_events := h_free_events h @ (if refs b h = 2 then [b] else [])\<rparr>"

lemma unref_fields [simp]:
  "h_list (unref b h) = h_list h" "h_mappings (unref b h) = h_mappings h" "h_next (unref b h) = h_next h"
  "h_pipe (unref b h) = h_pipe h" "h_bundle (unref b h) = h_bundle h"
  "h_refs (unref b h) = (h_refs h)(b := (h_refs h b)\<lparr>refcount := refs b h - 1, freed := freed (h_refs h b) \<or> refs b h = 2\<rparr>)"
  "h_free_events (unref b h) = h_free_events h @ (if refs b h = 2 then [b] else [])"
  by (simp_all add: unref_def)

lemma heap_add_ref_eq:
  assumes "\<not> freed (h_refs h b)" and "0 \<le> refs b h"
  shows "heap_add_ref b h =
    Done (if refs b h = 0 \<and> \<not> is_queued_on all_bundles b h then attach all_bundles None b (bump b h) else bump b h)"
proof -
  have count: "count_ref b h' = Done (refs b h' + 1 = 1, bump b h')" if "\<not> freed (h_refs h' b)" "0 \<le> refs b h'" for h'
    using that by (simp add: count_ref_def add_ref_def bump_def Let_def)
  let ?h = "link_in all_bundles None b (bump b h)"
  have "\<not> freed (h_refs ?h b)" "0 \<le> refs b ?h" using assms by (simp_all add: bump_def link_in_def)
  note second = count [OF this]
  have "is_queued_on all_bundles b (bump b h) = is_queued_on all_bundles b h" by (simp add: bump_def queued_mapping)
  then show ?thesis by (simp add: heap_add_ref_def count [OF assms] second attach_def)
qed

lemma heap_del_ref_eq: "\<not> freed (h_refs h b) \<Longrightarrow> 2 \<le> refs b h \<Longrightarrow> heap_del_ref b h = Done (unref b h)"
  by (cases "h_refs h b"; cases "refs b h = 2") (auto simp: heap_del_ref_def del_ref_def unref_def Let_def)

lemma refs_agreeD:
  assumes "refs_agree h"
  shows "int (length (h_mappings h b)) \<le> refs b h" "refs b h = 1 \<Longrightarrow> freed (h_refs h b)" "freed (h_refs h b) \<Longrightarrow> refs b h \<le> 1"
    and "0 < refs b h \<Longrightarrow> is_queued_on all_bundles b h"
    and "b \<in> set (h_free_events h) \<longleftrightarrow> freed (h_refs h b) \<and> refs b h = 1" and "distinct (h_free_events h)"
  using assms unfolding refs_agree_def by blast+

lemma queued_mappings: "is_queued_on l b h \<Longrightarrow> 0 < length (h_mappings h b)"
  by (auto simp: queued_mapping)

text \<open>A bundle that is on another list than that of all bundles, or to which more refer than lists, is not freed.\<close>

lemma referenced_alive:
  assumes h: "heap_inv h" and r: "int (length (h_mappings h b)) < refs b h"
  shows "2 \<le> refs b h \<and> \<not> freed (h_refs h b)"
proof -
  have ra: "refs_agree h" using h by (simp add: heap_inv_def)
  have "0 < length (h_mappings h b)" using refs_agreeD(4) [OF ra, of b] queued_mappings r by force
  then have "2 \<le> refs b h" using r by linarith
  then show ?thesis using refs_agreeD(3) [OF ra, of b] by auto
qed

lemma listed_alive:
  assumes h: "heap_inv h" and q: "is_queued_on l b h" "l \<noteq> all_bundles"
  shows "2 \<le> refs b h \<and> \<not> freed (h_refs h b) \<and> 2 \<le> length (h_mappings h b)"
proof -
  have ra: "refs_agree h" using h by (simp add: heap_inv_def)
  have "0 < refs b h" using queued_mappings [OF q(1)] refs_agreeD(1) [OF ra, of b] by linarith
  then have "all_bundles \<in> fst ` set (h_mappings h b)" using refs_agreeD(4) [OF ra] by (simp add: queued_mapping)
  then have "2 \<le> length (h_mappings h b)"
    using q unfolding queued_mapping by (cases "h_mappings h b"; cases "tl (h_mappings h b)") auto
  then show ?thesis using refs_agreeD(1) [OF ra, of b] refs_agreeD(3) [OF ra, of b] by auto
qed

lemma attach_notify: "notify_list l (attach l' p b h) = attach l' p b (notify_list l h)"
  by (cases "l = l'") (simp_all add: attach_def notify_list_def bump_def link_in_def fun_upd_twist)

lemma attach_queued: "is_queued_on l' b' (attach l p b h) \<longleftrightarrow> is_queued_on l' b' h \<or> (l' = l \<and> b' = b)"
  by (auto simp: queued_mapping)

definition added :: "list_ptr \<Rightarrow> position option \<Rightarrow> bundle_ptr \<Rightarrow> bundle_heap \<Rightarrow> bundle_heap" where
  "added l p b h = (if is_queued_on l b h then h
     else if refs b h = 0 then attach all_bundles None b (attach l p b h) else attach l p b h)"

lemma list_add_bundle_ok:
  assumes h: "heap_inv h" and b: "\<not> freed (h_refs h b)" "l \<noteq> all_bundles"
  shows "list_add_bundle l p b h = Done (added l p b h) \<and> heap_inv (added l p b h)"
proof (cases "is_queued_on l b h")
  case True
  then show ?thesis using h by (simp add: list_add_bundle_def added_def)
next
  case False
  have la: "lists_agree h" and ra: "refs_agree h" using h by (simp_all add: heap_inv_def)
  have nn: "0 \<le> refs b h" using refs_agreeD(1) [OF ra, of b] by linarith
  have zero: "refs b h = 0 \<longleftrightarrow> \<not> is_queued_on all_bundles b h"
    using nn refs_agreeD(1,4) [OF ra, of b] queued_mappings [of all_bundles b h] by force
  let ?h = "link_in l p b h"
  have same: "h_refs ?h = h_refs h" "is_queued_on all_bundles b ?h \<longleftrightarrow> is_queued_on all_bundles b h"
    using b(2) by (auto simp: link_in_def queued_mapping)
  have "heap_add_ref b ?h = Done (if refs b h = 0 then attach all_bundles None b (bump b ?h) else bump b ?h)"
    using heap_add_ref_eq [of ?h b] b(1) nn zero unfolding same by auto
  then have eq: "list_add_bundle l p b h = Done (added l p b h)"
    using False by (simp add: list_add_bundle_def added_def attach_notify) (simp add: attach_def)
  have la1: "lists_agree (attach l p b h)" by (rule attach_agree [OF la False])
  have not1: "refs b h \<noteq> 1" using b(1) refs_agreeD(2) [OF ra, of b] by auto
  show ?thesis
  proof (cases "refs b h = 0")
    case True
    then have m: "h_mappings h b = []" using refs_agreeD(1) [OF ra, of b] by simp
    have "lists_agree (attach all_bundles None b (attach l p b h))"
      by (rule attach_agree [OF la1]) (use zero True b(2) in \<open>simp add: attach_queued\<close>)
    moreover have "refs_agree (attach all_bundles None b (attach l p b h))"
      using ra True m b(1) unfolding refs_agree_def by (auto simp: attach_queued)
    ultimately show ?thesis using eq False True by (simp add: added_def heap_inv_def)
  next
    case more: False
    then have "refs_agree (attach l p b h)"
      using ra not1 nn b(1) zero unfolding refs_agree_def by (auto simp: attach_queued)
    then show ?thesis using eq False more la1 by (simp add: added_def heap_inv_def)
  qed
qed

lemma listed_mapping:
  assumes "lists_agree h" and "(p, b) \<in> set (h_list h l)"
  shows "find_mapping l b h = Some p" "map_of (h_list h l) p = Some b" "is_queued_on l b h"
proof -
  show "find_mapping l b h = Some p"
    unfolding find_mapping_def using assms lists_agreeD(1,3) [OF assms(1)] by (simp add: map_of_is_SomeI)
  then show "is_queued_on l b h" by (simp add: is_queued_on_def)
  show "map_of (h_list h l) p = Some b" using assms lists_agreeD(2) [OF assms(1)] by (simp add: map_of_is_SomeI)
qed

lemma list_del_eq:
  assumes h: "lists_agree h" and m: "(p, b) \<in> set (h_list h l)"
  shows "list_del_bundle l p False h = Done (b, detach l p b h)"
proof -
  have "0 < length (h_list h l)" using m by auto
  then have "h_pipe h l = None \<or> (\<exists>n. h_pipe h l = Some (Suc n))" using lists_agreeD(5) [OF h, of l] by (metis gr0_conv_Suc)
  then show ?thesis
    using listed_mapping [OF h m] by (auto simp: list_del_bundle_def drain_list_def detach_def Let_def fun_upd_idem)
qed

lemma detach_inv:
  assumes h: "heap_inv h" and m: "(p, b) \<in> set (h_list h l)" "l \<noteq> all_bundles"
  shows "heap_inv (detach l p b h) \<and> int (length (h_mappings (detach l p b h) b)) < refs b (detach l p b h)"
proof -
  have la: "lists_agree h" and ra: "refs_agree h" using h by (simp_all add: heap_inv_def)
  have d: "distinct (map fst (h_mappings h b))" by (rule lists_agreeD(1) [OF la])
  have q: "is_queued_on l b h" by (rule listed_mapping(3) [OF la m(1)])
  have len: "Suc (length (erase_mapping l (h_mappings h b))) = length (h_mappings h b)"
    by (rule length_erase_mapping) (use q in \<open>simp add: queued_mapping\<close>)
  have q0: "is_queued_on all_bundles b' (detach l p b h) \<longleftrightarrow> is_queued_on all_bundles b' h" for b'
    using m(2) d by (auto simp: queued_mapping set_erase_mapping image_iff)
  have le: "int (length (h_mappings (detach l p b h) b')) \<le> refs b' h" for b'
    using refs_agreeD(1) [OF ra, of b'] len by auto
  have "refs_agree (detach l p b h)"
    unfolding refs_agree_def detach_fields(3,5) q0
    using le refs_agreeD [OF ra] by blast
  moreover have "int (length (h_mappings (detach l p b h) b)) < refs b (detach l p b h)"
    using len refs_agreeD(1) [OF ra, of b] by simp
  ultimately show ?thesis using detach_agree [OF la m(1)] by (simp add: heap_inv_def)
qed

lemma unref_inv:
  assumes h: "heap_inv h" and r: "int (length (h_mappings h b)) < refs b h"
  shows "heap_del_ref b h = Done (unref b h) \<and> heap_inv (unref b h)"
proof -
  note alive = referenced_alive [OF h r]
  have la: "lists_agree h" and ra: "refs_agree h" using h by (simp_all add: heap_inv_def)
  have q: "is_queued_on l b' (unref b h) \<longleftrightarrow> is_queued_on l b' h" for l b' by (simp add: queued_mapping)
  have "refs_agree (unref b h)"
    using ra alive r unfolding refs_agree_def q unref_fields by auto
  moreover have "lists_agree (unref b h)" using la by (simp add: lists_agree_def)
  ultimately show ?thesis using alive heap_del_ref_eq by (simp add: heap_inv_def)
qed

lemma pop_at_eq:
  assumes h: "heap_inv h" and m: "(p, b) \<in> set (h_list h l)" "l \<noteq> all_bundles"
  shows "pop_at l p False h = Done (Some b, detach l p b h)"
proof -
  have la: "lists_agree h" using h by (simp add: heap_inv_def)
  note alive = listed_alive [OF h listed_mapping(3) [OF la m(1)] m(2)]
  let ?h = "detach l p b h"
  have "heap_add_ref b ?h = Done (bump b ?h)" using heap_add_ref_eq [of ?h b] alive by simp
  moreover have "heap_del_ref b (bump b ?h) = Done ?h"
  proof -
    have "heap_del_ref b (bump b ?h) = Done (unref b (bump b ?h))"
      by (rule heap_del_ref_eq) (use alive in \<open>simp_all add: bump_def\<close>)
    moreover have "unref b (bump b ?h) = ?h" using alive by (simp add: unref_def bump_def detach_def fun_upd_idem)
    ultimately show ?thesis by simp
  qed
  ultimately show ?thesis by (simp add: pop_at_def list_del_eq [OF la m(1)])
qed

section \<open>Plain lists\<close>

text \<open>What the operations do to the lists of bundles, without positions, mappings and counts.\<close>

type_synonym plain_lists = "list_ptr \<Rightarrow> bundle_ptr list"

definition plain :: "bundle_heap \<Rightarrow> plain_lists" where
  "plain h l = map snd (h_list h l)"

datatype list_op =
    PushFront list_ptr bundle_ptr | PushBack list_ptr bundle_ptr | InsertSorted list_ptr bundle_ptr
  | InsertRandom list_ptr nat bundle_ptr | Erase list_ptr bundle_ptr | PopFront list_ptr | PopBack list_ptr
  | Clear list_ptr | MoveContents list_ptr list_ptr | TakeRef bundle_ptr | DropRef bundle_ptr | FreeEvent bundle_ptr

fun apply_op :: "list_op \<Rightarrow> bundle_heap \<Rightarrow> bundle_heap outcome option" where
  "apply_op (PushFront l b) h = Some (list_push_front l b h)"
| "apply_op (PushBack l b) h = Some (list_push_back l b h)"
| "apply_op (InsertSorted l b) h = Some (list_insert_sorted l SORT_FRAG_OFFSET b h)"
| "apply_op (InsertRandom l n b) h = Some (list_insert_random l n b h)"
| "apply_op (Erase l b) h = Some (bind_outcome (list_erase l (Some b) False h) (\<lambda>r. Done (snd r)))"
| "apply_op (PopFront l) h = Some (bind_outcome (list_pop_front l False h) (\<lambda>r. Done (snd r)))"
| "apply_op (PopBack l) h = Some (bind_outcome (list_pop_back l False h) (\<lambda>r. Done (snd r)))"
| "apply_op (Clear l) h = list_clear l h"
| "apply_op (MoveContents l other) h = list_move_contents l other h"
| "apply_op (TakeRef b) h = Some (heap_add_ref b h)"
| "apply_op (DropRef b) h = Some (heap_del_ref b h)"
| "apply_op (FreeEvent b) h = Some (free_bundle b (h\<lparr>h_free_events := tl (h_free_events h)\<rparr>))"

text \<open>
  What callers may do: they do not use a freed bundle, leave the list of all bundles to the
  reference counts, and drop only references that they hold. Free events are handled in their order.
\<close>

fun allowed :: "list_op \<Rightarrow> bundle_heap \<Rightarrow> bool" where
  "allowed (PushFront l b) h \<longleftrightarrow> l \<noteq> all_bundles \<and> \<not> freed (h_refs h b)"
| "allowed (PushBack l b) h \<longleftrightarrow> l \<noteq> all_bundles \<and> \<not> freed (h_refs h b)"
| "allowed (InsertSorted l b) h \<longleftrightarrow> l \<noteq> all_bundles \<and> \<not> freed (h_refs h b)"
| "allowed (InsertRandom l n b) h \<longleftrightarrow> l \<noteq> all_bundles \<and> \<not> freed (h_refs h b)"
| "allowed (Erase l b) h \<longleftrightarrow> l \<noteq> all_bundles"
| "allowed (PopFront l) h \<longleftrightarrow> l \<noteq> all_bundles"
| "allowed (PopBack l) h \<longleftrightarrow> l \<noteq> all_bundles"
| "allowed (Clear l) h \<longleftrightarrow> l \<noteq> all_bundles"
| "allowed (MoveContents l other) h \<longleftrightarrow> l \<noteq> all_bundles \<and> other \<noteq> all_bundles \<and> l \<noteq> other"
| "allowed (TakeRef b) h \<longleftrightarrow> \<not> freed (h_refs h b)"
| "allowed (DropRef b) h \<longleftrightarrow> int (length (h_mappings h b)) < refs b h"
| "allowed (FreeEvent b) h \<longleftrightarrow> h_free_events h \<noteq> [] \<and> b = hd (h_free_events h)"

definition enter :: "bundle_ptr \<Rightarrow> plain_lists \<Rightarrow> plain_lists" where
  "enter b L = (if b \<in> set (L all_bundles) then L else L(all_bundles := L all_bundles @ [b]))"

definition insert_plain :: "list_ptr \<Rightarrow> (bundle_ptr list \<Rightarrow> bundle_ptr list) \<Rightarrow> bundle_ptr \<Rightarrow> plain_lists \<Rightarrow> plain_lists" where
  "insert_plain l ins b L = (if b \<in> set (L l) then L else enter b (L(l := ins (L l))))"

fun plain_op :: "list_op \<Rightarrow> (bundle_ptr \<Rightarrow> dtn_bundle) \<Rightarrow> plain_lists \<Rightarrow> plain_lists" where
  "plain_op (PushFront l b) B L = insert_plain l (\<lambda>xs. b # xs) b L"
| "plain_op (PushBack l b) B L = insert_plain l (\<lambda>xs. xs @ [b]) b L"
| "plain_op (InsertSorted l b) B L = insert_plain l (\<lambda>xs.
     takeWhile (\<lambda>x. b_frag_offset (B x) \<le> b_frag_offset (B b)) xs @ b # dropWhile (\<lambda>x. b_frag_offset (B x) \<le> b_frag_offset (B b)) xs) b L"
| "plain_op (InsertRandom l n b) B L = insert_plain l (\<lambda>xs. take (n mod length xs) xs @ b # drop (n mod length xs) xs) b L"
| "plain_op (Erase l b) B L = L(l := remove1 b (L l))"
| "plain_op (PopFront l) B L = L(l := tl (L l))"
| "plain_op (PopBack l) B L = L(l := butlast (L l))"
| "plain_op (Clear l) B L = L(l := [])"
| "plain_op (MoveContents l other) B L = L(l := [], other := L other @ filter (\<lambda>b. b \<notin> set (L other)) (L l))"
| "plain_op (TakeRef b) B L = enter b L"
| "plain_op (DropRef b) B L = L"
| "plain_op (FreeEvent b) B L = L(all_bundles := remove1 b (L all_bundles))"

lemma plain_queued: "lists_agree h \<Longrightarrow> is_queued_on l b h \<longleftrightarrow> b \<in> set (plain h l)"
  by (simp add: queued_iff plain_def)

lemma plain_distinct:
  assumes "lists_agree h"
  shows "distinct (plain h l)"
proof -
  have "distinct (map fst (h_list h l))" by (rule lists_agreeD(2) [OF assms])
  moreover have "p = p'" if "(p, b) \<in> set (h_list h l)" "(p', b) \<in> set (h_list h l)" for p p' b
    using that lists_agreeD(1,3) [OF assms] by (metis eq_key_imp_eq_value)
  ultimately show ?thesis by (auto simp: plain_def distinct_map inj_on_def)
qed

lemma insert_at_None [simp]: "insert_at None x ys = ys @ [x]"
  by (induction ys) auto

lemma insert_at_position:
  "distinct (map fst xs) \<Longrightarrow> insert_at (first_position (drop k xs)) x xs = take k xs @ x # drop k xs"
proof (induction xs arbitrary: k)
  case (Cons y ys)
  show ?case
  proof (cases k)
    case (Suc k')
    have "fst y \<noteq> fst z" if "z \<in> set (drop k' ys)" for z using that Cons.prems in_set_dropD [OF that] by force
    then have "first_position (drop k' ys) \<noteq> Some (fst y)"
    proof (cases "drop k' ys")
      case (Cons z zs)
      then have "fst y \<noteq> fst z" using \<open>\<And>z. z \<in> set (drop k' ys) \<Longrightarrow> _\<close> [of z] by simp
      then show ?thesis using Cons by (simp add: first_position_def)
    qed (simp add: first_position_def)
    then show ?thesis using Cons by (simp add: Suc)
  qed (simp add: first_position_def)
qed (simp add: first_position_def)

lemma insert_at_sorted:
  "distinct (map fst xs) \<Longrightarrow> map snd (insert_at (sorted_position h b xs) (p, b) xs) =
     takeWhile (\<lambda>x. b_frag_offset (h_bundle h x) \<le> b_frag_offset (h_bundle h b)) (map snd xs) @
     b # dropWhile (\<lambda>x. b_frag_offset (h_bundle h x) \<le> b_frag_offset (h_bundle h b)) (map snd xs)"
proof (induction xs)
  case (Cons y ys)
  have "sorted_position h b zs = Some q \<Longrightarrow> q \<in> fst ` set zs" for zs q by (induction zs) (auto split: if_splits)
  then have "sorted_position h b ys \<noteq> Some (fst y)" using Cons.prems by auto
  then show ?case using Cons by (auto simp: not_less [symmetric])
qed simp

section \<open>Each operation keeps the invariant and does what it does to plain lists\<close>

text \<open>The outcome of an operation: it returns, keeps the invariant, and changes the lists so.\<close>

definition carries_out :: "bundle_heap outcome \<Rightarrow> bundle_heap \<Rightarrow> plain_lists \<Rightarrow> bool" where
  "carries_out m h L \<longleftrightarrow> (\<exists>h'. m = Done h' \<and> heap_inv h' \<and> plain h' = L \<and> h_bundle h' = h_bundle h)"

lemma heap_invD: "heap_inv h \<Longrightarrow> lists_agree h" "heap_inv h \<Longrightarrow> refs_agree h"
  by (simp_all add: heap_inv_def)

lemma no_refs_iff: "heap_inv h \<Longrightarrow> refs b h = 0 \<longleftrightarrow> b \<notin> set (plain h all_bundles)"
proof -
  assume h: "heap_inv h"
  note ra = heap_invD(2) [OF h]
  have "0 < refs b h \<longleftrightarrow> is_queued_on all_bundles b h"
    using refs_agreeD(1) [OF ra, of b] refs_agreeD(4) [OF ra, of b] queued_mappings [of all_bundles b h] by linarith
  then show ?thesis using plain_queued [OF heap_invD(1) [OF h]] refs_agreeD(1) [OF ra, of b] by force
qed

lemma list_add_plain:
  assumes h: "heap_inv h" and b: "\<not> freed (h_refs h b)" "l \<noteq> all_bundles"
    and ins: "map snd (insert_at p (h_next h, b) (h_list h l)) = f (plain h l)"
  shows "carries_out (list_add_bundle l p b h) h (insert_plain l f b (plain h))"
proof -
  have "plain (added l p b h) = insert_plain l f b (plain h)"
  proof (cases "is_queued_on l b h")
    case True
    then show ?thesis using plain_queued [OF heap_invD(1) [OF h]] by (simp add: added_def insert_plain_def)
  next
    case False
    have pl: "plain (attach l p b h) = (plain h)(l := f (plain h l))"
      using ins by (auto simp: plain_def)
    show ?thesis
      using False b(2) pl no_refs_iff [OF h, of b] plain_queued [OF heap_invD(1) [OF h], of l b]
      by (auto simp: added_def insert_plain_def enter_def) (auto simp: plain_def fun_eq_iff)
  qed
  moreover have "h_bundle (added l p b h) = h_bundle h" by (simp add: added_def)
  ultimately show ?thesis using list_add_bundle_ok [OF h b] by (auto simp: carries_out_def)
qed

lemma push_front_plain:
  "heap_inv h \<Longrightarrow> \<not> freed (h_refs h b) \<Longrightarrow> l \<noteq> all_bundles \<Longrightarrow>
     carries_out (list_push_front l b h) h (insert_plain l (\<lambda>xs. b # xs) b (plain h))"
  unfolding list_push_front_def
  using insert_at_position [of "h_list h l" 0 "(h_next h, b)"] lists_agreeD(2) [OF heap_invD(1)]
  by (intro list_add_plain) (simp_all add: plain_def)

lemma push_back_plain:
  "heap_inv h \<Longrightarrow> \<not> freed (h_refs h b) \<Longrightarrow> l \<noteq> all_bundles \<Longrightarrow>
     carries_out (list_push_back l b h) h (insert_plain l (\<lambda>xs. xs @ [b]) b (plain h))"
  unfolding list_push_back_def by (intro list_add_plain) (simp_all add: plain_def)

lemma insert_sorted_plain:
  "heap_inv h \<Longrightarrow> \<not> freed (h_refs h b) \<Longrightarrow> l \<noteq> all_bundles \<Longrightarrow>
     carries_out (list_insert_sorted l SORT_FRAG_OFFSET b h) h (insert_plain l (\<lambda>xs.
       takeWhile (\<lambda>x. b_frag_offset (h_bundle h x) \<le> b_frag_offset (h_bundle h b)) xs @
       b # dropWhile (\<lambda>x. b_frag_offset (h_bundle h x) \<le> b_frag_offset (h_bundle h b)) xs) b (plain h))"
  using insert_at_sorted [of "h_list h l" h b "h_next h", OF lists_agreeD(2) [OF heap_invD(1)]]
  by (simp add: list_insert_sorted_def) (intro list_add_plain, simp_all add: plain_def)

lemma insert_random_plain:
  assumes "heap_inv h" and "\<not> freed (h_refs h b)" and "l \<noteq> all_bundles"
  shows "carries_out (list_insert_random l n b h) h
    (insert_plain l (\<lambda>xs. take (n mod length xs) xs @ b # drop (n mod length xs) xs) b (plain h))"
proof -
  let ?xs = "h_list h l"
  have "insert_at (first_position (drop (n mod length ?xs) ?xs)) (h_next h, b) ?xs =
      take (n mod length ?xs) ?xs @ (h_next h, b) # drop (n mod length ?xs) ?xs"
    by (rule insert_at_position [OF lists_agreeD(2) [OF heap_invD(1) [OF assms(1)]]])
  then show ?thesis
    unfolding list_insert_random_def Let_def
    by (cases "?xs = []") (intro list_add_plain assms, simp add: plain_def take_map drop_map first_position_def)+
qed

lemma remove_position:
  "distinct (map snd xs) \<Longrightarrow> distinct (map fst xs) \<Longrightarrow> (p, b) \<in> set xs \<Longrightarrow>
     map snd (filter (\<lambda>x. fst x \<noteq> p) xs) = remove1 b (map snd xs)"
proof (induction xs)
  case (Cons x xs)
  show ?case
  proof (cases "x = (p, b)")
    case True
    then have "\<forall>y \<in> set xs. fst y \<noteq> p" using Cons.prems(2) by (auto simp: image_iff)
    then show ?thesis using True by (simp add: filter_True)
  next
    case False
    then have "(p, b) \<in> set xs" using Cons.prems(3) by auto
    then have "fst x \<noteq> p" "snd x \<noteq> b" using Cons.prems(1,2) by (force simp: image_iff)+
    then show ?thesis using Cons \<open>(p, b) \<in> set xs\<close> by simp
  qed
qed simp

lemma detach_plain:
  assumes "lists_agree h" and "(p, b) \<in> set (h_list h l)"
  shows "plain (detach l p b h) = (plain h)(l := remove1 b (plain h l))"
proof -
  have "map snd (filter (\<lambda>x. fst x \<noteq> p) (h_list h l)) = remove1 b (map snd (h_list h l))"
    by (rule remove_position) (use plain_distinct [OF assms(1)] lists_agreeD(2) [OF assms(1)] assms(2) in \<open>simp_all add: plain_def\<close>)
  then show ?thesis by (auto simp: plain_def)
qed

lemma drop_ref_plain:
  assumes "heap_inv h" and "int (length (h_mappings h b)) < refs b h"
  shows "carries_out (heap_del_ref b h) h (plain h)"
proof -
  have "plain (unref b h) = plain h" by (rule ext) (simp add: plain_def)
  then show ?thesis using unref_inv [OF assms] by (auto simp: carries_out_def)
qed

text \<open>Taking a bundle off a list and dropping the reference of the list.\<close>

lemma detach_drop_plain:
  assumes h: "heap_inv h" and m: "(p, b) \<in> set (h_list h l)" "l \<noteq> all_bundles"
  shows "carries_out (heap_del_ref b (detach l p b h)) h ((plain h)(l := remove1 b (plain h l)))"
  using drop_ref_plain [of "detach l p b h" b] detach_inv [OF h m] detach_plain [OF heap_invD(1) [OF h] m(1)]
  by (simp add: carries_out_def)

lemma erase_plain:
  assumes h: "heap_inv h" and l: "l \<noteq> all_bundles"
  shows "carries_out (bind_outcome (list_erase l (Some b) False h) (\<lambda>r. Done (snd r))) h ((plain h)(l := remove1 b (plain h l)))"
proof (cases "find_mapping l b h")
  case None
  then have "b \<notin> set (plain h l)" using plain_queued [OF heap_invD(1) [OF h], of l b] by (simp add: is_queued_on_def)
  then show ?thesis using None h by (simp add: list_erase_def carries_out_def remove1_idem)
next
  case (Some p)
  then have "(l, p) \<in> set (h_mappings h b)" by (simp add: find_mapping_def map_of_SomeD)
  then have m: "(p, b) \<in> set (h_list h l)" using lists_agreeD(3) [OF heap_invD(1) [OF h]] by simp
  have "bind_outcome (list_erase l (Some b) False h) (\<lambda>r. Done (snd r)) = heap_del_ref b (detach l p b h)"
    using listed_mapping [OF heap_invD(1) [OF h] m] list_del_eq [OF heap_invD(1) [OF h] m]
    by (simp add: list_erase_def bind_outcome_assoc)
  then show ?thesis using detach_drop_plain [OF h m l] by simp
qed

text \<open>Popping keeps a reference for the caller.\<close>

lemma pop_front_step:
  assumes h: "heap_inv h" and l: "l \<noteq> all_bundles" and ne: "h_list h l \<noteq> []"
  defines "b \<equiv> hd (plain h l)"
  shows "\<exists>h'. list_pop_front l False h = Done (Some b, h') \<and> heap_inv h' \<and> plain h' = (plain h)(l := tl (plain h l)) \<and>
    h_bundle h' = h_bundle h \<and> int (length (h_mappings h' b)) < refs b h' \<and> length (h_list h' l) < length (h_list h l)"
proof -
  let ?p = "fst (hd (h_list h l))"
  have m: "(?p, b) \<in> set (h_list h l)" using ne by (cases "h_list h l") (simp_all add: b_def plain_def)
  have "remove1 b (plain h l) = tl (plain h l)" using ne by (cases "h_list h l") (simp_all add: b_def plain_def)
  moreover have "length (filter (\<lambda>x. fst x \<noteq> ?p) (h_list h l)) < length (h_list h l)"
    by (rule length_filter_less [OF m]) simp
  ultimately show ?thesis
    using pop_at_eq [OF h m l] detach_inv [OF h m l] detach_plain [OF heap_invD(1) [OF h] m] ne
    by (simp add: list_pop_front_def)
qed

lemma pop_front_plain:
  assumes "heap_inv h" and "l \<noteq> all_bundles"
  shows "carries_out (bind_outcome (list_pop_front l False h) (\<lambda>r. Done (snd r))) h ((plain h)(l := tl (plain h l)))"
proof (cases "h_list h l = []")
  case True
  then show ?thesis using assms by (auto simp: list_pop_front_def carries_out_def plain_def)
next
  case False
  then show ?thesis using pop_front_step [OF assms False] by (auto simp: carries_out_def)
qed

lemma pop_back_plain:
  assumes h: "heap_inv h" and l: "l \<noteq> all_bundles"
  shows "carries_out (bind_outcome (list_pop_back l False h) (\<lambda>r. Done (snd r))) h ((plain h)(l := butlast (plain h l)))"
proof (cases "h_list h l = []")
  case True
  then show ?thesis using assms by (auto simp: list_pop_back_def carries_out_def plain_def)
next
  case False
  let ?p = "fst (last (h_list h l))" and ?b = "last (plain h l)"
  have m: "(?p, ?b) \<in> set (h_list h l)" using False by (simp add: plain_def last_map)
  have "remove1 ?b xs = butlast xs" if "distinct xs" "xs \<noteq> []" "?b = last xs" for xs
    using that by (induction xs) (auto simp: remove1_append)
  then have "remove1 ?b (plain h l) = butlast (plain h l)"
    using plain_distinct [OF heap_invD(1) [OF h]] False by (simp add: plain_def)
  then show ?thesis
    using pop_at_eq [OF h m l] detach_inv [OF h m l] detach_plain [OF heap_invD(1) [OF h] m] False
    by (simp add: list_pop_back_def carries_out_def)
qed

lemma clear_plain:
  assumes "heap_inv h" and "l \<noteq> all_bundles"
  shows "\<exists>m. list_clear l h = Some m \<and> carries_out m h ((plain h)(l := []))"
  using assms(1)
proof (induction "length (h_list h l)" arbitrary: h rule: less_induct)
  case less
  show ?case
  proof (cases "h_list h l = []")
    case True
    then show ?thesis using less.prems by (subst list_clear.simps) (auto simp: carries_out_def plain_def)
  next
    case False
    obtain h1 where h1: "list_pop_front l False h = Done (Some (hd (plain h l)), h1)" "heap_inv h1"
        "plain h1 = (plain h)(l := tl (plain h l))" "h_bundle h1 = h_bundle h"
        "int (length (h_mappings h1 (hd (plain h l)))) < refs (hd (plain h l)) h1" "length (h_list h1 l) < length (h_list h l)"
      using pop_front_step [OF less.prems assms(2) False] by blast
    let ?h2 = "unref (hd (plain h l)) h1"
    have h2: "heap_del_ref (hd (plain h l)) h1 = Done ?h2" "heap_inv ?h2" using unref_inv [OF h1(2,5)] by simp_all
    have "list_clear l h = list_clear l ?h2"
      using False h1(1) h2(1) by (subst list_clear.simps) simp
    moreover obtain m where "list_clear l ?h2 = Some m" "carries_out m ?h2 ((plain ?h2)(l := []))"
      using less.hyps [OF _ h2(2)] h1(6) by auto
    moreover have "(plain ?h2)(l := []) = (plain h)(l := [])" using h1(3) by (auto simp: plain_def fun_eq_iff)
    ultimately show ?thesis using h1(4) by (simp add: carries_out_def)
  qed
qed

lemma move_first_step:
  assumes h: "heap_inv h" and l: "l \<noteq> all_bundles" "other \<noteq> all_bundles" "l \<noteq> other" and ne: "h_list h l \<noteq> []"
  defines "b \<equiv> hd (plain h l)"
  shows "\<exists>h'. move_first l other h = Done h' \<and> heap_inv h' \<and> h_bundle h' = h_bundle h \<and>
    plain h' = (plain h)(l := tl (plain h l), other := plain h other @ (if b \<in> set (plain h other) then [] else [b])) \<and>
    length (h_list h' l) < length (h_list h l)"
proof -
  obtain h1 where h1: "list_pop_front l False h = Done (Some b, h1)" "heap_inv h1"
      "plain h1 = (plain h)(l := tl (plain h l))" "h_bundle h1 = h_bundle h"
      "int (length (h_mappings h1 b)) < refs b h1" "length (h_list h1 l) < length (h_list h l)"
    using pop_front_step [OF h l(1) ne] unfolding b_def by blast
  note alive = referenced_alive [OF h1(2,5)]
  let ?h2 = "added other None b h1"
  have add: "list_push_back other b h1 = Done ?h2" "heap_inv ?h2"
    using list_add_bundle_ok [OF h1(2) _ l(2), of b None] alive by (simp_all add: list_push_back_def)
  have on0: "b \<in> set (plain h1 all_bundles)" using no_refs_iff [OF h1(2), of b] alive by auto
  have p2: "plain ?h2 = insert_plain other (\<lambda>xs. xs @ [b]) b (plain h1)"
    using push_back_plain [OF h1(2) _ l(2), of b] alive add(1) by (auto simp: carries_out_def)
  have "int (length (h_mappings ?h2 b)) < refs b ?h2" using h1(5) alive by (simp add: added_def)
  note d = unref_inv [OF add(2) this]
  have "plain (unref b ?h2) = plain ?h2" by (rule ext) (simp add: plain_def)
  then have pl: "plain (unref b ?h2) =
      (plain h)(l := tl (plain h l), other := plain h other @ (if b \<in> set (plain h other) then [] else [b]))"
    using p2 h1(3) l(2,3) on0 by (auto simp: insert_plain_def enter_def fun_eq_iff)
  then have "plain (unref b ?h2) l = plain h1 l" using h1(3) l(3) by simp
  then have "length (h_list (unref b ?h2) l) = length (h_list h1 l)" unfolding plain_def by (metis length_map)
  moreover have "h_bundle (unref b ?h2) = h_bundle h" using h1(4) by (simp add: added_def)
  ultimately show ?thesis using h1(1,6) add(1) d pl by (simp add: move_first_def)
qed

lemma move_plain:
  assumes "heap_inv h" and "l \<noteq> all_bundles" "other \<noteq> all_bundles" "l \<noteq> other"
  shows "\<exists>m. list_move_contents l other h = Some m \<and>
    carries_out m h ((plain h)(l := [], other := plain h other @ filter (\<lambda>b. b \<notin> set (plain h other)) (plain h l)))"
  using assms(1)
proof (induction "length (h_list h l)" arbitrary: h rule: less_induct)
  case less
  show ?case
  proof (cases "h_list h l = []")
    case True
    then show ?thesis using less.prems assms(4)
      by (subst list_move_contents.simps) (auto simp: carries_out_def plain_def fun_eq_iff)
  next
    case False
    define b0 where "b0 = hd (plain h l)"
    obtain h1 where h1: "move_first l other h = Done h1" "heap_inv h1" "h_bundle h1 = h_bundle h"
        "plain h1 = (plain h)(l := tl (plain h l), other := plain h other @ (if b0 \<in> set (plain h other) then [] else [b0]))"
        "length (h_list h1 l) < length (h_list h l)"
      using move_first_step [OF less.prems assms(2-4) False] unfolding b0_def by blast
    obtain m where m: "list_move_contents l other h1 = Some m"
        "carries_out m h1 ((plain h1)(l := [], other := plain h1 other @ filter (\<lambda>b. b \<notin> set (plain h1 other)) (plain h1 l)))"
      using less.hyps [OF h1(5,2)] by blast
    obtain bs where bs: "plain h l = b0 # bs" using False by (cases "h_list h l") (simp_all add: plain_def b0_def)
    have "b0 \<notin> set bs" using plain_distinct [OF heap_invD(1) [OF less.prems], of l] by (simp add: bs)
    then have f: "filter (\<lambda>b. b \<notin> set (plain h other) \<and> b \<noteq> b0) bs = filter (\<lambda>b. b \<notin> set (plain h other)) bs"
      by (intro filter_cong) auto
    have "(plain h1)(l := [], other := plain h1 other @ filter (\<lambda>b. b \<notin> set (plain h1 other)) (plain h1 l)) =
        (plain h)(l := [], other := plain h other @ filter (\<lambda>b. b \<notin> set (plain h other)) (plain h l))"
      using assms(4) f by (auto simp: h1(4) bs fun_eq_iff)
    then show ?thesis
      using m h1(1,3) False by (subst list_move_contents.simps) (simp add: carries_out_def)
  qed
qed

lemma take_ref_plain:
  assumes h: "heap_inv h" and b: "\<not> freed (h_refs h b)"
  shows "carries_out (heap_add_ref b h) h (enter b (plain h))"
proof -
  note la = heap_invD(1) [OF h] and ra = heap_invD(2) [OF h]
  have nn: "0 \<le> refs b h" using refs_agreeD(1) [OF ra, of b] by linarith
  have not1: "refs b h \<noteq> 1" using b refs_agreeD(2) [OF ra, of b] by auto
  have q: "is_queued_on l b' (bump b h) \<longleftrightarrow> is_queued_on l b' h" for l b' by (simp add: bump_def queued_mapping)
  have bump: "lists_agree (bump b h)" "plain (bump b h) = plain h" using la by (simp_all add: bump_def lists_agree_def plain_def fun_eq_iff)
  have zero: "refs b h = 0 \<longleftrightarrow> \<not> is_queued_on all_bundles b h"
    using no_refs_iff [OF h] plain_queued [OF la] by simp
  show ?thesis
  proof (cases "refs b h = 0")
    case True
    then have q0: "\<not> is_queued_on all_bundles b (bump b h)" using zero q by simp
    have m: "h_mappings h b = []" using refs_agreeD(1) [OF ra, of b] True by simp
    have "refs_agree (attach all_bundles None b (bump b h))"
      using ra True m b unfolding refs_agree_def by (auto simp: attach_queued q) (auto simp: bump_def)
    then have "heap_inv (attach all_bundles None b (bump b h))" using attach_agree [OF bump(1) q0] by (simp add: heap_inv_def)
    moreover have "plain (attach all_bundles None b (bump b h)) = enter b (plain h)"
      using True no_refs_iff [OF h, of b] bump(2) by (auto simp: enter_def plain_def fun_eq_iff)
    ultimately show ?thesis
      using heap_add_ref_eq [OF b nn] True zero by (auto simp: carries_out_def) (simp add: bump_def)
  next
    case False
    have "int (length (h_mappings h b)) \<le> refs b h + 1" using refs_agreeD(1) [OF ra, of b] by linarith
    then have "refs_agree (bump b h)"
      using ra False not1 nn b zero unfolding refs_agree_def q by (auto simp: bump_def)
    then show ?thesis
      using heap_add_ref_eq [OF b nn] False bump no_refs_iff [OF h, of b]
      by (auto simp: carries_out_def heap_inv_def enter_def) (simp add: bump_def)
  qed
qed

lemma free_event_plain:
  assumes h: "heap_inv h" and b: "h_free_events h = b # rest"
  shows "carries_out (free_bundle b (h\<lparr>h_free_events := rest\<rparr>)) h ((plain h)(all_bundles := remove1 b (plain h all_bundles)))"
proof -
  note la = heap_invD(1) [OF h] and ra = heap_invD(2) [OF h]
  let ?h = "h\<lparr>h_free_events := rest\<rparr>"
  have "b \<in> set (h_free_events h)" using b by simp
  then have fr: "freed (h_refs h b)" "refs b h = 1" using refs_agreeD(5) [OF ra] by simp_all
  have "is_queued_on all_bundles b h" using refs_agreeD(4) [OF ra, of b] fr(2) by simp
  then obtain p where "(all_bundles, p) \<in> set (h_mappings h b)" by (auto simp: queued_mapping)
  then have m: "(p, b) \<in> set (h_list h all_bundles)" using lists_agreeD(3) [OF la] by simp
  have one: "h_mappings h b = [(all_bundles, p)]"
    using refs_agreeD(1) [OF ra, of b] fr(2) \<open>(all_bundles, p) \<in> _\<close> by (cases "h_mappings h b") auto
  have la': "lists_agree ?h" using la by (simp add: lists_agree_def)
  have m': "(p, b) \<in> set (h_list ?h all_bundles)" using m by simp
  define h1 where "h1 = detach all_bundles p b ?h"
  define h2 where "h2 = h1\<lparr>h_refs := (h_refs h1)(b := (h_refs h1 b)\<lparr>refcount := 0\<rparr>)\<rparr>"
  have la1: "lists_agree h1" unfolding h1_def by (rule detach_agree [OF la' m'])
  have del: "heap_del_ref b h1 = Done h2" using fr by (simp add: h1_def h2_def heap_del_ref_def del_ref_def Let_def)
  have "list_contains all_bundles (Some b) ?h = Done True"
    using plain_queued [OF la', of all_bundles b] listed_mapping(3) [OF la' m'] by (simp add: list_contains_def plain_def)
  moreover have "list_erase all_bundles (Some b) False ?h = Done (True, h2)"
    using listed_mapping [OF la' m'] list_del_eq [OF la' m'] del by (simp add: list_erase_def h1_def)
  moreover have "h_mappings h2 b = []" using one by (simp add: h2_def h1_def)
  ultimately have eq: "free_bundle b ?h = Done h2" using fr(2) by (simp add: free_bundle_def)
  have pl: "plain h2 = (plain h)(all_bundles := remove1 b (plain h all_bundles))"
  proof -
    have "plain ?h = plain h" "plain h2 = plain h1" by (simp_all add: plain_def h2_def fun_eq_iff)
    then show ?thesis using detach_plain [OF la' m'] by (simp add: h1_def)
  qed
  have q: "is_queued_on all_bundles b' h2 \<longleftrightarrow> is_queued_on all_bundles b' h" if "b' \<noteq> b" for b'
    using that by (simp add: queued_mapping h2_def h1_def)
  have "b \<notin> set rest" "distinct rest" using refs_agreeD(6) [OF ra] b by simp_all
  moreover have "refs b' h2 = (if b' = b then 0 else refs b' h)" "freed (h_refs h2 b') = freed (h_refs h b')"
      "h_free_events h2 = rest" "h_mappings h2 b' = (if b' = b then [] else h_mappings h b')" for b'
    using one by (simp_all add: h2_def h1_def)
  moreover have "b' \<in> set rest \<longleftrightarrow> freed (h_refs h b') \<and> refs b' h = 1" if "b' \<noteq> b" for b'
    using refs_agreeD(5) [OF ra, of b'] b that by simp
  ultimately have "refs_agree h2"
    unfolding refs_agree_def using q refs_agreeD(1-4) [OF ra] by auto
  moreover have "lists_agree h2" using la1 by (simp add: lists_agree_def h2_def)
  ultimately show ?thesis using eq pl by (simp add: carries_out_def heap_inv_def h2_def h1_def)
qed

lemma op_carried_out:
  assumes h: "heap_inv h" and ok: "allowed p h"
  shows "\<exists>m. apply_op p h = Some m \<and> carries_out m h (plain_op p (h_bundle h) (plain h))"
proof (cases p)
  case (FreeEvent b)
  then have "h_free_events h = b # tl (h_free_events h)" using ok by (cases "h_free_events h") auto
  from free_event_plain [OF h this] show ?thesis by (simp add: FreeEvent)
qed (use ok push_front_plain [OF h] push_back_plain [OF h] insert_sorted_plain [OF h] insert_random_plain [OF h] erase_plain [OF h]
    pop_front_plain [OF h] pop_back_plain [OF h] clear_plain [OF h] move_plain [OF h] take_ref_plain [OF h] drop_ref_plain [OF h]
    in simp_all)

section \<open>Any sequence of operations\<close>

text \<open>Before any bundle exists; some lists have a notifier.\<close>

definition empty_heap :: "(bundle_ptr \<Rightarrow> dtn_bundle) \<Rightarrow> list_ptr set \<Rightarrow> bundle_heap" where
  "empty_heap B notifiers =
     \<lparr>h_bundle = B, h_refs = (\<lambda>b. \<lparr>refcount = 0, freed = False\<rparr>), h_mappings = (\<lambda>b. []), h_list = (\<lambda>l. []),
      h_pipe = (\<lambda>l. if l \<in> notifiers then Some 0 else None), h_next = 0, h_free_events = []\<rparr>"

inductive reachable_heap :: "(bundle_ptr \<Rightarrow> dtn_bundle) \<Rightarrow> bundle_heap \<Rightarrow> plain_lists \<Rightarrow> bool" for B where
  reach_empty: "reachable_heap B (empty_heap B notifiers) (\<lambda>l. [])"
| reach_op: "reachable_heap B h L \<Longrightarrow> allowed p h \<Longrightarrow> apply_op p h = Some (Done h') \<Longrightarrow> reachable_heap B h' (plain_op p B L)"

lemma reachable_heap_inv:
  assumes "reachable_heap B h L"
  shows "heap_inv h \<and> plain h = L \<and> h_bundle h = B"
  using assms
proof induction
  case (reach_empty notifiers)
  show ?case
    by (auto simp: heap_inv_def lists_agree_def refs_agree_def empty_heap_def plain_def queued_mapping fun_eq_iff)
next
  case (reach_op h L p h')
  then show ?case using op_carried_out [of h p] by (auto simp: carries_out_def)
qed

text \<open>
  C31. Bundle lists. After any sequence of operations on the lists of bundles, by callers that do not use freed
  bundles, drop only references they hold and leave the list of all bundles alone, the lists hold what
  plain lists hold after the same operations, and the next operation returns without a failed
  assertion: the mappings agree with the positions, the notifier has as many bytes as its
  list has bundles, and no reference count is wrong.
\<close>

theorem bundle_lists_refine:
  assumes "reachable_heap B h L" and "allowed p h"
  shows "\<exists>h'. apply_op p h = Some (Done h') \<and> reachable_heap B h' (plain_op p B L) \<and>
    (\<forall>l. map snd (h_list h' l) = plain_op p B L l \<and> distinct (plain_op p B L l))"
proof -
  note inv = reachable_heap_inv [OF assms(1)]
  obtain h' where h': "apply_op p h = Some (Done h')" using op_carried_out [OF _ assms(2)] inv by (auto simp: carries_out_def)
  note r = reachable_heap.reach_op [OF assms h']
  note inv' = reachable_heap_inv [OF r]
  then have "distinct (plain h' l)" for l using plain_distinct [OF heap_invD(1)] by blast
  then show ?thesis using h' r inv' by (simp add: plain_def [symmetric])
qed

theorem bundle_lists_refine_witness:
  "\<exists>h'. apply_op (PushBack 1 7) (empty_heap (\<lambda>b. example_bundle) {1}) = Some (Done h') \<and>
    map snd (h_list h' 1) = [7] \<and> map snd (h_list h' 0) = [7]"
proof -
  have "allowed (PushBack 1 7) (empty_heap (\<lambda>b. example_bundle) {1})" by (simp add: empty_heap_def)
  from bundle_lists_refine [OF reach_empty this] show ?thesis by (auto simp: insert_plain_def enter_def)
qed



end
