(* ===== verification/Link_Contact.thy ===== *)
theory Link_Contact
  imports Stream_Layer
begin

text \<open>
  \<open>Link.cc\<close>, its subclasses, \<open>ContactManager.cc\<close> and the link and contact handlers of
  \<open>BundleDaemon.cc\<close>: the state of the links, the set of links the contact manager knows, its
  retry timers and the queue of events of the daemon, which takes them one at a time. Links and
  contacts are shared objects; a pointer to one is a number. What the convergence layer, the
  user, the timers and the router do is a step of an environment.
\<close>

section \<open>Links, contacts and events\<close>

datatype link_type = ALWAYSON | ONDEMAND | SCHEDULED | OPPORTUNISTIC

datatype link_state = UNAVAILABLE | AVAILABLE | OPENING | OPEN | CLOSED

fun link_state_bits :: "link_state \<Rightarrow> u32" where
  "link_state_bits UNAVAILABLE = 1"
| "link_state_bits AVAILABLE = 2"
| "link_state_bits OPENING = 4"
| "link_state_bits OPEN = 8"
| "link_state_bits CLOSED = 16"

type_synonym link_ptr = nat
type_synonym contact_ptr = nat

record link_object =
  lk_name :: string
  lk_type :: link_type
  lk_cl :: nat
  lk_nexthop :: string
  lk_remote_eid :: string
  lk_state :: link_state
  lk_deleted :: bool
  lk_create_pending :: bool
  lk_contact :: "contact_ptr option"
  lk_retry_interval :: u32
  lk_min_retry :: u32
  lk_max_retry :: u32
  lk_idle_close_time :: u32
  lk_contact_attempts :: u32
  lk_contacts :: u32

datatype link_event =
    Link_Created link_ptr
  | Link_Deleted link_ptr
  | Link_Delete link_ptr
  | Link_Available link_ptr contact_reason
  | Link_Unavailable link_ptr contact_reason
  | State_Change_Request link_ptr link_state "contact_ptr option" link_state contact_reason
  | Contact_Up contact_ptr
  | Contact_Down contact_ptr contact_reason

text \<open>
  The set of links is ordered by the addresses. A timer holds the seconds it was started with;
  \<open>sy_links\<close> are all links ever created.
\<close>

record link_system =
  sy_link :: "link_ptr \<Rightarrow> link_object"
  sy_links :: "link_ptr list"
  sy_contact_link :: "contact_ptr \<Rightarrow> link_ptr"
  sy_next_contact :: contact_ptr
  sy_managed :: "link_ptr list"
  sy_timer :: "link_ptr \<Rightarrow> u32 option"
  sy_queue :: "link_event list"
  sy_opportunistic_cnt :: nat

definition update_link :: "link_ptr \<Rightarrow> (link_object \<Rightarrow> link_object) \<Rightarrow> link_system \<Rightarrow> link_system" where
  "update_link l f s = s\<lparr>sy_link := (sy_link s)(l := f (sy_link s l))\<rparr>"

definition post_at_tail :: "link_event \<Rightarrow> link_system \<Rightarrow> link_system" where
  "post_at_tail e s = s\<lparr>sy_queue := sy_queue s @ [e]\<rparr>"

definition post_at_head :: "link_event \<Rightarrow> link_system \<Rightarrow> link_system" where
  "post_at_head e s = s\<lparr>sy_queue := e # sy_queue s\<rparr>"

text \<open>A request remembers the contact and the state of the link when it is made.\<close>

definition state_change_request :: "link_ptr \<Rightarrow> link_state \<Rightarrow> contact_reason \<Rightarrow> link_system \<Rightarrow> link_event" where
  "state_change_request l new reason s =
     State_Change_Request l new (lk_contact (sy_link s l)) (lk_state (sy_link s l)) reason"

abbreviation (input) link_isopen :: "link_object \<Rightarrow> bool" where "link_isopen k \<equiv> lk_state k = OPEN"
abbreviation (input) link_isopening :: "link_object \<Rightarrow> bool" where "link_isopening k \<equiv> lk_state k = OPENING"
abbreviation (input) link_isavailable :: "link_object \<Rightarrow> bool" where "link_isavailable k \<equiv> lk_state k \<noteq> UNAVAILABLE"

section \<open>The operations of a link\<close>

text \<open>An unexpected old state is only logged.\<close>

definition set_link_state :: "link_ptr \<Rightarrow> link_state \<Rightarrow> link_system \<Rightarrow> link_system outcome" where
  "set_link_state l new s = (if new = CLOSED then Panic else Done (update_link l (\<lambda>k. k\<lparr>lk_state := new\<rparr>) s))"

definition expected_transition :: "link_state \<Rightarrow> link_state \<Rightarrow> bool" where
  "expected_transition old new =
     (case new of UNAVAILABLE \<Rightarrow> True | AVAILABLE \<Rightarrow> old = OPEN \<or> old = UNAVAILABLE
      | OPENING \<Rightarrow> old = AVAILABLE \<or> old = UNAVAILABLE | OPEN \<Rightarrow> old = OPENING \<or> old = UNAVAILABLE | CLOSED \<Rightarrow> False)"

definition new_link :: "string \<Rightarrow> link_type \<Rightarrow> nat \<Rightarrow> string \<Rightarrow> u32 \<Rightarrow> u32 \<Rightarrow> link_object" where
  "new_link name type cl nexthop min_retry max_retry =
     \<lparr>lk_name = name, lk_type = type, lk_cl = cl, lk_nexthop = nexthop, lk_remote_eid = ''dtn:none'',
      lk_state = (if type = ONDEMAND then AVAILABLE else UNAVAILABLE), lk_deleted = False, lk_create_pending = False,
      lk_contact = None, lk_retry_interval = 0, lk_min_retry = min_retry, lk_max_retry = max_retry,
      lk_idle_close_time = (if type = ONDEMAND then 30 else 0), lk_contact_attempts = 0, lk_contacts = 0\<rparr>"

text \<open>The checks of the options of a new link.\<close>

definition link_args_ok :: "link_object \<Rightarrow> bool" where
  "link_args_ok k \<longleftrightarrow>
     lk_min_retry k \<noteq> 0 \<and> lk_max_retry k \<noteq> 0 \<and> \<not> (lk_idle_close_time k \<noteq> 0 \<and> lk_type k = ALWAYSON)"

definition delete_link :: "link_ptr \<Rightarrow> link_system \<Rightarrow> link_system outcome" where
  "delete_link l s =
     assert_that (\<not> lk_deleted (sy_link s l)) (Done (update_link l (\<lambda>k. k\<lparr>lk_deleted := True\<rparr>) s))"

text \<open>
  What a convergence layer does at once when it is told to open a contact: most start a thread or find the
  address invalid and post nothing, the datagram layers report the contact as up, or ask for the
  link to become unavailable.
\<close>

datatype open_reaction = Post_Nothing | Post_Up | Post_Unavailable

fun react_to_open :: "open_reaction \<Rightarrow> link_ptr \<Rightarrow> contact_ptr \<Rightarrow> link_system \<Rightarrow> link_system" where
  "react_to_open Post_Nothing l c s = s"
| "react_to_open Post_Up l c s = post_at_tail (Contact_Up c) s"
| "react_to_open Post_Unavailable l c s = post_at_tail (state_change_request l UNAVAILABLE CR_NO_INFO s) s"

definition new_contact :: "link_ptr \<Rightarrow> link_system \<Rightarrow> link_system" where
  "new_contact l s =
     update_link l (\<lambda>k. k\<lparr>lk_contact := Some (sy_next_contact s)\<rparr>)
       (s\<lparr>sy_contact_link := (sy_contact_link s)(sy_next_contact s := l), sy_next_contact := Suc (sy_next_contact s)\<rparr>)"

definition link_open :: "open_reaction \<Rightarrow> link_ptr \<Rightarrow> link_system \<Rightarrow> link_system outcome" where
  "link_open react l s =
     assert_that (\<not> lk_deleted (sy_link s l))
      (if lk_state (sy_link s l) \<noteq> AVAILABLE then Done s
       else bind_outcome (set_link_state l OPENING s) (\<lambda>s1.
         assert_that (lk_contact (sy_link s1 l) = None)
           (let s2 = new_contact l s1
            in Done (update_link l (\<lambda>k. k\<lparr>lk_contact_attempts := lk_contact_attempts k + 1\<rparr>)
                      (react_to_open react l (sy_next_contact s1) s2)))))"

definition link_close :: "link_ptr \<Rightarrow> link_system \<Rightarrow> link_system" where
  "link_close l s =
     (if lk_contact (sy_link s l) = None then s else update_link l (\<lambda>k. k\<lparr>lk_contact := None\<rparr>) s)"

section \<open>Opening and closing for the daemon\<close>

definition open_link :: "open_reaction \<Rightarrow> link_ptr \<Rightarrow> link_system \<Rightarrow> link_system outcome" where
  "open_link react l s =
     (if lk_deleted (sy_link s l) then Done s
      else if link_isopen (sy_link s l) \<or> lk_contact (sy_link s l) \<noteq> None then Done s
      else if \<not> link_isavailable (sy_link s l) then Done s
      else link_open react l s)"

definition close_link :: "link_ptr \<Rightarrow> link_system \<Rightarrow> link_system outcome" where
  "close_link l s =
     (if \<not> link_isopen (sy_link s l) \<and> \<not> link_isopening (sy_link s l) then Done s
      else let s1 = link_close l s in assert_that (lk_contact (sy_link s1 l) = None) (Done s1))"

section \<open>The contact manager\<close>

definition has_link :: "link_ptr \<Rightarrow> link_system \<Rightarrow> bool" where
  "has_link l s \<longleftrightarrow> l \<in> set (sy_managed s)"

definition same_name :: "string \<Rightarrow> string \<Rightarrow> bool" where
  "same_name a b \<longleftrightarrow> map tolower a = map tolower b"

definition has_link_named :: "string \<Rightarrow> link_system \<Rightarrow> bool" where
  "has_link_named name s \<longleftrightarrow> list_ex (\<lambda>l. same_name (lk_name (sy_link s l)) name) (sy_managed s)"

definition find_link :: "string \<Rightarrow> link_system \<Rightarrow> link_ptr option outcome" where
  "find_link name s =
     (case find (\<lambda>l. same_name (lk_name (sy_link s l)) name) (sy_managed s) of
        None \<Rightarrow> Done None
      | Some l \<Rightarrow> assert_that (\<not> lk_deleted (sy_link s l)) (Done (Some l)))"

text \<open>The first link that matches all criteria given; \<open>dtn:none\<close> stands for any remote endpoint.\<close>

definition find_link_to :: "nat option \<Rightarrow> string \<Rightarrow> string \<Rightarrow> link_type option \<Rightarrow> u32 \<Rightarrow> link_system
    \<Rightarrow> link_ptr option outcome" where
  "find_link_to cl nexthop remote type wanted s =
     assert_that (cl \<noteq> None \<or> nexthop \<noteq> [] \<or> remote \<noteq> ''dtn:none'' \<or> type \<noteq> None)
      (case find (\<lambda>l. let k = sy_link s l in
                    (type = None \<or> type = Some (lk_type k)) \<and> (cl = None \<or> cl = Some (lk_cl k))
                    \<and> (nexthop = [] \<or> nexthop = lk_nexthop k)
                    \<and> (remote = ''dtn:none'' \<or> remote = lk_remote_eid k)
                    \<and> wanted AND link_state_bits (lk_state k) \<noteq> 0) (sy_managed s) of
         None \<Rightarrow> Done None
       | Some l \<Rightarrow> assert_that (\<not> lk_deleted (sy_link s l)) (Done (Some l)))"

definition add_new_link :: "link_ptr \<Rightarrow> link_system \<Rightarrow> (bool \<times> link_system) outcome" where
  "add_new_link l s =
     assert_that (\<not> lk_deleted (sy_link s l))
      (if has_link_named (lk_name (sy_link s l)) s then Done (False, s)
       else let s1 = s\<lparr>sy_managed := insort l (sy_managed s)\<rparr>
            in Done (True, if lk_create_pending (sy_link s l) then s1 else post_at_tail (Link_Created l) s1))"

text \<open>
  A caller that waits gets the rest of the operation done, the deletion of the link itself,
  after the daemon has handled the event: that part is \<open>delete_link\<close>.
\<close>

definition del_link :: "link_ptr \<Rightarrow> bool \<Rightarrow> contact_reason \<Rightarrow> link_system \<Rightarrow> link_system outcome" where
  "del_link l wait reason s =
     (if \<not> has_link l s then Done s
      else assert_that (\<not> lk_deleted (sy_link s l))
       (bind_outcome (if wait then Done s else delete_link l s) (\<lambda>s1.
         let s2 = (if link_isopen (sy_link s1 l) \<or> link_isopening (sy_link s1 l)
                   then post_at_tail (state_change_request l CLOSED reason s1) s1 else s1);
             s3 = s2\<lparr>sy_timer := (sy_timer s2)(l := None), sy_managed := remove1 l (sy_managed s2)\<rparr>
         in Done (post_at_tail (Link_Deleted l) s3))))"

definition reopen_link :: "link_ptr \<Rightarrow> link_system \<Rightarrow> link_system outcome" where
  "reopen_link l s =
     (let s1 = s\<lparr>sy_timer := (sy_timer s)(l := None)\<rparr>
      in if \<not> has_link l s1 then Done s1
         else assert_that (\<not> lk_deleted (sy_link s1 l))
           (if lk_state (sy_link s1 l) = UNAVAILABLE
            then Done (post_at_tail (state_change_request l OPEN CR_RECONNECT s1) s1) else Done s1))"

text \<open>The events with which a link of each type starts.\<close>

definition set_initial_state :: "link_ptr \<Rightarrow> link_system \<Rightarrow> link_system" where
  "set_initial_state l s =
     (case lk_type (sy_link s l) of
        ALWAYSON \<Rightarrow> post_at_head (state_change_request l OPEN CR_USER s) s
      | ONDEMAND \<Rightarrow> post_at_tail (Link_Available l CR_NO_INFO) s
      | _ \<Rightarrow> s)"

definition cm_link_created :: "link_ptr \<Rightarrow> link_system \<Rightarrow> link_system" where
  "cm_link_created l s = (if lk_deleted (sy_link s l) \<or> \<not> has_link l s then s else set_initial_state l s)"

definition cm_link_available :: "link_ptr \<Rightarrow> link_system \<Rightarrow> link_system" where
  "cm_link_available l s =
     (if lk_deleted (sy_link s l) \<or> \<not> has_link l s then s else s\<lparr>sy_timer := (sy_timer s)(l := None)\<rparr>)"

text \<open>The doubling wraps at 32 bits.\<close>

definition next_retry_interval :: "u32 \<Rightarrow> u32 \<Rightarrow> u32" where
  "next_retry_interval i maximum = (let d = i * 2 in if maximum < d then maximum else d)"

definition retried_type :: "link_type \<Rightarrow> bool" where
  "retried_type t \<longleftrightarrow> t = ONDEMAND \<or> t = ALWAYSON"

definition cm_link_unavailable :: "link_ptr \<Rightarrow> contact_reason \<Rightarrow> link_system \<Rightarrow> link_system" where
  "cm_link_unavailable l reason s =
     (if \<not> has_link l s \<or> lk_deleted (sy_link s l) then s
      else if \<not> retried_type (lk_type (sy_link s l)) then s
      else if reason = CR_USER \<or> reason = CR_IDLE then s
      else let k = sy_link s l;
               timeout = (if lk_retry_interval k = 0 then lk_min_retry k else lk_retry_interval k);
               s1 = update_link l (\<lambda>k. k\<lparr>lk_retry_interval := next_retry_interval timeout (lk_max_retry k)\<rparr>) s
           in (if sy_timer s1 l \<noteq> None then s1 else s1\<lparr>sy_timer := (sy_timer s1)(l := Some timeout)\<rparr>))"

definition cm_contact_up :: "contact_ptr \<Rightarrow> link_system \<Rightarrow> link_system" where
  "cm_contact_up c s =
     (let l = sy_contact_link s c
      in if lk_deleted (sy_link s l) \<or> \<not> has_link l s then s
         else if retried_type (lk_type (sy_link s l)) then update_link l (\<lambda>k. k\<lparr>lk_retry_interval := lk_min_retry k\<rparr>) s
         else s)"

fun cm_handle_event :: "link_event \<Rightarrow> link_system \<Rightarrow> link_system" where
  "cm_handle_event (Link_Created l) s = cm_link_created l s"
| "cm_handle_event (Link_Available l r) s = cm_link_available l s"
| "cm_handle_event (Link_Unavailable l r) s = cm_link_unavailable l r s"
| "cm_handle_event (Contact_Up c) s = cm_contact_up c s"
| "cm_handle_event e s = s"

section \<open>The daemon\<close>

definition handle_link_available :: "link_ptr \<Rightarrow> link_system \<Rightarrow> (bool \<times> link_system) outcome" where
  "handle_link_available l s =
     assert_that (link_isavailable (sy_link s l)) (Done (lk_deleted (sy_link s l), s))"

definition handle_link_unavailable :: "link_ptr \<Rightarrow> link_system \<Rightarrow> (bool \<times> link_system) outcome" where
  "handle_link_unavailable l s = assert_that (\<not> link_isavailable (sy_link s l)) (Done (False, s))"

definition handle_close_request :: "link_ptr \<Rightarrow> contact_reason \<Rightarrow> link_system \<Rightarrow> link_system outcome" where
  "handle_close_request l reason s =
     (if \<not> link_isopen (sy_link s l) \<and> \<not> link_isopening (sy_link s l) then Done s
      else bind_outcome
        (if link_isopen (sy_link s l)
         then (case lk_contact (sy_link s l) of
                 None \<Rightarrow> Panic | Some c \<Rightarrow> Done (post_at_head (Contact_Down c reason) s))
         else Done s) (\<lambda>s1.
        bind_outcome (close_link l s1) (\<lambda>s2.
        if reason = CR_IDLE then set_link_state l AVAILABLE s2
        else bind_outcome (set_link_state l UNAVAILABLE s2) (\<lambda>s3.
          Done (post_at_head (Link_Unavailable l reason) s3)))))"

definition handle_link_state_change_request :: "open_reaction \<Rightarrow> link_ptr \<Rightarrow> link_state \<Rightarrow> contact_ptr option
    \<Rightarrow> contact_reason \<Rightarrow> link_system \<Rightarrow> link_system outcome" where
  "handle_link_state_change_request react l new contact reason s =
     (if lk_deleted (sy_link s l) \<and> new \<noteq> CLOSED then Done s
      else if lk_contact (sy_link s l) \<noteq> contact then Done s
      else (case new of
        UNAVAILABLE \<Rightarrow>
          (if lk_state (sy_link s l) \<noteq> AVAILABLE then Done s
           else bind_outcome (set_link_state l UNAVAILABLE s) (\<lambda>s1. Done (post_at_head (Link_Unavailable l reason) s1)))
      | AVAILABLE \<Rightarrow>
          (if lk_state (sy_link s l) = UNAVAILABLE
           then bind_outcome (set_link_state l AVAILABLE s) (\<lambda>s1. Done (post_at_head (Link_Available l reason) s1))
           else Done s)
      | CLOSED \<Rightarrow> handle_close_request l reason s
      | _ \<Rightarrow>
          bind_outcome (if lk_state (sy_link s l) = UNAVAILABLE then set_link_state l AVAILABLE s else Done s)
            (open_link react l)))"

definition handle_contact_up :: "contact_ptr \<Rightarrow> link_system \<Rightarrow> (bool \<times> link_system) outcome" where
  "handle_contact_up c s =
     (let l = sy_contact_link s c
      in if lk_deleted (sy_link s l) then Done (True, s)
         else if lk_contact (sy_link s l) \<noteq> Some c then Done (False, s)
         else bind_outcome (set_link_state l OPEN s) (\<lambda>s1.
           Done (False, update_link l (\<lambda>k. k\<lparr>lk_contacts := lk_contacts k + 1\<rparr>) s1)))"

definition handle_link_delete :: "link_ptr \<Rightarrow> link_system \<Rightarrow> link_system outcome" where
  "handle_link_delete l s = (if \<not> lk_deleted (sy_link s l) then del_link l False CR_NO_INFO s else Done s)"

text \<open>With the flag that keeps the event from the router and the contact manager.\<close>

fun dispatch_event :: "open_reaction \<Rightarrow> link_event \<Rightarrow> link_system \<Rightarrow> (bool \<times> link_system) outcome" where
  "dispatch_event react (Link_Created l) s = Done (lk_deleted (sy_link s l), s)"
| "dispatch_event react (Link_Deleted l) s = Done (False, s)"
| "dispatch_event react (Link_Delete l) s = bind_outcome (handle_link_delete l s) (\<lambda>s1. Done (True, s1))"
| "dispatch_event react (Link_Available l r) s = handle_link_available l s"
| "dispatch_event react (Link_Unavailable l r) s = handle_link_unavailable l s"
| "dispatch_event react (State_Change_Request l new c old r) s =
     bind_outcome (handle_link_state_change_request react l new c r s) (\<lambda>s1. Done (True, s1))"
| "dispatch_event react (Contact_Up c) s = handle_contact_up c s"
| "dispatch_event react (Contact_Down c r) s = Done (False, s)"

text \<open>The links the router opens when it is told of the event, with the reaction of the layer to each.\<close>

fun open_links :: "(link_ptr \<times> open_reaction) list \<Rightarrow> link_system \<Rightarrow> link_system outcome" where
  "open_links [] s = Done s"
| "open_links ((l, react) # xs) s = bind_outcome (open_link react l s) (open_links xs)"

definition handle_event :: "open_reaction \<Rightarrow> (link_ptr \<times> open_reaction) list \<Rightarrow> link_event \<Rightarrow> link_system \<Rightarrow> link_system outcome" where
  "handle_event react opens e s =
     bind_outcome (dispatch_event react e s) (\<lambda>(daemon_only, s1).
       if daemon_only then Done s1
       else bind_outcome (open_links opens s1) (\<lambda>s2. Done (cm_handle_event e s2)))"

definition daemon_step :: "open_reaction \<Rightarrow> (link_ptr \<times> open_reaction) list \<Rightarrow> link_system \<Rightarrow> link_system outcome" where
  "daemon_step react opens s =
     (case sy_queue s of [] \<Rightarrow> Done s | e # q \<Rightarrow> handle_event react opens e (s\<lparr>sy_queue := q\<rparr>))"

section \<open>Connections from peers\<close>

text \<open>
  A connection that was accepted belongs to an idle opportunistic link to the peer, or to a new one. The new link object is
  at an address not in use; the convergence layer accepts any link.
\<close>

text \<open>The counter goes on until the name is free; there are fewer links than names.\<close>

fun opportunistic_name :: "nat \<Rightarrow> nat \<Rightarrow> link_system \<Rightarrow> (string \<times> nat) option" where
  "opportunistic_name 0 i s = None"
| "opportunistic_name (Suc fuel) i s =
     (if has_link_named (''link-'' @ decimal i) s then opportunistic_name fuel (Suc i) s
      else Some (''link-'' @ decimal i, Suc i))"

text \<open>The argument \<open>accepted\<close> says whether the convergence layer accepts the new link at the address \<open>l\<close>.\<close>

definition new_opportunistic_link :: "link_ptr \<Rightarrow> bool \<Rightarrow> u32 \<Rightarrow> u32 \<Rightarrow> nat \<Rightarrow> string \<Rightarrow> string \<Rightarrow> link_system
    \<Rightarrow> (link_ptr option \<times> link_system) outcome" where
  "new_opportunistic_link l accepted min_retry max_retry cl nexthop remote s =
     (case opportunistic_name (Suc (length (sy_managed s))) (sy_opportunistic_cnt s) s of
        None \<Rightarrow> Panic
      | Some (name, cnt) \<Rightarrow>
          (let s1 = s\<lparr>sy_opportunistic_cnt := cnt\<rparr>
           in if \<not> accepted then Done (None, s1)
              else let s2 = update_link l (\<lambda>_. (new_link name OPPORTUNISTIC cl nexthop min_retry max_retry)\<lparr>lk_remote_eid := remote\<rparr>)
                              (s1\<lparr>sy_links := l # sy_links s1\<rparr>)
                   in bind_outcome (add_new_link l s2) (\<lambda>(added, s3).
                     if added then Done (Some l, s3) else bind_outcome (delete_link l s3) (\<lambda>s4. Done (None, s4)))))"

definition set_contact :: "link_ptr \<Rightarrow> link_system \<Rightarrow> link_system outcome" where
  "set_contact l s = assert_that (lk_contact (sy_link s l) = None) (Done (new_contact l s))"

definition find_contact :: "link_ptr \<Rightarrow> bool \<Rightarrow> u32 \<Rightarrow> u32 \<Rightarrow> nat \<Rightarrow> string \<Rightarrow> string \<Rightarrow> link_system \<Rightarrow> (bool \<times> link_system) outcome" where
  "find_contact new accepted min_retry max_retry cl nexthop peer s =
     bind_outcome (find_link_to (Some cl) [] peer (Some OPPORTUNISTIC) (link_state_bits AVAILABLE OR link_state_bits UNAVAILABLE) s)
      (\<lambda>found. bind_outcome
        (case found of
           Some l \<Rightarrow> (if lk_contact (sy_link s l) = None then Done (Some l, False, s)
                     else bind_outcome (new_opportunistic_link new accepted min_retry max_retry cl nexthop peer s) (\<lambda>(r, s1). Done (r, True, s1)))
         | None \<Rightarrow> bind_outcome (new_opportunistic_link new accepted min_retry max_retry cl nexthop peer s) (\<lambda>(r, s1). Done (r, True, s1)))
      (\<lambda>(r, fresh, s1).
        case r of
          None \<Rightarrow> Done (False, s1)
        | Some l \<Rightarrow>
            (let s2 = (if fresh then s1 else update_link l (\<lambda>k. k\<lparr>lk_nexthop := nexthop\<rparr>) s1)
             in assert_that (fresh \<or> lk_contact (sy_link s1 l) = None)
                 (assert_that (\<not> lk_deleted (sy_link s2 l) \<and> \<not> link_isopen (sy_link s2 l))
                   (bind_outcome (set_contact l s2) (\<lambda>s3. Done (True, s3)))))))"

section \<open>Runs\<close>

definition no_link :: link_object where
  "no_link = new_link [] SCHEDULED 0 [] 1 1"

definition link_system_start :: link_system where
  "link_system_start = \<lparr>sy_link = (\<lambda>_. no_link), sy_links = [], sy_contact_link = (\<lambda>_. 0), sy_next_contact = 0, sy_managed = [],
     sy_timer = (\<lambda>_. None), sy_queue = [], sy_opportunistic_cnt = 0\<rparr>"

definition create_link :: "link_ptr \<Rightarrow> link_object \<Rightarrow> link_system \<Rightarrow> link_system" where
  "create_link l k s = update_link l (\<lambda>_. k) (s\<lparr>sy_links := l # sy_links s\<rparr>)"

text \<open>
  The daemon handles the event at the head of the queue. In between the user and the other threads make
  requests, contacts come up, timers fire, links are created and deleted, peers connect, and
  the router opens links for the bundles it handles.
\<close>

inductive link_step :: "link_system \<Rightarrow> link_system \<Rightarrow> bool" where
  ls_daemon: "daemon_step react opens s = Done s' \<Longrightarrow> fst ` set opens \<subseteq> set (sy_links s) \<Longrightarrow> link_step s s'"
| ls_request: "l \<in> set (sy_links s) \<Longrightarrow> link_step s (post_at_tail (state_change_request l new reason s) s)"
| ls_contact_up: "c < sy_next_contact s \<Longrightarrow> link_step s (post_at_tail (Contact_Up c) s)"
| ls_timer: "reopen_link l s = Done s' \<Longrightarrow> l \<in> set (sy_links s) \<Longrightarrow> link_step s s'"
| ls_create: "add_new_link l (create_link l (new_link name type cl nexthop min_retry max_retry) s) = Done (added, s')
    \<Longrightarrow> l \<notin> set (sy_links s) \<Longrightarrow> link_step s s'"
| ls_delete_request: "l \<in> set (sy_links s) \<Longrightarrow> link_step s (post_at_tail (Link_Delete l) s)"
| ls_delete: "del_link l wait reason s = Done s' \<Longrightarrow> l \<in> set (sy_links s) \<Longrightarrow> link_step s s'"
| ls_deleted: "delete_link l s = Done s' \<Longrightarrow> l \<in> set (sy_links s) \<Longrightarrow> l \<notin> set (sy_managed s) \<Longrightarrow> link_step s s'"
| ls_peer: "find_contact l accepted min_retry max_retry cl nexthop peer s = Done (success, s')
    \<Longrightarrow> l \<notin> set (sy_links s) \<Longrightarrow> link_step s s'"
| ls_route: "open_link react l s = Done s' \<Longrightarrow> l \<in> set (sy_links s) \<Longrightarrow> link_step s s'"

inductive link_reachable :: "link_system \<Rightarrow> bool" where
  lr_start: "link_reachable link_system_start"
| lr_step: "link_reachable s \<Longrightarrow> link_step s s' \<Longrightarrow> link_reachable s'"

end
