(* ===== verification/Link_Invariant.thy ===== *)
theory Link_Invariant
  imports Link_Contact
begin

text \<open>
  What holds of the links and of the queue of events in every reachable state, which
  assertions of the handlers can fail, and the retry timers.
\<close>

section \<open>The invariant\<close>

named_theorems link_defs

declare update_link_def [link_defs] post_at_tail_def [link_defs] post_at_head_def [link_defs] state_change_request_def [link_defs]
  set_link_state_def [link_defs] delete_link_def [link_defs] new_contact_def [link_defs] link_close_def [link_defs]
  has_link_def [link_defs]

text \<open>Each link: an open one has a contact, and only an opportunistic link has a contact before it is open.\<close>

definition link_ok :: "link_system \<Rightarrow> link_ptr \<Rightarrow> bool" where
  "link_ok s l \<longleftrightarrow> (let k = sy_link s l in
     (lk_state k = OPEN \<or> lk_state k = OPENING \<longrightarrow> lk_contact k \<noteq> None) \<and> lk_state k \<noteq> CLOSED
     \<and> (\<forall>c. lk_contact k = Some c \<longrightarrow> c < sy_next_contact s \<and> sy_contact_link s c = l)
     \<and> (lk_type k \<noteq> OPPORTUNISTIC \<and> lk_contact k \<noteq> None \<longrightarrow> lk_state k = OPEN \<or> lk_state k = OPENING))"

definition links_ok :: "link_system \<Rightarrow> bool" where
  "links_ok s \<longleftrightarrow> (\<forall>l. link_ok s l) \<and> distinct (sy_managed s)
     \<and> (\<forall>l\<in>set (sy_managed s). \<not> lk_deleted (sy_link s l) \<and> l \<in> set (sy_links s))"

text \<open>
  Each event of the queue: the first may be a change of availability of a link in that
  state; behind it there is no \<open>Link_Unavailable\<close>, and a \<open>Link_Available\<close> is the
  first event of an on-demand link.
\<close>

fun late_event_ok :: "link_system \<Rightarrow> link_event \<Rightarrow> bool" where
  "late_event_ok s (Link_Unavailable l r) = False"
| "late_event_ok s (Link_Available l r) = (l \<in> set (sy_links s) \<and> lk_type (sy_link s l) = ONDEMAND \<and> r = CR_NO_INFO)"
| "late_event_ok s (Link_Created l) = (l \<in> set (sy_links s))"
| "late_event_ok s (State_Change_Request l new c old r) = (l \<in> set (sy_links s))"
| "late_event_ok s (Link_Delete l) = (l \<in> set (sy_links s))"
| "late_event_ok s e = True"

fun first_event_ok :: "link_system \<Rightarrow> link_event \<Rightarrow> bool" where
  "first_event_ok s (Link_Unavailable l r) = (l \<in> set (sy_links s) \<and> lk_state (sy_link s l) = UNAVAILABLE)"
| "first_event_ok s (Link_Available l r) =
     (l \<in> set (sy_links s) \<and> (lk_state (sy_link s l) \<noteq> UNAVAILABLE \<or> lk_type (sy_link s l) = ONDEMAND \<and> r = CR_NO_INFO))"
| "first_event_ok s e = late_event_ok s e"

definition late_events_ok :: "link_system \<Rightarrow> bool" where
  "late_events_ok s \<longleftrightarrow> list_all (late_event_ok s) (sy_queue s)"

definition queue_ok :: "link_system \<Rightarrow> bool" where
  "queue_ok s \<longleftrightarrow> (case sy_queue s of [] \<Rightarrow> True | e # q \<Rightarrow> first_event_ok s e \<and> list_all (late_event_ok s) q)"

definition link_system_ok :: "link_system \<Rightarrow> bool" where
  "link_system_ok s \<longleftrightarrow> links_ok s \<and> queue_ok s"

text \<open>What everything but the daemon does to the events: it adds some at the end.\<close>

definition adds_events :: "link_system \<Rightarrow> link_system \<Rightarrow> bool" where
  "adds_events s s' \<longleftrightarrow> (\<exists>es. sy_queue s' = sy_queue s @ es \<and> list_all (late_event_ok s') es)
     \<and> set (sy_links s) \<subseteq> set (sy_links s')
     \<and> (\<forall>l\<in>set (sy_links s). lk_type (sy_link s' l) = lk_type (sy_link s l)
          \<and> (lk_state (sy_link s' l) = UNAVAILABLE \<longleftrightarrow> lk_state (sy_link s l) = UNAVAILABLE))"

lemma late_event_ok_mono:
  "adds_events s s' \<Longrightarrow> late_event_ok s e \<Longrightarrow> late_event_ok s' e"
  by (cases e) (auto simp: adds_events_def)

lemma first_event_ok_mono:
  "adds_events s s' \<Longrightarrow> first_event_ok s e \<Longrightarrow> first_event_ok s' e"
  by (cases e) (auto simp: adds_events_def)

lemma late_event_first: "late_event_ok s e \<Longrightarrow> first_event_ok s e"
  by (cases e) auto

lemma list_all_late_mono: "adds_events s s' \<Longrightarrow> list_all (late_event_ok s) es \<Longrightarrow> list_all (late_event_ok s') es"
  using late_event_ok_mono by (auto simp: list_all_iff)

lemma adds_events_refl [simp]: "adds_events s s"
  by (auto simp: adds_events_def)

lemma adds_events_trans: "adds_events s s1 \<Longrightarrow> adds_events s1 s2 \<Longrightarrow> adds_events s s2"
  using list_all_late_mono [of s1 s2] by (fastforce simp: adds_events_def)

lemma queue_ok_mono: "adds_events s s' \<Longrightarrow> queue_ok s \<Longrightarrow> queue_ok s'"
proof -
  assume a: "adds_events s s'" and q: "queue_ok s"
  then obtain es where es: "sy_queue s' = sy_queue s @ es" "list_all (late_event_ok s') es"
    by (auto simp: adds_events_def)
  show ?thesis
  proof (cases "sy_queue s")
    case Nil
    with es show ?thesis by (cases es) (auto simp: queue_ok_def late_event_first)
  next
    case (Cons e q')
    with q have "first_event_ok s' e" "list_all (late_event_ok s') q'"
      using first_event_ok_mono [OF a] list_all_late_mono [OF a] by (auto simp: queue_ok_def)
    with Cons es show ?thesis by (simp add: queue_ok_def)
  qed
qed

lemma late_events_ok_mono: "adds_events s s' \<Longrightarrow> late_events_ok s \<Longrightarrow> late_events_ok s'"
  using list_all_late_mono [of s s'] by (auto simp: late_events_ok_def adds_events_def)

lemma late_events_queue_ok: "late_events_ok s \<Longrightarrow> queue_ok s"
  by (cases "sy_queue s") (auto simp: late_events_ok_def queue_ok_def late_event_first)

section \<open>Operations outside the daemon\<close>

text \<open>No assertion fails, the links stay as they should be, and events are only added.\<close>

definition runs_ok :: "link_system \<Rightarrow> link_system outcome \<Rightarrow> bool" where
  "runs_ok s m \<longleftrightarrow> (\<exists>s'. m = Done s' \<and> links_ok s' \<and> adds_events s s')"

lemma runs_ok_Done [simp]: "runs_ok s (Done s') \<longleftrightarrow> links_ok s' \<and> adds_events s s'"
  by (simp add: runs_ok_def)

lemma runs_ok_bind: "runs_ok s m \<Longrightarrow> (\<And>s'. links_ok s' \<Longrightarrow> adds_events s s' \<Longrightarrow> runs_ok s' (f s')) \<Longrightarrow> runs_ok s (bind_outcome m f)"
  using adds_events_trans by (fastforce simp: runs_ok_def)

lemma links_okD: "links_ok s \<Longrightarrow> link_ok s l"
  by (simp add: links_ok_def)

lemma adds_eventsI:
  "sy_queue s' = sy_queue s @ es \<Longrightarrow> list_all (late_event_ok s') es \<Longrightarrow> sy_links s' = sy_links s
   \<Longrightarrow> (\<And>l. l \<in> set (sy_links s) \<Longrightarrow> lk_type (sy_link s' l) = lk_type (sy_link s l)
          \<and> (lk_state (sy_link s' l) = UNAVAILABLE \<longleftrightarrow> lk_state (sy_link s l) = UNAVAILABLE))
   \<Longrightarrow> adds_events s s'"
  by (auto simp: adds_events_def)

lemma adds_event [simp]: "adds_events s (post_at_tail e s) \<longleftrightarrow> late_event_ok s e"
proof -
  have "late_event_ok (post_at_tail e s) e = late_event_ok s e"
    by (cases e) (auto simp: post_at_tail_def)
  then show ?thesis by (auto simp: adds_events_def post_at_tail_def)
qed

lemma links_ok_post [simp]: "links_ok (post_at_tail e s) = links_ok s" "links_ok (post_at_head e s) = links_ok s"
  by (simp_all add: links_ok_def link_ok_def post_at_tail_def post_at_head_def)

lemma links_ok_timer: "links_ok (s\<lparr>sy_timer := f\<rparr>) = links_ok s"
  by (simp add: links_ok_def link_ok_def)

text \<open>Counters, names and retry intervals do not matter.\<close>

definition same_status :: "(link_object \<Rightarrow> link_object) \<Rightarrow> bool" where
  "same_status f \<longleftrightarrow> (\<forall>k. lk_type (f k) = lk_type k \<and> lk_state (f k) = lk_state k \<and> lk_contact (f k) = lk_contact k
     \<and> lk_deleted (f k) = lk_deleted k)"

lemma same_status_simps [simp]:
  "same_status (\<lambda>k. k\<lparr>lk_contact_attempts := g k\<rparr>)" "same_status (\<lambda>k. k\<lparr>lk_contacts := g k\<rparr>)"
  "same_status (\<lambda>k. k\<lparr>lk_retry_interval := g k\<rparr>)" "same_status (\<lambda>k. k\<lparr>lk_nexthop := h\<rparr>)"
  by (simp_all add: same_status_def)

lemma status_update:
  assumes "same_status f"
  shows "lk_type (sy_link (update_link l f s) j) = lk_type (sy_link s j)" "lk_state (sy_link (update_link l f s) j) = lk_state (sy_link s j)"
    "lk_contact (sy_link (update_link l f s) j) = lk_contact (sy_link s j)"
    "lk_deleted (sy_link (update_link l f s) j) = lk_deleted (sy_link s j)"
  using assms by (simp_all add: update_link_def same_status_def)

lemma update_link_other [simp]:
  "sy_next_contact (update_link l f s) = sy_next_contact s" "sy_contact_link (update_link l f s) = sy_contact_link s"
  "sy_managed (update_link l f s) = sy_managed s" "sy_links (update_link l f s) = sy_links s"
  "sy_queue (update_link l f s) = sy_queue s" "sy_timer (update_link l f s) = sy_timer s"
  by (simp_all add: update_link_def)

lemma links_ok_update [simp]: "same_status f \<Longrightarrow> links_ok (update_link l f s) = links_ok s"
  by (simp add: links_ok_def link_ok_def status_update Let_def)

lemma late_event_ok_update [simp]: "same_status f \<Longrightarrow> late_event_ok (update_link l f s) = late_event_ok s"
proof
  fix e assume "same_status f"
  then show "late_event_ok (update_link l f s) e = late_event_ok s e"
    by (cases e) (auto simp: update_link_def same_status_def)
qed

lemma adds_events_update [simp]: "same_status f \<Longrightarrow> adds_events s (update_link l f s') = adds_events s s'"
proof -
  assume "same_status f"
  then show ?thesis
    unfolding adds_events_def late_event_ok_update [OF \<open>same_status f\<close>]
    by (auto simp: update_link_def same_status_def)
qed

lemma react_to_open_ok:
  "links_ok s \<Longrightarrow> l \<in> set (sy_links s) \<Longrightarrow> links_ok (react_to_open react l c s) \<and> adds_events s (react_to_open react l c s)"
  by (cases react) (simp_all add: state_change_request_def)

lemma link_open_ok:
  assumes ok: "links_ok s" and l: "l \<in> set (sy_links s)"
    and st: "lk_contact (sy_link s l) = None" "\<not> lk_deleted (sy_link s l)"
  shows "runs_ok s (link_open react l s)"
proof (cases "lk_state (sy_link s l) = AVAILABLE")
  case True
  let ?s1 = "update_link l (\<lambda>k. k\<lparr>lk_state := OPENING\<rparr>) s"
  let ?s2 = "new_contact l ?s1"
  have o2: "links_ok ?s2"
    using ok st l by (auto simp: links_ok_def link_ok_def link_defs Let_def less_Suc_eq)
  have a2: "adds_events s ?s2"
    using True by (auto simp: link_defs intro!: adds_eventsI split: if_splits)
  have "l \<in> set (sy_links ?s2)" using l by (simp add: link_defs)
  note r = react_to_open_ok [OF o2 this, of react "sy_next_contact ?s1"]
  have s1: "set_link_state l OPENING s = Done ?s1" "lk_contact (sy_link ?s1 l) = None"
    using st by (simp_all add: link_defs)
  show ?thesis
    using True st r adds_events_trans [OF a2] by (simp add: link_open_def s1 Let_def)
qed (use st ok in \<open>simp add: link_open_def\<close>)

lemma open_link_ok: "links_ok s \<Longrightarrow> l \<in> set (sy_links s) \<Longrightarrow> runs_ok s (open_link react l s)"
  by (simp add: open_link_def link_open_ok)

lemma open_links_ok: "links_ok s \<Longrightarrow> fst ` set opens \<subseteq> set (sy_links s) \<Longrightarrow> runs_ok s (open_links opens s)"
proof (induction opens s rule: open_links.induct)
  case (2 l react xs s)
  then show ?case
    by (auto intro!: runs_ok_bind open_link_ok simp: adds_events_def)
qed simp

lemma delete_link_ok:
  assumes "links_ok s" "l \<notin> set (sy_managed s)" "\<not> lk_deleted (sy_link s l)"
  shows "runs_ok s (delete_link l s)"
proof -
  have "links_ok (update_link l (\<lambda>k. k\<lparr>lk_deleted := True\<rparr>) s)"
    using assms by (auto simp: links_ok_def link_ok_def update_link_def Let_def)
  then show ?thesis using assms by (auto simp: delete_link_def update_link_def intro!: adds_eventsI split: if_splits)
qed

lemma reopen_link_ok:
  assumes "links_ok s" "l \<in> set (sy_links s)"
  shows "runs_ok s (reopen_link l s)"
proof -
  let ?s1 = "s\<lparr>sy_timer := (sy_timer s)(l := None)\<rparr>"
  have "links_ok ?s1" using assms by (simp add: links_ok_def link_ok_def)
  moreover have a: "adds_events s ?s1" by (auto intro: adds_eventsI)
  moreover have "adds_events ?s1 (post_at_tail (state_change_request l OPEN CR_RECONNECT ?s1) ?s1)"
    using assms by (simp add: state_change_request_def)
  moreover have "\<not> lk_deleted (sy_link s l)" if "l \<in> set (sy_managed s)"
    using assms that by (simp add: links_ok_def)
  ultimately show ?thesis
    using adds_events_trans [OF a] by (auto simp: reopen_link_def has_link_def Let_def)
qed

lemma del_link_ok:
  assumes ok: "links_ok s" and l: "l \<in> set (sy_links s)"
  shows "runs_ok s (del_link l wait reason s)"
proof (cases "has_link l s")
  case True
  then have d: "\<not> lk_deleted (sy_link s l)" using ok by (simp add: links_ok_def has_link_def)
  define s1 where "s1 = (if wait then s else update_link l (\<lambda>k. k\<lparr>lk_deleted := True\<rparr>) s)"
  define s2 where "s2 = (if link_isopen (sy_link s1 l) \<or> link_isopening (sy_link s1 l)
    then post_at_tail (state_change_request l CLOSED reason s1) s1 else s1)"
  define s3 where "s3 = s2\<lparr>sy_timer := (sy_timer s2)(l := None), sy_managed := remove1 l (sy_managed s2)\<rparr>"
  have "del_link l wait reason s = Done (post_at_tail (Link_Deleted l) s3)"
    using True d by (simp add: del_link_def delete_link_def s1_def s2_def s3_def Let_def)
  moreover have "links_ok s3"
    using ok by (auto simp: links_ok_def link_ok_def link_defs s1_def s2_def s3_def Let_def)
  moreover have "adds_events s s1" using l by (auto simp: s1_def update_link_def intro!: adds_eventsI split: if_splits)
  moreover have "adds_events s1 s2" using l by (auto simp: s1_def s2_def update_link_def state_change_request_def)
  moreover have "adds_events s2 s3" by (auto simp: s3_def intro: adds_eventsI)
  ultimately have "adds_events s s3" using adds_events_trans by blast
  then have "adds_events s (post_at_tail (Link_Deleted l) s3)" by (rule adds_events_trans) simp
  then show ?thesis using \<open>del_link l wait reason s = _\<close> \<open>links_ok s3\<close> by simp
qed (use ok in \<open>simp add: del_link_def\<close>)

text \<open>A new link.\<close>

lemma create_link_ok:
  assumes ok: "links_ok s" and l: "l \<notin> set (sy_links s)"
    and k: "lk_contact k = None" "lk_state k = UNAVAILABLE \<or> lk_state k = AVAILABLE"
  shows "links_ok (create_link l k s)" "adds_events s (create_link l k s)"
proof -
  have "l \<notin> set (sy_managed s)" using ok l by (auto simp: links_ok_def)
  then show "links_ok (create_link l k s)"
    using ok k by (auto simp: links_ok_def link_ok_def create_link_def update_link_def Let_def)
  show "adds_events s (create_link l k s)"
    using l by (auto simp: adds_events_def create_link_def update_link_def)
qed

lemma add_new_link_ok:
  assumes ok: "links_ok s" and l: "l \<in> set (sy_links s)" "l \<notin> set (sy_managed s)" "\<not> lk_deleted (sy_link s l)"
  obtains added s' where "add_new_link l s = Done (added, s')" "links_ok s'" "adds_events s s'" "sy_link s' = sy_link s"
    "set (sy_managed s') = set (sy_managed s) \<union> (if added then {l} else {})" "sy_links s' = sy_links s"
proof -
  let ?s1 = "s\<lparr>sy_managed := insort l (sy_managed s)\<rparr>"
  have o1: "links_ok ?s1" using ok l by (auto simp: links_ok_def link_ok_def distinct_insort set_insort_key)
  have a1: "adds_events s ?s1" by (auto intro: adds_eventsI)
  have "adds_events s (post_at_tail (Link_Created l) ?s1)"
    by (rule adds_events_trans [OF a1]) (use l in simp)
  then have a2: "adds_events s (if lk_create_pending (sy_link s l) then ?s1 else post_at_tail (Link_Created l) ?s1)"
    using a1 by simp
  show thesis
  proof (cases "has_link_named (lk_name (sy_link s l)) s")
    case True
    then show ?thesis using that [of False s] ok l by (simp add: add_new_link_def)
  next
    case False
    then show ?thesis
      by (intro that [OF _ _ a2, of True]) (use o1 l in \<open>auto simp: add_new_link_def Let_def set_insort_key post_at_tail_def links_ok_def link_ok_def\<close>)
  qed
qed

text \<open>Links have different names, and so do the numbers tried for a new one.\<close>

lemma decimal_ne: "decimal n \<noteq> []"
  by (subst decimal.simps) simp

lemma decimal_small: "n < 10 \<Longrightarrow> decimal n = [char_of (48 + n)]"
  by (subst decimal.simps) simp

lemma decimal_large: "\<not> n < 10 \<Longrightarrow> decimal n = decimal (n div 10) @ [char_of (48 + n mod 10)]"
  by (subst decimal.simps) simp

lemma ord_digit: "d < 10 \<Longrightarrow> of_char (char_of (48 + d :: nat) :: char) = (48 + d :: nat)"
  by (simp add: of_char_of)

lemma digit_inject: "char_of (48 + m :: nat) = (char_of (48 + n) :: char) \<Longrightarrow> m < 10 \<Longrightarrow> n < 10 \<Longrightarrow> m = n"
  using ord_digit [of m] ord_digit [of n] by simp

lemma decimal_inject: "decimal m = decimal n \<Longrightarrow> m = n"
proof (induction m arbitrary: n rule: decimal.induct)
  case (1 m)
  consider "m < 10" "n < 10" | "\<not> m < 10" "\<not> n < 10" | "m < 10" "\<not> n < 10" | "\<not> m < 10" "n < 10" by blast
  then show ?case
  proof cases
    case 1
    then show ?thesis using "1.prems" digit_inject [of m n] by (simp only: decimal_small list.inject)
  next
    case 2
    from "1.prems" have "decimal (m div 10) @ [char_of (48 + m mod 10)] = decimal (n div 10) @ [char_of (48 + n mod 10)]"
      unfolding decimal_large [OF 2(1)] decimal_large [OF 2(2)] .
    then have e: "decimal (m div 10) = decimal (n div 10)" "char_of (48 + m mod 10) = (char_of (48 + n mod 10) :: char)"
      by (simp_all only: append1_eq_conv)
    have "m div 10 = n div 10" by (rule "1.IH" [OF 2(1) e(1)])
    moreover have "m mod 10 = n mod 10" by (rule digit_inject [OF e(2)]) simp_all
    ultimately show ?thesis by (metis div_mult_mod_eq)
  next
    case 3
    from "1.prems" show ?thesis
      unfolding decimal_small [OF 3(1)] decimal_large [OF 3(2)] using decimal_ne [of "n div 10"] by simp
  next
    case 4
    from "1.prems" show ?thesis
      unfolding decimal_large [OF 4(1)] decimal_small [OF 4(2)] using decimal_ne [of "m div 10"] by simp
  qed
qed

lemma tolower_digit: "d < 10 \<Longrightarrow> tolower (char_of (48 + d :: nat)) = char_of (48 + d)"
  by (simp only: tolower_def isupper_def ord_def ord_digit) simp

lemma tolower_decimal: "map tolower (decimal n) = decimal n"
proof (induction n rule: decimal.induct)
  case (1 n)
  then show ?case using tolower_digit [of n] tolower_digit [of "n mod 10"]
    by (simp add: decimal.simps [of n])
qed

lemma opportunistic_name_None:
  "opportunistic_name n i s = None \<Longrightarrow> i \<le> j \<Longrightarrow> j < i + n \<Longrightarrow> has_link_named (''link-'' @ decimal j) s"
proof (induction n arbitrary: i)
  case (Suc n)
  then show ?case by (cases "j = i") (auto split: if_splits)
qed simp

lemma opportunistic_name_total: "opportunistic_name (Suc (length (sy_managed s))) i s \<noteq> None"
proof
  let ?n = "Suc (length (sy_managed s))"
  let ?name = "\<lambda>j. map tolower (''link-'' @ decimal j)"
  assume none: "opportunistic_name ?n i s = None"
  have "?name ` {i..<i + ?n} \<subseteq> (\<lambda>l. map tolower (lk_name (sy_link s l))) ` set (sy_managed s)"
  proof
    fix x assume "x \<in> ?name ` {i..<i + ?n}"
    then obtain j where j: "i \<le> j" "j < i + ?n" "x = ?name j" by auto
    from opportunistic_name_None [OF none j(1,2)]
    obtain l where "l \<in> set (sy_managed s)" "map tolower (lk_name (sy_link s l)) = ?name j"
      unfolding has_link_named_def same_name_def list_ex_iff by blast
    then show "x \<in> (\<lambda>l. map tolower (lk_name (sy_link s l))) ` set (sy_managed s)"
      unfolding j(3) by (intro image_eqI [of _ _ l]) simp_all
  qed
  then have "card (?name ` {i..<i + ?n}) \<le> length (sy_managed s)"
    by (meson card_image_le card_length card_mono finite_imageI finite_set order_trans)
  moreover have "inj_on ?name {i..<i + ?n}"
    by (rule inj_onI) (simp add: tolower_decimal decimal_inject)
  ultimately show False by (simp add: card_image)
qed

lemma new_opportunistic_link_ok:
  assumes ok: "links_ok s" and l: "l \<notin> set (sy_links s)"
  obtains r s' where "new_opportunistic_link l accepted min_retry max_retry cl nexthop remote s = Done (r, s')"
    "links_ok s'" "adds_events s s'"
    "r = None \<or> r = Some l \<and> lk_contact (sy_link s' l) = None \<and> \<not> lk_deleted (sy_link s' l)
       \<and> lk_state (sy_link s' l) = UNAVAILABLE \<and> lk_type (sy_link s' l) = OPPORTUNISTIC \<and> l \<in> set (sy_links s')"
proof -
  obtain name cnt where n: "opportunistic_name (Suc (length (sy_managed s))) (sy_opportunistic_cnt s) s = Some (name, cnt)"
    using opportunistic_name_total by (metis not_None_eq surj_pair)
  let ?s1 = "s\<lparr>sy_opportunistic_cnt := cnt\<rparr>"
  let ?k = "(new_link name OPPORTUNISTIC cl nexthop min_retry max_retry)\<lparr>lk_remote_eid := remote\<rparr>"
  let ?s2 = "create_link l ?k ?s1"
  have o1: "links_ok ?s1" using ok by (simp add: links_ok_def link_ok_def)
  have a1: "adds_events s ?s1" by (auto intro: adds_eventsI)
  have k: "lk_contact ?k = None" "lk_state ?k = UNAVAILABLE \<or> lk_state ?k = AVAILABLE" "\<not> lk_deleted ?k"
    by (simp_all add: new_link_def)
  have l1: "l \<notin> set (sy_links ?s1)" using l by simp
  note c = create_link_ok [OF o1 l1 k(1,2)]
  have l2: "l \<in> set (sy_links ?s2)" "l \<notin> set (sy_managed ?s2)" "sy_link ?s2 l = ?k"
    using ok l by (auto simp: create_link_def update_link_def links_ok_def)
  then have d2: "\<not> lk_deleted (sy_link ?s2 l)" using k(3) by simp
  obtain added s3 where s3: "add_new_link l ?s2 = Done (added, s3)" "links_ok s3" "adds_events ?s2 s3" "sy_link s3 = sy_link ?s2"
    "set (sy_managed s3) = set (sy_managed ?s2) \<union> (if added then {l} else {})" "sy_links s3 = sy_links ?s2"
    by (rule add_new_link_ok [OF c(1) l2(1,2) d2])
  have a3: "adds_events s s3" using a1 c(2) s3(3) by (blast intro: adds_events_trans)
  have op: "new_opportunistic_link l accepted min_retry max_retry cl nexthop remote s =
      (if \<not> accepted then Done (None, ?s1) else if added then Done (Some l, s3)
       else bind_outcome (delete_link l s3) (\<lambda>s4. Done (None, s4)))"
    using n s3(1) by (simp add: new_opportunistic_link_def create_link_def Let_def)
  show thesis
  proof (cases "accepted \<and> \<not> added")
    case True
    then have "l \<notin> set (sy_managed s3)" "\<not> lk_deleted (sy_link s3 l)" using s3 l2 d2 by simp_all
    from delete_link_ok [OF s3(2) this] obtain s4 where s4: "delete_link l s3 = Done s4" "links_ok s4" "adds_events s3 s4"
      by (auto simp: runs_ok_def)
    show ?thesis
      by (rule that [of None s4]) (use True op s4 adds_events_trans [OF a3 s4(3)] in simp_all)
  next
    case False
    show ?thesis
      by (rule that [of "if accepted then Some l else None" "if accepted then s3 else ?s1"])
        (use False op o1 a1 s3 a3 l2 in \<open>auto simp: new_link_def\<close>)
  qed
qed

lemma find_SomeD: "find P xs = Some x \<Longrightarrow> x \<in> set xs \<and> P x"
  by (induction xs) (auto split: if_splits)

lemma idle_state_bits:
  "(link_state_bits AVAILABLE OR link_state_bits UNAVAILABLE) AND link_state_bits st \<noteq> 0 \<longleftrightarrow> st = AVAILABLE \<or> st = UNAVAILABLE"
  by (cases st) simp_all

lemma find_idle_link_ok:
  assumes "links_ok s"
  obtains r where "find_link_to (Some cl) [] peer (Some OPPORTUNISTIC) (link_state_bits AVAILABLE OR link_state_bits UNAVAILABLE) s = Done r"
    "\<And>l. r = Some l \<Longrightarrow> l \<in> set (sy_managed s) \<and> lk_type (sy_link s l) = OPPORTUNISTIC
       \<and> (lk_state (sy_link s l) = AVAILABLE \<or> lk_state (sy_link s l) = UNAVAILABLE)"
proof -
  let ?P = "\<lambda>l. let k = sy_link s l in
      (Some OPPORTUNISTIC = None \<or> Some OPPORTUNISTIC = Some (lk_type k)) \<and> (Some cl = None \<or> Some cl = Some (lk_cl k))
      \<and> (([] :: string) = [] \<or> [] = lk_nexthop k) \<and> (peer = ''dtn:none'' \<or> peer = lk_remote_eid k)
      \<and> (link_state_bits AVAILABLE OR link_state_bits UNAVAILABLE) AND link_state_bits (lk_state k) \<noteq> 0"
  show thesis
  proof (cases "find ?P (sy_managed s)")
    case None
    then show ?thesis by (intro that [of None]) (simp_all add: find_link_to_def)
  next
    case (Some l)
    then have "l \<in> set (sy_managed s) \<and> ?P l" by (rule find_SomeD)
    moreover from this have "\<not> lk_deleted (sy_link s l)" using assms by (auto simp: links_ok_def)
    ultimately show ?thesis using Some
      by (intro that [of "Some l"]) (auto simp: find_link_to_def Let_def idle_state_bits simp del: link_state_bits.simps)
  qed
qed

lemma new_contact_ok:
  assumes "links_ok s" "lk_type (sy_link s l) = OPPORTUNISTIC" "lk_contact (sy_link s l) = None"
  shows "links_ok (new_contact l s) \<and> adds_events s (new_contact l s)"
proof
  show "links_ok (new_contact l s)"
    using assms by (auto simp: links_ok_def link_ok_def new_contact_def update_link_def Let_def less_Suc_eq)
  show "adds_events s (new_contact l s)"
    by (rule adds_eventsI [of _ _ "[]"]) (simp_all add: new_contact_def update_link_def)
qed

lemma find_contact_ok:
  assumes ok: "links_ok s" and l: "l \<notin> set (sy_links s)"
  obtains b s' where "find_contact l accepted min_retry max_retry cl nexthop peer s = Done (b, s')" "links_ok s'" "adds_events s s'"
proof -
  obtain r where r: "find_link_to (Some cl) [] peer (Some OPPORTUNISTIC) (link_state_bits AVAILABLE OR link_state_bits UNAVAILABLE) s = Done r"
    and r': "\<And>j. r = Some j \<Longrightarrow> j \<in> set (sy_managed s) \<and> lk_type (sy_link s j) = OPPORTUNISTIC
       \<and> (lk_state (sy_link s j) = AVAILABLE \<or> lk_state (sy_link s j) = UNAVAILABLE)"
    by (rule find_idle_link_ok [OF ok, where cl = cl and peer = peer]) blast
  obtain m s1 where m: "new_opportunistic_link l accepted min_retry max_retry cl nexthop peer s = Done (m, s1)"
    and o1: "links_ok s1" and a1: "adds_events s s1"
    and n: "m = None \<or> m = Some l \<and> lk_contact (sy_link s1 l) = None \<and> \<not> lk_deleted (sy_link s1 l)
       \<and> lk_state (sy_link s1 l) = UNAVAILABLE \<and> lk_type (sy_link s1 l) = OPPORTUNISTIC \<and> l \<in> set (sy_links s1)"
    by (rule new_opportunistic_link_ok [OF ok l, where accepted = accepted and min_retry = min_retry and max_retry = max_retry
        and cl = cl and nexthop = nexthop and remote = peer]) blast
  show thesis
  proof (cases "\<exists>j. r = Some j \<and> lk_contact (sy_link s j) = None")
    case True
    then obtain j where j: "r = Some j" "lk_contact (sy_link s j) = None" by blast
    note r' [OF j(1)]
    moreover have "\<not> lk_deleted (sy_link s j)" using ok calculation by (auto simp: links_ok_def)
    moreover let ?s2 = "update_link j (\<lambda>k. k\<lparr>lk_nexthop := nexthop\<rparr>) s"
    have s2: "links_ok ?s2" "adds_events s ?s2" "lk_contact (sy_link ?s2 j) = None" "lk_type (sy_link ?s2 j) = OPPORTUNISTIC"
      using ok j calculation by (simp_all add: status_update)
    note k = new_contact_ok [OF s2(1,4,3)]
    ultimately have "find_contact l accepted min_retry max_retry cl nexthop peer s = Done (True, new_contact j ?s2)"
      using r j s2 by (auto simp: find_contact_def set_contact_def status_update simp del: link_state_bits.simps)
    then show ?thesis using that k adds_events_trans [OF s2(2)] by blast
  next
    case False
    then have f: "find_contact l accepted min_retry max_retry cl nexthop peer s =
        (case m of None \<Rightarrow> Done (False, s1)
         | Some j \<Rightarrow> assert_that (\<not> lk_deleted (sy_link s1 j) \<and> \<not> link_isopen (sy_link s1 j))
             (bind_outcome (set_contact j s1) (\<lambda>s3. Done (True, s3))))"
      using r m by (auto simp: find_contact_def Let_def simp del: link_state_bits.simps split: option.split)
    show ?thesis
    proof (cases m)
      case None
      then have "find_contact l accepted min_retry max_retry cl nexthop peer s = Done (False, s1)" using f by simp
      then show ?thesis using o1 a1 by (rule that)
    next
      case (Some j)
      with n have j: "j = l" "lk_contact (sy_link s1 l) = None" "\<not> lk_deleted (sy_link s1 l)" "lk_state (sy_link s1 l) = UNAVAILABLE"
        "lk_type (sy_link s1 l) = OPPORTUNISTIC" by simp_all
      note k = new_contact_ok [OF o1 j(5,2)]
      have "find_contact l accepted min_retry max_retry cl nexthop peer s = Done (True, new_contact l s1)"
        using Some f j by (simp add: set_contact_def)
      then show ?thesis using that k adds_events_trans [OF a1] by blast
    qed
  qed
qed

section \<open>The daemon\<close>

lemma set_link_state_Done: "st \<noteq> CLOSED \<Longrightarrow> set_link_state l st s = Done (update_link l (\<lambda>k. k\<lparr>lk_state := st\<rparr>) s)"
  by (simp add: set_link_state_def)

lemma late_events_ok_same:
  "late_events_ok s \<Longrightarrow> sy_queue s' = sy_queue s \<Longrightarrow> sy_links s' = sy_links s
   \<Longrightarrow> (\<And>l. l \<in> set (sy_links s) \<Longrightarrow> lk_type (sy_link s' l) = lk_type (sy_link s l)) \<Longrightarrow> late_events_ok s'"
proof -
  assume a: "late_events_ok s" "sy_queue s' = sy_queue s" "sy_links s' = sy_links s"
    "\<And>l. l \<in> set (sy_links s) \<Longrightarrow> lk_type (sy_link s' l) = lk_type (sy_link s l)"
  have "late_event_ok s e \<Longrightarrow> late_event_ok s' e" for e using a(3,4) by (cases e) auto
  then show ?thesis using a(1,2) by (auto simp: late_events_ok_def list_all_iff)
qed

lemma late_events_ok_state [simp]:
  "late_events_ok s \<Longrightarrow> late_events_ok (update_link l (\<lambda>k. k\<lparr>lk_state := st\<rparr>) s)"
  "late_events_ok s \<Longrightarrow> late_events_ok (update_link l (\<lambda>k. k\<lparr>lk_contact := c\<rparr>) s)"
  by (erule late_events_ok_same; simp add: update_link_def)+

lemma queue_ok_head: "late_events_ok s \<Longrightarrow> first_event_ok s e \<Longrightarrow> queue_ok (post_at_head e s)"
proof -
  assume a: "late_events_ok s" "first_event_ok s e"
  have "late_event_ok (post_at_head e s) = late_event_ok s"
  proof
    show "late_event_ok (post_at_head e s) x = late_event_ok s x" for x by (cases x) (simp_all add: post_at_head_def)
  qed
  moreover have "first_event_ok (post_at_head e s) e = first_event_ok s e"
    by (cases e) (simp_all add: post_at_head_def)
  ultimately show ?thesis using a by (simp add: queue_ok_def late_events_ok_def post_at_head_def)
qed

lemma late_events_ok_head: "late_events_ok s \<Longrightarrow> late_event_ok s e \<Longrightarrow> late_events_ok (post_at_head e s)"
proof -
  assume a: "late_events_ok s" "late_event_ok s e"
  have "late_event_ok (post_at_head e s) = late_event_ok s"
  proof
    show "late_event_ok (post_at_head e s) x = late_event_ok s x" for x by (cases x) (simp_all add: post_at_head_def)
  qed
  then show ?thesis using a by (simp add: late_events_ok_def post_at_head_def)
qed

text \<open>Closing a link.\<close>

lemma links_ok_closed:
  assumes "links_ok s" "st = UNAVAILABLE \<or> st = AVAILABLE"
  shows "links_ok (update_link l (\<lambda>k. k\<lparr>lk_state := st\<rparr>) (update_link l (\<lambda>k. k\<lparr>lk_contact := None\<rparr>) s))"
  using assms by (auto simp: links_ok_def link_ok_def update_link_def Let_def)

lemma handle_close_request_ok:
  assumes ok: "links_ok s" and q: "late_events_ok s" and l: "l \<in> set (sy_links s)"
  shows "\<exists>s'. handle_close_request l reason s = Done s' \<and> link_system_ok s'"
proof (cases "link_isopen (sy_link s l) \<or> link_isopening (sy_link s l)")
  case False
  then show ?thesis using ok q late_events_queue_ok by (simp add: handle_close_request_def link_system_ok_def)
next
  case True
  then obtain c where c: "lk_contact (sy_link s l) = Some c" using ok by (auto simp: links_ok_def link_ok_def Let_def)
  define s1 where "s1 = (if link_isopen (sy_link s l) then post_at_head (Contact_Down c reason) s else s)"
  define s2 where "s2 = update_link l (\<lambda>k. k\<lparr>lk_contact := None\<rparr>) s1"
  define s3 where "s3 = (\<lambda>st. update_link l (\<lambda>k. k\<lparr>lk_state := st\<rparr>) s2)"
  have s1: "sy_link s1 = sy_link s" "links_ok s1" "late_events_ok s1" "sy_links s1 = sy_links s"
    using ok q late_events_ok_head [OF q, of "Contact_Down c reason"] by (simp_all add: s1_def) (simp add: post_at_head_def)+
  have cl: "close_link l s1 = Done s2"
    using True c by (simp add: close_link_def s1 link_close_def s2_def Let_def) (auto simp: update_link_def s1)
  have run: "handle_close_request l reason s =
      (if reason = CR_IDLE then Done (s3 AVAILABLE) else Done (post_at_head (Link_Unavailable l reason) (s3 UNAVAILABLE)))"
    using True c cl by (auto simp: handle_close_request_def s1_def s3_def set_link_state_Done)
  have o3: "links_ok (s3 UNAVAILABLE)" "links_ok (s3 AVAILABLE)"
    using links_ok_closed [OF s1(2)] by (simp_all add: s2_def s3_def)
  have q3: "late_events_ok (s3 st)" for st using s1(3) by (simp add: s2_def s3_def)
  have "first_event_ok (s3 UNAVAILABLE) (Link_Unavailable l reason)"
    using l s1(4) by (simp add: s3_def s2_def) (simp add: update_link_def)
  then show ?thesis
    using run o3 q3 late_events_queue_ok queue_ok_head by (simp add: link_system_ok_def)
qed

lemma links_ok_state:
  assumes "links_ok s" "lk_state (sy_link s l) = UNAVAILABLE \<or> lk_state (sy_link s l) = AVAILABLE" "st = UNAVAILABLE \<or> st = AVAILABLE"
  shows "links_ok (update_link l (\<lambda>k. k\<lparr>lk_state := st\<rparr>) s)"
  using assms by (auto simp: links_ok_def link_ok_def update_link_def Let_def)

lemma runs_okD: "runs_ok s m \<Longrightarrow> \<exists>s'. m = Done s' \<and> links_ok s' \<and> adds_events s s'"
  by (simp add: runs_ok_def)

lemma state_change_ok:
  assumes ok: "links_ok s" and q: "late_events_ok s" and l: "l \<in> set (sy_links s)"
  shows "\<exists>s'. handle_link_state_change_request react l new c reason s = Done s' \<and> link_system_ok s'"
proof -
  have same: "link_system_ok s" using ok q late_events_queue_ok by (simp add: link_system_ok_def)
  have head: "link_system_ok (post_at_head e (update_link l (\<lambda>k. k\<lparr>lk_state := st\<rparr>) s))"
    if "lk_state (sy_link s l) = UNAVAILABLE \<or> lk_state (sy_link s l) = AVAILABLE" "st = UNAVAILABLE \<or> st = AVAILABLE"
      "first_event_ok (update_link l (\<lambda>k. k\<lparr>lk_state := st\<rparr>) s) e" for st e
    using that links_ok_state [OF ok that(1,2)] q by (simp add: link_system_ok_def queue_ok_head)
  show ?thesis
  proof (cases "lk_deleted (sy_link s l) \<and> new \<noteq> CLOSED \<or> lk_contact (sy_link s l) \<noteq> c")
    case True
    then show ?thesis using same by (auto simp: handle_link_state_change_request_def)
  next
    case False
    have opens: "\<exists>s'. bind_outcome (if lk_state (sy_link s l) = UNAVAILABLE then set_link_state l AVAILABLE s else Done s)
            (open_link react l) = Done s' \<and> link_system_ok s'"
    proof -
      define s1 where "s1 = (if lk_state (sy_link s l) = UNAVAILABLE then update_link l (\<lambda>k. k\<lparr>lk_state := AVAILABLE\<rparr>) s else s)"
      have "links_ok s1" "late_events_ok s1" "l \<in> set (sy_links s1)"
        using ok q l links_ok_state [OF ok] by (auto simp: s1_def)
      then show ?thesis
        using runs_okD [OF open_link_ok, of s1 l react] late_events_ok_mono late_events_queue_ok
        by (auto simp: s1_def link_system_ok_def set_link_state_Done split: if_splits)
    qed
    show ?thesis
    proof (cases new)
      case UNAVAILABLE
      then show ?thesis using False same head [of UNAVAILABLE "Link_Unavailable l reason"] l
        by (cases "lk_state (sy_link s l) = AVAILABLE")
          (auto simp: handle_link_state_change_request_def set_link_state_Done update_link_def)
    next
      case AVAILABLE
      then show ?thesis using False same head [of AVAILABLE "Link_Available l reason"] l
        by (cases "lk_state (sy_link s l) = UNAVAILABLE")
          (auto simp: handle_link_state_change_request_def set_link_state_Done update_link_def)
    next
      case CLOSED
      then show ?thesis using False handle_close_request_ok [OF ok q l]
        by (auto simp: handle_link_state_change_request_def)
    qed (use False opens in \<open>auto simp: handle_link_state_change_request_def\<close>)
  qed
qed

text \<open>Whatever the event, the system stays as it should be; only a \<open>Link_Available\<close> can fail.\<close>

definition stale_available :: "link_event \<Rightarrow> link_system \<Rightarrow> bool" where
  "stale_available e s \<longleftrightarrow> (\<exists>l. e = Link_Available l CR_NO_INFO \<and> lk_type (sy_link s l) = ONDEMAND \<and> lk_state (sy_link s l) = UNAVAILABLE)"

lemma contact_up_ok:
  assumes ok: "links_ok s" and c: "lk_contact (sy_link s l) \<noteq> None"
  shows "links_ok (update_link l (\<lambda>k. k\<lparr>lk_state := OPEN\<rparr>) s)"
  using assms by (auto simp: links_ok_def link_ok_def update_link_def Let_def)

lemma dispatch_event_ok:
  assumes ok: "links_ok s" and q: "late_events_ok s" and e: "first_event_ok s e" and n: "\<not> stale_available e s"
  shows "\<exists>d s'. dispatch_event react e s = Done (d, s') \<and> link_system_ok s'
      \<and> (\<not> d \<longrightarrow> late_events_ok s' \<and> sy_links s' = sy_links s)"
proof -
  have same: "link_system_ok s" using ok q late_events_queue_ok by (simp add: link_system_ok_def)
  show ?thesis
  proof (cases e)
    case (Link_Delete l)
    then have l: "l \<in> set (sy_links s)" using e by simp
    have "runs_ok s (handle_link_delete l s)"
      using ok del_link_ok [OF ok l] by (simp add: handle_link_delete_def)
    then obtain s1 where s1: "handle_link_delete l s = Done s1" "links_ok s1" "adds_events s s1" by (auto simp: runs_ok_def)
    then have "link_system_ok s1" using same queue_ok_mono by (simp add: link_system_ok_def)
    then show ?thesis using Link_Delete s1(1) by auto
  next
    case (State_Change_Request l new c old r)
    then have l: "l \<in> set (sy_links s)" using e by simp
    obtain s1 where "handle_link_state_change_request react l new c r s = Done s1" "link_system_ok s1"
      using state_change_ok [OF ok q l] by blast
    then show ?thesis using State_Change_Request by auto
  next
    case (Contact_Up c)
    define l where "l = sy_contact_link s c"
    define s1 where "s1 = update_link l (\<lambda>k. k\<lparr>lk_contacts := lk_contacts k + 1\<rparr>) (update_link l (\<lambda>k. k\<lparr>lk_state := OPEN\<rparr>) s)"
    have run: "dispatch_event react e s =
        (if lk_deleted (sy_link s l) then Done (True, s) else if lk_contact (sy_link s l) \<noteq> Some c then Done (False, s) else Done (False, s1))"
      unfolding Contact_Up by (simp add: handle_contact_up_def Let_def set_link_state_Done l_def s1_def)
    have "late_events_ok s1"
      by (rule late_events_ok_same [OF q]) (simp_all add: s1_def status_update, simp add: update_link_def)
    moreover have "links_ok s1" if "lk_contact (sy_link s l) = Some c"
      using contact_up_ok [OF ok] that by (simp add: s1_def)
    ultimately show ?thesis using run same q late_events_queue_ok by (auto simp: link_system_ok_def s1_def)
  next
    case (Link_Available l r)
    then have "lk_state (sy_link s l) \<noteq> UNAVAILABLE" using e n by (auto simp: stale_available_def)
    then show ?thesis using Link_Available same q by (simp add: handle_link_available_def)
  next
    case (Link_Unavailable l r)
    then show ?thesis using e same q by (auto simp: handle_link_unavailable_def)
  qed (use same q in auto)
qed

lemma cm_handle_event_ok:
  assumes ok: "links_ok s" and q: "late_events_ok s" and e: "\<And>l. e = Link_Created l \<Longrightarrow> l \<in> set (sy_links s)"
  shows "link_system_ok (cm_handle_event e s)"
proof -
  have same: "link_system_ok s" using ok q late_events_queue_ok by (simp add: link_system_ok_def)
  have timer: "link_system_ok (s\<lparr>sy_timer := f\<rparr>)" for f
  proof -
    have "adds_events s (s\<lparr>sy_timer := f\<rparr>)" by (rule adds_eventsI [of _ _ "[]"]) simp_all
    moreover have "links_ok (s\<lparr>sy_timer := f\<rparr>)" using ok by (simp add: links_ok_timer)
    ultimately show ?thesis using queue_ok_mono same by (simp add: link_system_ok_def)
  qed
  have retry: "link_system_ok (update_link l (\<lambda>k. k\<lparr>lk_retry_interval := f k\<rparr>) s)" for l f
    using same queue_ok_mono [of s "update_link l (\<lambda>k. k\<lparr>lk_retry_interval := f k\<rparr>) s"] by (simp add: link_system_ok_def)
  have both: "link_system_ok (update_link l (\<lambda>k. k\<lparr>lk_retry_interval := f k\<rparr>) s\<lparr>sy_timer := g\<rparr>)" for l f g
  proof -
    have "adds_events s (update_link l (\<lambda>k. k\<lparr>lk_retry_interval := f k\<rparr>) s\<lparr>sy_timer := g\<rparr>)"
      by (rule adds_eventsI [of _ _ "[]"]) (simp_all add: status_update)
    moreover have "links_ok (update_link l (\<lambda>k. k\<lparr>lk_retry_interval := f k\<rparr>) s\<lparr>sy_timer := g\<rparr>)"
      using ok by (simp add: links_ok_timer)
    ultimately show ?thesis using queue_ok_mono same by (simp add: link_system_ok_def)
  qed
  show ?thesis
  proof (cases e)
    case (Link_Created l)
    then have l: "l \<in> set (sy_links s)" using e by blast
    have "link_system_ok (set_initial_state l s)"
      using ok q l same queue_ok_head [OF q, of "state_change_request l OPEN CR_USER s"] queue_ok_mono [of s "post_at_tail (Link_Available l CR_NO_INFO) s"]
      by (auto simp: set_initial_state_def link_system_ok_def state_change_request_def split: link_type.splits)
    then show ?thesis using Link_Created same by (simp add: cm_link_created_def)
  next
    case (Link_Unavailable l r)
    then show ?thesis using same retry both by (simp add: cm_link_unavailable_def Let_def)
  next
    case (Contact_Up c)
    then show ?thesis using same retry by (simp add: cm_contact_up_def Let_def)
  qed (use same timer in \<open>auto simp: cm_link_available_def\<close>)
qed

lemma stale_available_panics: "stale_available e s \<Longrightarrow> handle_event react opens e s = Panic"
  by (auto simp: stale_available_def handle_event_def handle_link_available_def)

lemma handle_event_ok:
  assumes ok: "links_ok s" and q: "late_events_ok s" and e: "first_event_ok s e" and n: "\<not> stale_available e s"
    and opens: "fst ` set opens \<subseteq> set (sy_links s)"
  shows "\<exists>s'. handle_event react opens e s = Done s' \<and> link_system_ok s'"
proof -
  obtain d s1 where s1: "dispatch_event react e s = Done (d, s1)" "link_system_ok s1"
    and tell: "\<not> d \<Longrightarrow> late_events_ok s1 \<and> sy_links s1 = sy_links s"
    using dispatch_event_ok [OF ok q e n] by blast
  show ?thesis
  proof (cases d)
    case True
    then show ?thesis using s1 by (simp add: handle_event_def)
  next
    case False
    note t = tell [OF False]
    have "links_ok s1" using s1(2) by (simp add: link_system_ok_def)
    with t opens obtain s2 where s2: "open_links opens s1 = Done s2" "links_ok s2" "adds_events s1 s2"
      using open_links_ok [of s1 opens] by (auto simp: runs_ok_def)
    have "late_events_ok s2" using late_events_ok_mono s2(3) t by blast
    moreover have "l \<in> set (sy_links s2)" if "e = Link_Created l" for l
      using that e t s2(3) by (auto simp: adds_events_def)
    ultimately have "link_system_ok (cm_handle_event e s2)" using cm_handle_event_ok [OF s2(2)] by blast
    then show ?thesis using s1(1) s2(1) False by (simp add: handle_event_def)
  qed
qed

lemma dequeue_ok:
  assumes "link_system_ok s" "sy_queue s = e # q"
  shows "links_ok (s\<lparr>sy_queue := q\<rparr>)" "late_events_ok (s\<lparr>sy_queue := q\<rparr>)" "first_event_ok (s\<lparr>sy_queue := q\<rparr>) e"
proof -
  have "late_event_ok (s\<lparr>sy_queue := q\<rparr>) x = late_event_ok s x" for x by (cases x) simp_all
  moreover have "first_event_ok (s\<lparr>sy_queue := q\<rparr>) e = first_event_ok s e" by (cases e) simp_all
  moreover have "links_ok (s\<lparr>sy_queue := q\<rparr>) = links_ok s" by (simp add: links_ok_def link_ok_def)
  ultimately show "links_ok (s\<lparr>sy_queue := q\<rparr>)" "late_events_ok (s\<lparr>sy_queue := q\<rparr>)" "first_event_ok (s\<lparr>sy_queue := q\<rparr>) e"
    using assms by (simp_all add: link_system_ok_def queue_ok_def late_events_ok_def list_all_iff)
qed

lemma daemon_step_ok:
  assumes ok: "link_system_ok s" and opens: "fst ` set opens \<subseteq> set (sy_links s)"
  shows "daemon_step react opens s = Panic \<longleftrightarrow> (\<exists>e q. sy_queue s = e # q \<and> stale_available e s)"
    "daemon_step react opens s = Done s' \<Longrightarrow> link_system_ok s'"
proof -
  have all: "(daemon_step react opens s = Panic \<longleftrightarrow> (\<exists>e q. sy_queue s = e # q \<and> stale_available e s))
    \<and> (\<forall>s'. daemon_step react opens s = Done s' \<longrightarrow> link_system_ok s')"
  proof (cases "sy_queue s")
    case Nil
    then show ?thesis using ok by (simp add: daemon_step_def)
  next
    case (Cons e q)
    let ?s0 = "s\<lparr>sy_queue := q\<rparr>"
    have st: "stale_available e ?s0 = stale_available e s" by (simp add: stale_available_def)
    have run: "daemon_step react opens s = handle_event react opens e ?s0" using Cons by (simp add: daemon_step_def)
    show ?thesis
    proof (cases "stale_available e s")
      case True
      then show ?thesis using run Cons st stale_available_panics [of e ?s0] by simp
    next
      case False
      have "\<exists>s'. handle_event react opens e ?s0 = Done s' \<and> link_system_ok s'"
        by (rule handle_event_ok) (use dequeue_ok [OF ok Cons] False st opens in simp_all)
      then show ?thesis using run Cons False by auto
    qed
  qed
  then show "daemon_step react opens s = Panic \<longleftrightarrow> (\<exists>e q. sy_queue s = e # q \<and> stale_available e s)"
    "daemon_step react opens s = Done s' \<Longrightarrow> link_system_ok s'" by blast+
qed

lemma adds_events_ok: "link_system_ok s \<Longrightarrow> links_ok s' \<Longrightarrow> adds_events s s' \<Longrightarrow> link_system_ok s'"
  using queue_ok_mono by (simp add: link_system_ok_def)

lemma runs_ok_system: "link_system_ok s \<Longrightarrow> runs_ok s (Done s') \<Longrightarrow> link_system_ok s'"
  using adds_events_ok by simp

lemma link_step_ok: "link_step s s' \<Longrightarrow> link_system_ok s \<Longrightarrow> link_system_ok s'"
proof (induction rule: link_step.induct)
  case (ls_daemon react opens s s')
  show ?case by (rule daemon_step_ok(2) [OF ls_daemon.prems ls_daemon.hyps(2,1)])
next
  case (ls_request l s new reason)
  then show ?case using adds_events_ok [of s] by (simp add: link_system_ok_def state_change_request_def)
next
  case (ls_contact_up c s)
  then show ?case using adds_events_ok [of s] by (simp add: link_system_ok_def)
next
  case (ls_timer l s s')
  then show ?case using reopen_link_ok [of s l] runs_ok_system [of s s'] by (simp add: link_system_ok_def)
next
  case (ls_create l name type cl nexthop min_retry max_retry s added s')
  let ?k = "new_link name type cl nexthop min_retry max_retry"
  have ok: "links_ok s" using ls_create.prems by (simp add: link_system_ok_def)
  have k: "lk_contact ?k = None" "lk_state ?k = UNAVAILABLE \<or> lk_state ?k = AVAILABLE" "\<not> lk_deleted ?k"
    by (simp_all add: new_link_def)
  note c = create_link_ok [OF ok ls_create.hyps(2) k(1,2)]
  have l: "l \<in> set (sy_links (create_link l ?k s))" "l \<notin> set (sy_managed (create_link l ?k s))"
    "\<not> lk_deleted (sy_link (create_link l ?k s) l)"
    using ok ls_create.hyps(2) k(3) by (auto simp: create_link_def links_ok_def update_link_def)
  obtain b s1 where "add_new_link l (create_link l ?k s) = Done (b, s1)" "links_ok s1" "adds_events (create_link l ?k s) s1"
    by (rule add_new_link_ok [OF c(1) l]) blast
  then show ?case using ls_create.hyps(1) adds_events_ok [OF ls_create.prems, of s1] adds_events_trans [OF c(2), of s1] by simp
next
  case (ls_delete_request l s)
  then show ?case using adds_events_ok [of s] by (simp add: link_system_ok_def)
next
  case (ls_delete l wait reason s s')
  then show ?case using del_link_ok [of s l wait reason] runs_ok_system [of s s'] by (simp add: link_system_ok_def)
next
  case (ls_deleted l s s')
  then have "runs_ok s (delete_link l s)"
    by (intro delete_link_ok) (auto simp: link_system_ok_def delete_link_def assert_that_def split: if_splits)
  then show ?case using ls_deleted runs_ok_system [of s s'] by simp
next
  case (ls_peer l accepted min_retry max_retry cl nexthop peer s ok s')
  then have "links_ok s" by (simp add: link_system_ok_def)
  then obtain b s1 where "find_contact l accepted min_retry max_retry cl nexthop peer s = Done (b, s1)" "links_ok s1" "adds_events s s1"
    by (rule find_contact_ok [OF _ ls_peer.hyps(2), where accepted = accepted and min_retry = min_retry and max_retry = max_retry
          and cl = cl and nexthop = nexthop and peer = peer]) blast
  then show ?case using ls_peer.hyps(1) adds_events_ok [OF ls_peer.prems, of s1] by simp
next
  case (ls_route react l s s')
  then show ?case using open_link_ok [of s l react] runs_ok_system [of s s'] by (simp add: link_system_ok_def)
qed

lemma start_ok: "link_system_ok link_system_start"
  by (simp add: link_system_ok_def links_ok_def link_ok_def queue_ok_def link_system_start_def no_link_def new_link_def Let_def)

lemma reachable_ok: "link_reachable s \<Longrightarrow> link_system_ok s"
proof (induction rule: link_reachable.induct)
  case lr_start
  show ?case by (rule start_ok)
next
  case (lr_step s s')
  then show ?case by (blast intro: link_step_ok)
qed

section \<open>Properties\<close>


text \<open>
  The daemon does abort: the user makes a new on-demand link unavailable before the events of
  its creation are handled.
\<close>

definition ondemand_run :: link_system where
  "ondemand_run =
     (let s0 = create_link 0 (new_link ''peer'' ONDEMAND 0 ''host:4556'' 5 600) link_system_start
      in case add_new_link 0 s0 of
           Panic \<Rightarrow> s0
         | Done (_, s1) \<Rightarrow>
             (case fold_outcome (\<lambda>_. daemon_step Post_Nothing []) [0 :: nat, 1, 2]
                     (post_at_tail (state_change_request 0 UNAVAILABLE CR_USER s1) s1) of
                Panic \<Rightarrow> s1 | Done s2 \<Rightarrow> s2))"

lemmas link_run_simps = create_link_def new_link_def update_link_def link_system_start_def add_new_link_def has_link_named_def
  post_at_tail_def post_at_head_def state_change_request_def daemon_step_def handle_event_def cm_link_created_def has_link_def
  set_initial_state_def handle_link_state_change_request_def set_link_state_def cm_link_unavailable_def handle_link_unavailable_def

lemma ondemand_run_eval:
  "sy_queue ondemand_run = [Link_Available 0 CR_NO_INFO]" "lk_type (sy_link ondemand_run 0) = ONDEMAND"
  "lk_state (sy_link ondemand_run 0) = UNAVAILABLE" "sy_links ondemand_run = [0]"
  by (simp_all add: ondemand_run_def link_run_simps Let_def)

lemma ondemand_run_reachable: "link_reachable ondemand_run"
proof -
  let ?k = "new_link ''peer'' ONDEMAND 0 ''host:4556'' 5 600"
  obtain s1 where s1: "add_new_link 0 (create_link 0 ?k link_system_start) = Done (True, s1)" "sy_links s1 = [0]"
    by (simp add: link_run_simps Let_def)
  then have r1: "link_reachable s1" by (intro lr_step [OF lr_start] ls_create) (simp_all add: link_system_start_def)
  let ?s2 = "post_at_tail (state_change_request 0 UNAVAILABLE CR_USER s1) s1"
  have r2: "link_reachable ?s2" using s1(2) by (intro lr_step [OF r1] ls_request) simp
  have run: "fold_outcome (\<lambda>_. daemon_step Post_Nothing []) xs s = Done s' \<Longrightarrow> link_reachable s \<Longrightarrow> link_reachable s'"
    for xs :: "nat list" and s s'
  proof (induction xs arbitrary: s)
    case (Cons x xs)
    then obtain s1 where s1: "daemon_step Post_Nothing [] s = Done s1" "fold_outcome (\<lambda>_. daemon_step Post_Nothing []) xs s1 = Done s'"
      by (auto simp: bind_outcome_Done_iff)
    have "link_reachable s1" by (rule lr_step [OF Cons.prems(2) ls_daemon [OF s1(1)]]) simp
    then show ?case using Cons.IH s1(2) by blast
  qed simp
  obtain s3 where s3: "fold_outcome (\<lambda>_. daemon_step Post_Nothing []) [0 :: nat, 1, 2] ?s2 = Done s3"
    using s1(1) by (auto simp: link_run_simps Let_def)
  have "ondemand_run = s3" using s1(1) s3 by (simp add: ondemand_run_def Let_def)
  then show ?thesis using run [OF s3 r2] by simp
qed


text \<open>The waits of a link that cannot be opened, when each timer has fired.\<close>

fun failed_attempts :: "nat \<Rightarrow> link_ptr \<Rightarrow> contact_reason \<Rightarrow> link_system \<Rightarrow> link_system" where
  "failed_attempts 0 l r s = s"
| "failed_attempts (Suc n) l r s = (let s1 = cm_link_unavailable l r (failed_attempts n l r s) in s1\<lparr>sy_timer := (sy_timer s1)(l := None)\<rparr>)"

lemma next_retry_interval_value:
  assumes "unat i < 2 ^ 31"
  shows "unat (next_retry_interval i m) = min (2 * unat i) (unat m)"
proof -
  have "unat (i * 2) = 2 * unat i" using assms by (simp add: unat_word_ariths)
  then show ?thesis by (auto simp: next_retry_interval_def Let_def word_less_nat_alt)
qed

definition backoff :: "nat \<Rightarrow> nat \<Rightarrow> nat \<Rightarrow> nat" where
  "backoff minimum maximum n = min (minimum * 2 ^ n) maximum"

lemma backoff_Suc: "minimum \<le> maximum \<Longrightarrow> min (2 * backoff minimum maximum n) maximum = backoff minimum maximum (Suc n)"
  by (simp add: backoff_def min_def)

definition next_wait :: "link_object \<Rightarrow> u32" where
  "next_wait k = (if lk_retry_interval k = 0 then lk_min_retry k else lk_retry_interval k)"

definition retry_applies :: "link_ptr \<Rightarrow> contact_reason \<Rightarrow> link_system \<Rightarrow> bool" where
  "retry_applies l r s \<longleftrightarrow> has_link l s \<and> \<not> lk_deleted (sy_link s l) \<and> retried_type (lk_type (sy_link s l)) \<and> r \<noteq> CR_USER \<and> r \<noteq> CR_IDLE"

lemma cm_link_unavailable_retry:
  assumes "retry_applies l r s" "sy_timer s l = None"
  shows "cm_link_unavailable l r s =
    update_link l (\<lambda>k. k\<lparr>lk_retry_interval := next_retry_interval (next_wait (sy_link s l)) (lk_max_retry k)\<rparr>) s
      \<lparr>sy_timer := (sy_timer s)(l := Some (next_wait (sy_link s l)))\<rparr>"
  using assms by (simp add: cm_link_unavailable_def retry_applies_def next_wait_def Let_def)

lemma failed_attempts_Suc:
  assumes "retry_applies l r (failed_attempts n l r s)" "sy_timer (failed_attempts n l r s) l = None"
    "s1 = failed_attempts n l r s"
  shows "sy_link (failed_attempts (Suc n) l r s) l =
      (sy_link s1 l)\<lparr>lk_retry_interval := next_retry_interval (next_wait (sy_link s1 l)) (lk_max_retry (sy_link s1 l))\<rparr>"
    "sy_timer (failed_attempts (Suc n) l r s) l = None" "sy_managed (failed_attempts (Suc n) l r s) = sy_managed s1"
  using assms by (simp_all add: cm_link_unavailable_retry Let_def) (simp add: update_link_def)

lemma failed_attempts_retry:
  assumes applies: "retry_applies l r s" and timer: "sy_timer s l = None" and k: "k = sy_link s l"
    and first: "lk_retry_interval k = 0 \<or> lk_retry_interval k = lk_min_retry k"
    and range: "0 < unat (lk_min_retry k)" "unat (lk_min_retry k) \<le> unat (lk_max_retry k)" "unat (lk_max_retry k) < 2 ^ 31"
  shows "retry_applies l r (failed_attempts n l r s) \<and> sy_timer (failed_attempts n l r s) l = None
      \<and> lk_max_retry (sy_link (failed_attempts n l r s) l) = lk_max_retry k
      \<and> unat (next_wait (sy_link (failed_attempts n l r s) l)) = backoff (unat (lk_min_retry k)) (unat (lk_max_retry k)) n"
proof (induction n)
  case 0
  then show ?case using assms by (auto simp: next_wait_def backoff_def)
next
  case (Suc n)
  define s1 where "s1 = failed_attempts n l r s"
  note ih = Suc [folded s1_def]
  note step = failed_attempts_Suc [OF conjunct1 [OF Suc] _ s1_def, folded s1_def]
  have small: "unat (next_wait (sy_link s1 l)) < 2 ^ 31"
    using ih range(3) by (simp add: backoff_def)
  define w where "w = next_retry_interval (next_wait (sy_link s1 l)) (lk_max_retry k)"
  have w: "unat w = backoff (unat (lk_min_retry k)) (unat (lk_max_retry k)) (Suc n)"
    using next_retry_interval_value [OF small, of "lk_max_retry k"] ih backoff_Suc [OF range(2)] by (simp add: w_def)
  have "0 < unat w" unfolding w backoff_def using range by simp
  then have "w \<noteq> 0" by auto
  then show ?case using step ih w by (auto simp: retry_applies_def has_link_def next_wait_def w_def)
qed


definition alwayson_example :: link_system where
  "alwayson_example = (create_link 0 (new_link ''peer'' ALWAYSON 0 ''host:4556'' 5 600) link_system_start)\<lparr>sy_managed := [0]\<rparr>"



definition udp_example :: link_system where
  "udp_example = create_link 0 (new_link ''udp'' ONDEMAND 0 ''host:4556'' 5 600) link_system_start"


end
