(* ===== verification/Forwarding_Log.thy ===== *)
theory Forwarding_Log
  imports Dtn_Prelude
begin

text \<open>
  \<open>ForwardingInfo.h\<close>, \<open>ForwardingLog.cc\<close> and the decision of \<open>BundleRouter.cc\<close> whether a
  bundle is sent on a link. The log of a bundle has an entry for each transmission and
  each reception; states and actions are sets of bits in queries. Times of the entries are
  left out, and an endpoint is its text.
\<close>

section \<open>Entries\<close>

datatype fwd_action = INVALID_ACTION | FORWARD_ACTION | COPY_ACTION

datatype fwd_state =
  FWD_NONE | QUEUED | TRANSMITTED | TRANSMIT_FAILED | CANCELLED | CUSTODY_TIMEOUT | DELIVERED | SUPPRESSED | RECEIVED

fun action_bits :: "fwd_action \<Rightarrow> u32" where
  "action_bits INVALID_ACTION = 0"
| "action_bits FORWARD_ACTION = 1"
| "action_bits COPY_ACTION = 2"

fun state_bits :: "fwd_state \<Rightarrow> u32" where
  "state_bits FWD_NONE = 0"
| "state_bits QUEUED = 1"
| "state_bits TRANSMITTED = 2"
| "state_bits TRANSMIT_FAILED = 4"
| "state_bits CANCELLED = 8"
| "state_bits CUSTODY_TIMEOUT = 16"
| "state_bits DELIVERED = 32"
| "state_bits SUPPRESSED = 64"
| "state_bits RECEIVED = 1024"

abbreviation (input) ANY_ACTION :: u32 where "ANY_ACTION \<equiv> 0xffffffff"

record custody_spec =
  cs_min :: u32
  cs_lifetime_pct :: u32
  cs_max :: u32

definition default_custody_spec :: custody_spec where
  "default_custody_spec = \<lparr>cs_min = 30 * 60, cs_lifetime_pct = 25, cs_max = 0\<rparr>"

record forwarding_info =
  fi_state :: fwd_state
  fi_action :: fwd_action
  fi_link_name :: string
  fi_regid :: u32
  fi_remote_eid :: string
  fi_custody_spec :: custody_spec

type_synonym forwarding_log = "forwarding_info list"

abbreviation (input) null_eid_str :: string where "null_eid_str \<equiv> ''dtn:none''"
abbreviation (input) wildcard_eid_str :: string where "wildcard_eid_str \<equiv> ''*:*''"

section \<open>Operations of the log\<close>

text \<open>A link is given by its name and its remote endpoint, a registration by its id and its endpoint.\<close>

definition latest_for_link :: "string \<Rightarrow> string \<Rightarrow> forwarding_log \<Rightarrow> forwarding_info option outcome" where
  "latest_for_link name remote log =
     (case find (\<lambda>e. fi_link_name e = name) (rev log) of
        None \<Rightarrow> Done None
      | Some e \<Rightarrow> assert_that (fi_remote_eid e = null_eid_str \<or> fi_remote_eid e = remote) (Done (Some e)))"

definition latest_for_registration :: "u32 \<Rightarrow> string \<Rightarrow> forwarding_log \<Rightarrow> forwarding_info option outcome" where
  "latest_for_registration regid eid log =
     (case find (\<lambda>e. fi_regid e = regid) (rev log) of
        None \<Rightarrow> Done None
      | Some e \<Rightarrow> assert_that (fi_remote_eid e = null_eid_str \<or> fi_remote_eid e = eid) (Done (Some e)))"

definition latest_in_state :: "fwd_state \<Rightarrow> forwarding_log \<Rightarrow> forwarding_info option" where
  "latest_in_state st log = find (\<lambda>e. fi_state e = st) (rev log)"

definition info_state :: "forwarding_info option \<Rightarrow> fwd_state" where
  "info_state r = (case r of None \<Rightarrow> FWD_NONE | Some e \<Rightarrow> fi_state e)"

definition counted :: "u32 \<Rightarrow> u32 \<Rightarrow> forwarding_info \<Rightarrow> bool" where
  "counted states actions e \<longleftrightarrow> state_bits (fi_state e) AND states \<noteq> 0 \<and> action_bits (fi_action e) AND actions \<noteq> 0"

definition log_count :: "u32 \<Rightarrow> u32 \<Rightarrow> forwarding_log \<Rightarrow> nat" where
  "log_count states actions log = length (filter (counted states actions) log)"

definition log_count_for :: "string \<Rightarrow> u32 \<Rightarrow> u32 \<Rightarrow> forwarding_log \<Rightarrow> nat" where
  "log_count_for eid states actions log =
     length (filter (\<lambda>e. (fi_remote_eid e = wildcard_eid_str \<or> fi_remote_eid e = eid) \<and> counted states actions e) log)"

definition log_add_link :: "string \<Rightarrow> string \<Rightarrow> fwd_action \<Rightarrow> fwd_state \<Rightarrow> custody_spec \<Rightarrow> forwarding_log \<Rightarrow> forwarding_log" where
  "log_add_link name remote action st spec log =
     log @ [\<lparr>fi_state = st, fi_action = action, fi_link_name = name, fi_regid = 0xffffffff, fi_remote_eid = remote,
             fi_custody_spec = spec\<rparr>]"

definition log_add_registration :: "string \<Rightarrow> u32 \<Rightarrow> string \<Rightarrow> fwd_action \<Rightarrow> fwd_state \<Rightarrow> forwarding_log \<Rightarrow> forwarding_log" where
  "log_add_registration number regid eid action st log =
     log @ [\<lparr>fi_state = st, fi_action = action, fi_link_name = ''registration-'' @ number, fi_regid = regid, fi_remote_eid = eid,
             fi_custody_spec = default_custody_spec\<rparr>]"

definition log_add_eid :: "string \<Rightarrow> fwd_action \<Rightarrow> fwd_state \<Rightarrow> forwarding_log \<Rightarrow> forwarding_log" where
  "log_add_eid eid action st log =
     log @ [\<lparr>fi_state = st, fi_action = action, fi_link_name = ''eid-'' @ eid, fi_regid = 0xffffffff, fi_remote_eid = eid,
             fi_custody_spec = default_custody_spec\<rparr>]"

text \<open>The latest entry of the link changes its state; from the last entry of the log backwards.\<close>

fun update_first :: "string \<Rightarrow> string \<Rightarrow> fwd_state \<Rightarrow> forwarding_log \<Rightarrow> (bool \<times> forwarding_log) outcome" where
  "update_first name remote st [] = Done (False, [])"
| "update_first name remote st (e # log) =
     (if fi_link_name e = name
      then assert_that (fi_remote_eid e = null_eid_str \<or> fi_remote_eid e = remote) (Done (True, e\<lparr>fi_state := st\<rparr> # log))
      else bind_outcome (update_first name remote st log) (\<lambda>(r, log'). Done (r, e # log')))"

definition log_update :: "string \<Rightarrow> string \<Rightarrow> fwd_state \<Rightarrow> forwarding_log \<Rightarrow> (bool \<times> forwarding_log) outcome" where
  "log_update name remote st log =
     bind_outcome (update_first name remote st (rev log)) (\<lambda>(r, log'). Done (r, rev log'))"

definition log_update_all :: "fwd_state \<Rightarrow> fwd_state \<Rightarrow> forwarding_log \<Rightarrow> forwarding_log" where
  "log_update_all old new log = map (\<lambda>e. if fi_state e = old then e\<lparr>fi_state := new\<rparr> else e) log"

section \<open>The decision to forward\<close>

abbreviation (input) SENT_STATES :: u32 where "SENT_STATES \<equiv> state_bits TRANSMITTED OR state_bits QUEUED"

definition router_should_fwd :: "bool \<Rightarrow> string \<Rightarrow> string \<Rightarrow> fwd_action \<Rightarrow> forwarding_log \<Rightarrow> bool outcome" where
  "router_should_fwd singleton name remote action log =
     bind_outcome (latest_for_link name remote log) (\<lambda>r.
       assert_that (r = None \<or> info_state r \<noteq> FWD_NONE)
        (Done (if info_state r = TRANSMITTED \<or> info_state r = QUEUED then False
         else if remote \<noteq> null_eid_str \<and> 0 < log_count_for remote SENT_STATES ANY_ACTION log then False
         else if remote \<noteq> null_eid_str \<and> 0 < log_count_for remote (state_bits SUPPRESSED) ANY_ACTION log then False
         else if singleton \<and> action = FORWARD_ACTION \<and> 0 < log_count SENT_STATES (action_bits action) log then False
         else True)))"

section \<open>Facts about the log\<close>

text \<open>
  The entries of a link name the endpoint the link has. The assertions of the log hold then.
\<close>

definition log_names_ok :: "(string \<Rightarrow> string) \<Rightarrow> forwarding_log \<Rightarrow> bool" where
  "log_names_ok remote_of log \<longleftrightarrow>
     (\<forall>e\<in>set log. (fi_remote_eid e = null_eid_str \<or> fi_remote_eid e = remote_of (fi_link_name e)) \<and> fi_state e \<noteq> FWD_NONE)"

lemma find_rev_SomeD: "find P (rev log) = Some e \<Longrightarrow> e \<in> set log \<and> P e"
  by (metis find_Some_iff nth_mem set_rev)

lemma latest_for_link_ok:
  "log_names_ok remote_of log \<Longrightarrow> remote_of name = remote
   \<Longrightarrow> latest_for_link name remote log = Done (find (\<lambda>e. fi_link_name e = name) (rev log))"
  by (auto simp: latest_for_link_def log_names_ok_def dest!: find_rev_SomeD split: option.split)

lemma router_should_fwd_ok:
  assumes "log_names_ok remote_of log" "remote_of name = remote"
  shows "\<exists>b. router_should_fwd singleton name remote action log = Done b"
proof -
  let ?r = "find (\<lambda>e. fi_link_name e = name) (rev log)"
  have "?r = None \<or> info_state ?r \<noteq> FWD_NONE"
    using assms(1) by (cases ?r) (auto simp: info_state_def log_names_ok_def dest!: find_rev_SomeD)
  then show ?thesis by (simp add: router_should_fwd_def latest_for_link_ok [OF assms])
qed

text \<open>A bundle with one destination is forwarded only when no other transmission counts.\<close>

lemma router_should_fwd_single:
  "router_should_fwd True name remote FORWARD_ACTION log = Done True \<Longrightarrow> log_count SENT_STATES (action_bits FORWARD_ACTION) log = 0"
  by (auto simp: router_should_fwd_def bind_outcome_Done_iff assert_that_def split: if_splits)

lemma router_should_fwd_not_sent:
  "router_should_fwd singleton name remote action log = Done True
   \<Longrightarrow> latest_for_link name remote log = Done r \<Longrightarrow> info_state r \<noteq> QUEUED \<and> info_state r \<noteq> TRANSMITTED"
  by (auto simp: router_should_fwd_def assert_that_def split: if_splits)

lemma log_count_add [simp]:
  "log_count states actions (log @ [e]) = log_count states actions log + (if counted states actions e then 1 else 0)"
  by (simp add: log_count_def)

lemma log_names_ok_add:
  "log_names_ok remote_of log \<Longrightarrow> remote_of name = remote \<Longrightarrow> st \<noteq> FWD_NONE
   \<Longrightarrow> log_names_ok remote_of (log_add_link name remote action st spec log)"
  by (simp add: log_names_ok_def log_add_link_def)

lemma update_first_ok:
  "log_names_ok remote_of log \<Longrightarrow> remote_of name = remote \<Longrightarrow>
   update_first name remote st log =
     Done (case find (\<lambda>e. fi_link_name e = name) log of None \<Rightarrow> (False, log)
           | Some e \<Rightarrow> (True, takeWhile (\<lambda>e. fi_link_name e \<noteq> name) log @ e\<lparr>fi_state := st\<rparr> # tl (dropWhile (\<lambda>e. fi_link_name e \<noteq> name) log)))"
  by (induction log) (auto simp: log_names_ok_def split: option.splits)

lemma log_split: "find (\<lambda>e. fi_link_name e = name) log = Some e \<Longrightarrow>
   log = takeWhile (\<lambda>e. fi_link_name e \<noteq> name) log @ e # tl (dropWhile (\<lambda>e. fi_link_name e \<noteq> name) log)"
  by (induction log) (auto split: if_splits)

text \<open>What an update changes: the state of one entry.\<close>

lemma log_update_split:
  assumes ok: "log_names_ok remote_of log" "remote_of name = remote" and e: "find (\<lambda>e. fi_link_name e = name) (rev log) = Some e"
  obtains older newer where "log = older @ e # newer" "\<forall>x\<in>set newer. fi_link_name x \<noteq> name" "fi_link_name e = name"
    "log_update name remote st log = Done (True, older @ e\<lparr>fi_state := st\<rparr> # newer)"
proof -
  let ?n = "rev (takeWhile (\<lambda>e. fi_link_name e \<noteq> name) (rev log))"
  let ?o = "rev (tl (dropWhile (\<lambda>e. fi_link_name e \<noteq> name) (rev log)))"
  have ok': "log_names_ok remote_of (rev log)" using ok(1) by (simp add: log_names_ok_def)
  have "rev log = rev ?n @ e # rev ?o" using log_split [OF e] by simp
  then have "log = ?o @ e # ?n" by (metis append.assoc append_Cons append_Nil rev.simps(2) rev_append rev_rev_ident)
  moreover have "log_update name remote st log = Done (True, ?o @ e\<lparr>fi_state := st\<rparr> # ?n)"
    using update_first_ok [OF ok' ok(2)] e by (simp add: log_update_def)
  moreover have "\<forall>x\<in>set ?n. fi_link_name x \<noteq> name" by (auto dest: set_takeWhileD)
  moreover have "fi_link_name e = name" using find_rev_SomeD [OF e] by simp
  ultimately show ?thesis using that by blast
qed

lemma log_update_none:
  "log_names_ok remote_of log \<Longrightarrow> remote_of name = remote \<Longrightarrow> find (\<lambda>e. fi_link_name e = name) (rev log) = None
   \<Longrightarrow> log_update name remote st log = Done (False, log)"
  using update_first_ok [of remote_of "rev log" name remote st] by (simp add: log_update_def log_names_ok_def)

text \<open>A transmission that ends in a state that does not count lowers the count, or leaves it.\<close>

lemma log_update_count:
  assumes ok: "log_names_ok remote_of log" "remote_of name = remote" and run: "log_update name remote st log = Done (r, log')"
    and st: "state_bits st AND states \<noteq> 0 \<Longrightarrow> \<exists>e. find (\<lambda>e. fi_link_name e = name) (rev log) = Some e \<and> state_bits (fi_state e) AND states \<noteq> 0"
  shows "log_count states actions log' \<le> log_count states actions log"
proof (cases "find (\<lambda>e. fi_link_name e = name) (rev log)")
  case None
  then show ?thesis using run log_update_none [OF ok] by simp
next
  case (Some e)
  obtain older newer where "log = older @ e # newer"
    "log_update name remote st log = Done (True, older @ e\<lparr>fi_state := st\<rparr> # newer)"
    by (rule log_update_split [OF ok Some]) blast
  moreover have "state_bits st AND states \<noteq> 0 \<longrightarrow> state_bits (fi_state e) AND states \<noteq> 0" using st Some by auto
  ultimately show ?thesis using run by (auto simp: log_count_def counted_def)
qed

lemma log_update_names:
  assumes ok: "log_names_ok remote_of log" "remote_of name = remote" and run: "log_update name remote st log = Done (r, log')"
    and st: "st \<noteq> FWD_NONE"
  shows "log_names_ok remote_of log'"
proof (cases "find (\<lambda>e. fi_link_name e = name) (rev log)")
  case None
  then show ?thesis using run log_update_none [OF ok] ok by simp
next
  case (Some e)
  obtain older newer where "log = older @ e # newer"
    "log_update name remote st log = Done (True, older @ e\<lparr>fi_state := st\<rparr> # newer)"
    by (rule log_update_split [OF ok Some]) blast
  then show ?thesis using run st ok by (auto simp: log_names_ok_def)
qed

end
