(* ===== verification/Route_Table.thy ===== *)
theory Route_Table
  imports Forwarding_Log Link_Contact
begin

text \<open>
  \<open>RouteEntry.cc\<close> and \<open>RouteTable.cc\<close>: routes from destination patterns to links or to other
  endpoints, and the lookup, which follows the routes to endpoints up to a bound. Entries are objects
  on the heap; the pointer to one is a number.
\<close>

section \<open>Entries\<close>

text \<open>Either a link or the endpoint by whose routes the entry is replaced.\<close>

datatype next_hop = To_Link link_ptr | Route_To endpoint_id

record route_entry =
  re_ptr :: nat
  re_dest :: endpoint_id
  re_source :: endpoint_id
  re_cos :: u32
  re_priority :: u32
  re_next :: next_hop
  re_action :: fwd_action
  re_custody_spec :: custody_spec

text \<open>What does not depend on the table: how patterns are matched, and the limit \<open>max_route_to_chain\<close>.\<close>

record route_config =
  rc_memory :: string
  rc_glob_unknown :: bool
  rc_max_chain :: nat
  rc_default_priority :: u32
  rc_add_nexthop_routes :: bool

type_synonym route_table = "route_entry list"

definition new_route :: "route_config \<Rightarrow> nat \<Rightarrow> endpoint_id \<Rightarrow> next_hop \<Rightarrow> route_entry outcome" where
  "new_route cf p dest nh =
     bind_outcome WILDCARD_EID (\<lambda>any.
       Done \<lparr>re_ptr = p, re_dest = dest, re_source = any, re_cos = 7, re_priority = rc_default_priority cf, re_next = nh,
             re_action = FORWARD_ACTION, re_custody_spec = default_custody_spec\<rparr>)"

definition cos_flags_ok :: "route_entry \<Rightarrow> bool" where
  "cos_flags_ok e \<longleftrightarrow> \<not> (re_cos e = 0 \<or> 8 \<le> re_cos e)"

definition route_add :: "route_entry \<Rightarrow> route_table \<Rightarrow> route_table" where
  "route_add e t = t @ [e]"

fun route_del :: "endpoint_id \<Rightarrow> link_ptr \<Rightarrow> route_table \<Rightarrow> bool \<times> route_table" where
  "route_del dest l [] = (False, [])"
| "route_del dest l (e # t) =
     (if eid_equals (re_dest e) dest \<and> re_next e = To_Link l then (True, t)
      else (case route_del dest l t of (r, t') \<Rightarrow> (r, e # t')))"

definition route_del_matching :: "(route_entry \<Rightarrow> bool) \<Rightarrow> route_table \<Rightarrow> nat \<times> route_table" where
  "route_del_matching pred t =
     (let t' = filter (\<lambda>e. \<not> pred e) t in if list_ex pred t then (length t - length t', t') else (0, t))"

definition route_del_entries :: "endpoint_id \<Rightarrow> route_table \<Rightarrow> nat \<times> route_table" where
  "route_del_entries dest = route_del_matching (\<lambda>e. eid_equals dest (re_dest e))"

definition route_del_nexthop :: "link_ptr \<Rightarrow> route_table \<Rightarrow> nat \<times> route_table" where
  "route_del_nexthop l = route_del_matching (\<lambda>e. re_next e = To_Link l)"

section \<open>The lookup\<close>

text \<open>
  The entries found so far, whether the limit was met, and the number of entries added. \<open>n\<close> is how many more
  routes to endpoints may be followed.
\<close>

definition entry_matches :: "route_config \<Rightarrow> route_entry \<Rightarrow> endpoint_id \<Rightarrow> bool" where
  "entry_matches cf e eid = eid_match (rc_memory cf) (rc_glob_unknown cf) (re_dest e) eid"

type_synonym lookup_state = "route_entry list \<times> bool \<times> nat"

definition add_match :: "link_ptr option \<Rightarrow> link_ptr \<Rightarrow> route_entry \<Rightarrow> lookup_state \<Rightarrow> lookup_state" where
  "add_match nh l e st =
     (case st of (acc, loop, count) \<Rightarrow>
       if nh = None \<or> nh = Some l then
         if list_ex (\<lambda>x. re_ptr x = re_ptr e) acc then (acc, loop, count) else (acc @ [e], loop, Suc count)
       else (acc, loop, count))"

fun matching_helper :: "route_config \<Rightarrow> route_table \<Rightarrow> link_ptr option \<Rightarrow> nat \<Rightarrow> endpoint_id \<Rightarrow> route_entry list
    \<Rightarrow> lookup_state \<Rightarrow> lookup_state outcome"
where
  "matching_helper cf t nh n eid [] st = Done st"
| "matching_helper cf t nh n eid (e # es) st =
     (if \<not> entry_matches cf e eid then matching_helper cf t nh n eid es st
      else (case re_next e of
              To_Link l \<Rightarrow> matching_helper cf t nh n eid es (add_match nh l e st)
            | Route_To to \<Rightarrow>
                assert_that (eid_str to \<noteq> [])
                 (case n of
                    0 \<Rightarrow> matching_helper cf t nh n eid es (case st of (acc, loop, count) \<Rightarrow> (acc, True, count))
                  | Suc m \<Rightarrow> bind_outcome (matching_helper cf t nh m to t st) (matching_helper cf t nh n eid es))))"

definition get_matching :: "route_config \<Rightarrow> route_table \<Rightarrow> endpoint_id \<Rightarrow> link_ptr option \<Rightarrow> route_entry list
    \<Rightarrow> lookup_state outcome" where
  "get_matching cf t eid nh acc = matching_helper cf t nh (rc_max_chain cf) eid t (acc, False, 0)"

section \<open>What the lookup finds\<close>

text \<open>
  The specification: an entry is reached from an endpoint by following at most \<open>n\<close> routes to
  endpoints, and the limit is met when one more could be followed.
\<close>

fun reaches :: "route_config \<Rightarrow> route_table \<Rightarrow> nat \<Rightarrow> endpoint_id \<Rightarrow> route_entry \<Rightarrow> bool" where
  "reaches cf t 0 eid e = (e \<in> set t \<and> entry_matches cf e eid \<and> (\<exists>l. re_next e = To_Link l))"
| "reaches cf t (Suc n) eid e =
     (reaches cf t 0 eid e \<or> (\<exists>r\<in>set t. \<exists>to. re_next r = Route_To to \<and> entry_matches cf r eid \<and> reaches cf t n to e))"

fun too_long :: "route_config \<Rightarrow> route_table \<Rightarrow> nat \<Rightarrow> endpoint_id \<Rightarrow> bool" where
  "too_long cf t 0 eid = (\<exists>r\<in>set t. \<exists>to. re_next r = Route_To to \<and> entry_matches cf r eid)"
| "too_long cf t (Suc n) eid = (\<exists>r\<in>set t. \<exists>to. re_next r = Route_To to \<and> entry_matches cf r eid \<and> too_long cf t n to)"

definition route_table_ok :: "route_table \<Rightarrow> bool" where
  "route_table_ok t \<longleftrightarrow> distinct (map re_ptr t) \<and> (\<forall>e\<in>set t. \<forall>to. re_next e = Route_To to \<longrightarrow> eid_str to \<noteq> [])"

definition wanted_hop :: "link_ptr option \<Rightarrow> route_entry \<Rightarrow> bool" where
  "wanted_hop nh e \<longleftrightarrow> nh = None \<or> (\<exists>l. nh = Some l \<and> re_next e = To_Link l)"

lemma re_ptr_inject: "route_table_ok t \<Longrightarrow> e \<in> set t \<Longrightarrow> x \<in> set t \<Longrightarrow> re_ptr x = re_ptr e \<longleftrightarrow> x = e"
  by (auto simp: route_table_ok_def distinct_map inj_on_def)

text \<open>What the entries \<open>es\<close> of the table contribute.\<close>

definition contributes :: "route_config \<Rightarrow> route_table \<Rightarrow> nat \<Rightarrow> endpoint_id \<Rightarrow> route_entry list \<Rightarrow> route_entry \<Rightarrow> bool" where
  "contributes cf t n eid es e \<longleftrightarrow>
     (e \<in> set es \<and> entry_matches cf e eid \<and> (\<exists>l. re_next e = To_Link l))
     \<or> (\<exists>m r to. n = Suc m \<and> r \<in> set es \<and> re_next r = Route_To to \<and> entry_matches cf r eid \<and> reaches cf t m to e)"

definition overruns :: "route_config \<Rightarrow> route_table \<Rightarrow> nat \<Rightarrow> endpoint_id \<Rightarrow> route_entry list \<Rightarrow> bool" where
  "overruns cf t n eid es \<longleftrightarrow>
     (\<exists>r\<in>set es. \<exists>to. re_next r = Route_To to \<and> entry_matches cf r eid \<and> (case n of 0 \<Rightarrow> True | Suc m \<Rightarrow> too_long cf t m to))"

lemma contributes_all: "contributes cf t n eid t e = reaches cf t n eid e"
  by (cases n) (auto simp: contributes_def)

lemma contributes_table: "contributes cf t n eid t = reaches cf t n eid"
  by (rule ext) (rule contributes_all)

lemma overruns_all: "overruns cf t n eid t = too_long cf t n eid"
  by (cases n) (auto simp: overruns_def)

lemma reaches_in_table: "reaches cf t n eid e \<Longrightarrow> e \<in> set t \<and> (\<exists>l. re_next e = To_Link l)"
  by (induction n arbitrary: eid) auto

text \<open>The effect of the lookup on what was found before.\<close>

definition lookup_adds :: "route_config \<Rightarrow> route_table \<Rightarrow> link_ptr option \<Rightarrow> (route_entry \<Rightarrow> bool) \<Rightarrow> bool \<Rightarrow> lookup_state
    \<Rightarrow> lookup_state outcome \<Rightarrow> bool" where
  "lookup_adds cf t nh P over st m \<longleftrightarrow> (case st of (acc, loop, count) \<Rightarrow>
     \<exists>new. m = Done (acc @ new, loop \<or> over, count + length new) \<and> distinct (map re_ptr (acc @ new))
       \<and> set (acc @ new) = set acc \<union> {e. P e \<and> wanted_hop nh e})"

definition lookup_ready :: "route_table \<Rightarrow> lookup_state \<Rightarrow> bool" where
  "lookup_ready t st \<longleftrightarrow> distinct (map re_ptr (fst st)) \<and> set (fst st) \<subseteq> set t"

lemma lookup_addsI:
  "m = Done (acc @ new, loop \<or> over, count + length new) \<Longrightarrow> distinct (map re_ptr (acc @ new))
   \<Longrightarrow> set (acc @ new) = set acc \<union> {e. P e \<and> wanted_hop nh e} \<Longrightarrow> lookup_adds cf t nh P over (acc, loop, count) m"
  by (auto simp: lookup_adds_def)

lemma lookup_adds_bind:
  assumes "lookup_adds cf t nh P o1 st m" "\<And>st'. m = Done st' \<Longrightarrow> lookup_adds cf t nh Q o2 st' (f st')"
  shows "lookup_adds cf t nh (\<lambda>e. P e \<or> Q e) (o1 \<or> o2) st (bind_outcome m f)"
proof -
  obtain acc loop count where st: "st = (acc, loop, count)" by (cases st)
  from assms(1) obtain new where n: "m = Done (acc @ new, loop \<or> o1, count + length new)"
    "set (acc @ new) = set acc \<union> {e. P e \<and> wanted_hop nh e}"
    by (auto simp: lookup_adds_def st)
  from assms(2) [OF n(1)] obtain new2 where n2: "f (acc @ new, loop \<or> o1, count + length new) =
      Done ((acc @ new) @ new2, (loop \<or> o1) \<or> o2, count + length new + length new2)"
    "distinct (map re_ptr ((acc @ new) @ new2))"
    "set ((acc @ new) @ new2) = set (acc @ new) \<union> {e. Q e \<and> wanted_hop nh e}"
    unfolding lookup_adds_def prod.case by blast
  show ?thesis unfolding st
    by (rule lookup_addsI [of _ _ "new @ new2"]) (use n n2 in auto)
qed

lemma lookup_adds_ready:
  "lookup_adds cf t nh P over st m \<Longrightarrow> m = Done st' \<Longrightarrow> lookup_ready t st \<Longrightarrow> (\<And>e. P e \<Longrightarrow> e \<in> set t) \<Longrightarrow> lookup_ready t st'"
  by (cases st) (auto simp: lookup_adds_def lookup_ready_def)

text \<open>One entry to a link.\<close>

lemma add_match_adds:
  assumes ok: "route_table_ok t" and e: "e \<in> set t" "re_next e = To_Link l" and st: "lookup_ready t st"
  shows "lookup_adds cf t nh (\<lambda>x. x = e) False st (Done (add_match nh l e st))"
proof -
  obtain acc loop count where s: "st = (acc, loop, count)" by (cases st)
  have mem: "list_ex (\<lambda>x. re_ptr x = re_ptr e) acc \<longleftrightarrow> e \<in> set acc"
    using re_ptr_inject [OF ok e(1)] st by (auto simp: list_ex_iff lookup_ready_def s)
  have w: "wanted_hop nh e \<longleftrightarrow> nh = None \<or> nh = Some l" using e(2) by (auto simp: wanted_hop_def)
  show ?thesis unfolding s
    by (rule lookup_addsI [of _ _ "if wanted_hop nh e \<and> e \<notin> set acc then [e] else []"])
      (use st mem w in \<open>auto simp: add_match_def lookup_ready_def s list_ex_iff\<close>)
qed

lemma contributes_Cons:
  "contributes cf t n eid (e # es) x \<longleftrightarrow>
     (if \<not> entry_matches cf e eid then False
      else case re_next e of To_Link l \<Rightarrow> x = e | Route_To to \<Rightarrow> (case n of 0 \<Rightarrow> False | Suc m \<Rightarrow> reaches cf t m to x))
     \<or> contributes cf t n eid es x"
  by (auto simp: contributes_def split: next_hop.splits nat.splits)

lemma overruns_Cons:
  "overruns cf t n eid (e # es) \<longleftrightarrow>
     (if \<not> entry_matches cf e eid then False
      else case re_next e of To_Link l \<Rightarrow> False | Route_To to \<Rightarrow> (case n of 0 \<Rightarrow> True | Suc m \<Rightarrow> too_long cf t m to))
     \<or> overruns cf t n eid es"
  by (auto simp: overruns_def split: next_hop.splits nat.splits)

lemma lookup_adds_nothing:
  "lookup_ready t st \<Longrightarrow> lookup_adds cf t nh (\<lambda>_. False) False st (Done st)"
  by (cases st) (auto simp: lookup_adds_def lookup_ready_def)

lemma lookup_adds_loop:
  "lookup_ready t st \<Longrightarrow> lookup_adds cf t nh (\<lambda>_. False) True st (Done (case st of (acc, loop, count) \<Rightarrow> (acc, True, count)))"
  by (cases st) (auto simp: lookup_adds_def lookup_ready_def)

text \<open>What one entry contributes, and then the others.\<close>

definition first_match :: "route_config \<Rightarrow> route_table \<Rightarrow> link_ptr option \<Rightarrow> nat \<Rightarrow> endpoint_id \<Rightarrow> route_entry \<Rightarrow> lookup_state
    \<Rightarrow> lookup_state outcome" where
  "first_match cf t nh n eid e st =
     (if \<not> entry_matches cf e eid then Done st
      else (case re_next e of
              To_Link l \<Rightarrow> Done (add_match nh l e st)
            | Route_To to \<Rightarrow>
                assert_that (eid_str to \<noteq> [])
                 (case n of 0 \<Rightarrow> Done (case st of (acc, loop, count) \<Rightarrow> (acc, True, count))
                  | Suc m \<Rightarrow> matching_helper cf t nh m to t st)))"

lemma matching_helper_Cons:
  "matching_helper cf t nh n eid (e # es) st = bind_outcome (first_match cf t nh n eid e st) (matching_helper cf t nh n eid es)"
  by (simp add: first_match_def assert_that_def split: next_hop.split nat.split)

lemma matching_helper_spec:
  assumes ok: "route_table_ok t"
  shows "set es \<subseteq> set t \<Longrightarrow> lookup_ready t st \<Longrightarrow>
    lookup_adds cf t nh (contributes cf t n eid es) (overruns cf t n eid es) st (matching_helper cf t nh n eid es st)"
proof (induction n arbitrary: eid es st rule: less_induct)
  case (less n)
  note outer = less.IH
  show ?case using less.prems
  proof (induction es arbitrary: st)
    case Nil
    then have "lookup_adds cf t nh (\<lambda>_. False) False st (Done st)" by (simp add: lookup_adds_nothing)
    then show ?case by (simp add: contributes_def [abs_def] overruns_def)
  next
    case (Cons e es)
    define P where "P = (\<lambda>x. if \<not> entry_matches cf e eid then False
      else case re_next e of To_Link l \<Rightarrow> x = e | Route_To to \<Rightarrow> (case n of 0 \<Rightarrow> False | Suc m \<Rightarrow> reaches cf t m to x))"
    define over where "over = (if \<not> entry_matches cf e eid then False
      else case re_next e of To_Link l \<Rightarrow> False | Route_To to \<Rightarrow> (case n of 0 \<Rightarrow> True | Suc m \<Rightarrow> too_long cf t m to))"
    have to: "eid_str to \<noteq> []" if "re_next e = Route_To to" for to
      using that ok Cons.prems(1) by (auto simp: route_table_ok_def)
    have deeper: "lookup_adds cf t nh (reaches cf t m to) (too_long cf t m to) st (matching_helper cf t nh m to t st)"
      if "n = Suc m" for m to
      using outer [of m t st to] that Cons.prems(2) by (simp add: contributes_table overruns_all)
    have first: "lookup_adds cf t nh P over st (first_match cf t nh n eid e st)"
      using add_match_adds [OF ok, of e _ st cf nh] lookup_adds_nothing [OF Cons.prems(2), of cf nh] lookup_adds_loop [OF Cons.prems(2), of cf nh]
        deeper to Cons.prems
      by (auto simp: first_match_def P_def over_def split: next_hop.split nat.split)
    have in_table: "P x \<Longrightarrow> x \<in> set t" for x
      using Cons.prems(1) reaches_in_table by (auto simp: P_def split: if_splits next_hop.splits nat.splits)
    have "lookup_adds cf t nh (contributes cf t n eid es) (overruns cf t n eid es) st' (matching_helper cf t nh n eid es st')"
      if "first_match cf t nh n eid e st = Done st'" for st'
      using Cons.IH [of st'] Cons.prems lookup_adds_ready [OF first that _ in_table] by simp
    from lookup_adds_bind [OF first this]
    have "lookup_adds cf t nh (\<lambda>x. P x \<or> contributes cf t n eid es x) (over \<or> overruns cf t n eid es) st (matching_helper cf t nh n eid (e # es) st)"
      by (simp only: matching_helper_Cons)
    moreover have "contributes cf t n eid (e # es) = (\<lambda>x. P x \<or> contributes cf t n eid es x)"
      by (rule ext) (simp only: contributes_Cons P_def)
    moreover have "overruns cf t n eid (e # es) = (over \<or> overruns cf t n eid es)"
      by (simp only: overruns_Cons over_def)
    ultimately show ?case by simp
  qed
qed

text \<open>
  C36. The lookup finds, without repetition, exactly the entries to a link that are reached by following at most
  \<open>max_route_to_chain\<close> routes to endpoints, whatever cycles these routes have; it counts them, and it warns of a loop exactly when
  one more route could have been followed.
\<close>

theorem get_matching_spec:
  assumes "route_table_ok t"
  shows "\<exists>es. get_matching cf t eid nh [] = Done (es, too_long cf t (rc_max_chain cf) eid, length es) \<and> distinct es
    \<and> set es = {e. reaches cf t (rc_max_chain cf) eid e \<and> wanted_hop nh e}"
proof -
  have "lookup_adds cf t nh (contributes cf t (rc_max_chain cf) eid t) (overruns cf t (rc_max_chain cf) eid t) ([], False, 0)
      (get_matching cf t eid nh [])"
    unfolding get_matching_def by (rule matching_helper_spec [OF assms]) (simp_all add: lookup_ready_def)
  then show ?thesis by (auto simp: lookup_adds_def contributes_all overruns_all distinct_map)
qed

text \<open>Two endpoints that stand for each other, and a link for the second.\<close>

definition string_eid :: "string \<Rightarrow> endpoint_id" where
  "string_eid s = \<lparr>eid_uri = (new_uri (''str:'' @ s) True True)\<lparr>scheme_c := \<lparr>c_offset = 0, c_length = 3\<rparr>,
     ssp_c := \<lparr>c_offset = 4, c_length = length s\<rparr>, parse_err := URI_PARSE_OK\<rparr>, eid_scheme = Some StringScheme, eid_valid = True, eid_is_pattern = False\<rparr>"

definition example_config :: route_config where
  "example_config = \<lparr>rc_memory = [], rc_glob_unknown = True, rc_max_chain = 10, rc_default_priority = 0, rc_add_nexthop_routes = True\<rparr>"

definition example_hop :: "nat \<Rightarrow> string \<Rightarrow> next_hop \<Rightarrow> route_entry" where
  "example_hop p s nh = \<lparr>re_ptr = p, re_dest = string_eid s, re_source = string_eid ''*'', re_cos = 7, re_priority = 0, re_next = nh,
     re_action = FORWARD_ACTION, re_custody_spec = default_custody_spec\<rparr>"

definition example_table :: route_table where
  "example_table = [example_hop 1 ''a'' (Route_To (string_eid ''b'')), example_hop 2 ''b'' (Route_To (string_eid ''a'')), example_hop 3 ''b'' (To_Link 7)]"

theorem get_matching_spec_witness:
  "\<exists>es. get_matching example_config example_table (string_eid ''a'') None [] = Done (es, True, length es) \<and> example_hop 3 ''b'' (To_Link 7) \<in> set es"
proof -
  have ok: "route_table_ok example_table" by (simp add: route_table_ok_def example_table_def example_hop_def string_eid_def new_uri_def eid_str_def)
  have n: "rc_max_chain example_config = Suc (Suc (Suc (Suc (Suc (Suc (Suc (Suc (Suc (Suc 0)))))))))" by (simp add: example_config_def)
  have m: "entry_matches example_config (example_hop p s nh) (string_eid s') \<longleftrightarrow> s = s'" for p s nh s'
    by (simp add: entry_matches_def eid_match_def string_match_def example_hop_def string_eid_def new_uri_def uri_valid_def eid_str_def)
  have h: "re_next (example_hop p s nh) = nh" for p s nh by (simp add: example_hop_def)
  have "too_long example_config example_table (rc_max_chain example_config) (string_eid ''a'')"
    unfolding n by (simp add: example_table_def m h)
  moreover have "reaches example_config example_table (rc_max_chain example_config) (string_eid ''a'') (example_hop 3 ''b'' (To_Link 7))"
    unfolding n by (simp add: example_table_def m h)
  ultimately show ?thesis
    using get_matching_spec [OF ok, of example_config "string_eid ''a''" None] by (auto simp: wanted_hop_def)
qed

end
