(* ===== verification/Table_Router.thy ===== *)
theory Table_Router
  imports Route_Table Bundle_List
begin

text \<open>
  \<open>TableBasedRouter.cc\<close>, the queues of \<open>Link.cc\<close>, \<open>queue_bundle\<close> of \<open>BundleActions.cc\<close> and what \<open>BundleDaemon.cc\<close> does
  to the forwarding log when a transmission ends: how a bundle is forwarded to links, and deferred
  when that is not possible. Sessions and the reception cache are left out, the latter but for
  its answer; lists of bundles are lists of pointers, which is what \<open>Bundle_List\<close> implements.
\<close>

section \<open>The queues of a link\<close>

record link_queues =
  lq_queue :: "bundle_ptr list"
  lq_inflight :: "bundle_ptr list"
  lq_bundles_queued :: u32
  lq_bytes_queued :: u32
  lq_bundles_inflight :: u32
  lq_bytes_inflight :: u32
  lq_bundles_high :: u32
  lq_bytes_high :: u64
  lq_bundles_low :: u32
  lq_bytes_low :: u64
  lq_mtu :: u32
  lq_deferred :: "(bundle_ptr list \<times> (bundle_ptr \<Rightarrow> forwarding_info option) \<times> nat) option"

definition new_link_queues :: link_queues where
  "new_link_queues = \<lparr>lq_queue = [], lq_inflight = [], lq_bundles_queued = 0, lq_bytes_queued = 0, lq_bundles_inflight = 0,
     lq_bytes_inflight = 0, lq_bundles_high = 10, lq_bytes_high = 1024 * 1024, lq_bundles_low = 5, lq_bytes_low = 512 * 1024,
     lq_mtu = 0, lq_deferred = None\<rparr>"

definition queue_is_full :: "link_queues \<Rightarrow> bool" where
  "queue_is_full q \<longleftrightarrow> lq_bundles_high q < lq_bundles_queued q \<or> lq_bytes_high q < ucast (lq_bytes_queued q)"

definition queue_has_space :: "link_queues \<Rightarrow> bool" where
  "queue_has_space q \<longleftrightarrow> lq_bundles_queued q < lq_bundles_low q \<and> ucast (lq_bytes_queued q) < lq_bytes_low q"

definition add_to_queue :: "bundle_ptr \<Rightarrow> u64 \<Rightarrow> link_queues \<Rightarrow> bool \<times> link_queues" where
  "add_to_queue b len q =
     (if b \<in> set (lq_queue q) then (False, q)
      else (True, q\<lparr>lq_bundles_queued := lq_bundles_queued q + 1, lq_bytes_queued := ucast (ucast (lq_bytes_queued q) + len),
                    lq_queue := lq_queue q @ [b]\<rparr>))"

definition del_from_queue :: "bundle_ptr \<Rightarrow> u64 \<Rightarrow> link_queues \<Rightarrow> (bool \<times> link_queues) outcome" where
  "del_from_queue b len q =
     (if b \<notin> set (lq_queue q) then Done (False, q)
      else assert_that (0 < lq_bundles_queued q) (assert_that (len \<noteq> 0)
        (Done (True, q\<lparr>lq_queue := remove1 b (lq_queue q), lq_bundles_queued := lq_bundles_queued q - 1,
                       lq_bytes_queued := (if len \<le> ucast (lq_bytes_queued q) then ucast (ucast (lq_bytes_queued q) - len) else lq_bytes_queued q)\<rparr>))))"

definition add_to_inflight :: "bundle_ptr \<Rightarrow> u64 \<Rightarrow> link_queues \<Rightarrow> bool \<times> link_queues" where
  "add_to_inflight b len q =
     (if b \<in> set (lq_inflight q) then (False, q)
      else (True, q\<lparr>lq_inflight := lq_inflight q @ [b], lq_bundles_inflight := lq_bundles_inflight q + 1,
                    lq_bytes_inflight := ucast (ucast (lq_bytes_inflight q) + len)\<rparr>))"

definition del_from_inflight :: "bundle_ptr \<Rightarrow> u64 \<Rightarrow> link_queues \<Rightarrow> (bool \<times> link_queues) outcome" where
  "del_from_inflight b len q =
     (if b \<notin> set (lq_inflight q) then Done (False, q)
      else assert_that (0 < lq_bundles_inflight q) (assert_that (len \<noteq> 0)
        (Done (True, q\<lparr>lq_inflight := remove1 b (lq_inflight q), lq_bundles_inflight := lq_bundles_inflight q - 1,
                       lq_bytes_inflight := (if len \<le> ucast (lq_bytes_inflight q) then ucast (ucast (lq_bytes_inflight q) - len) else lq_bytes_inflight q)\<rparr>))))"

section \<open>The list of deferred bundles\<close>

text \<open>The router keeps it with the link since the link was created; the assertion says so.\<close>

definition with_deferred :: "link_queues \<Rightarrow> (bundle_ptr list \<times> (bundle_ptr \<Rightarrow> forwarding_info option) \<times> nat \<Rightarrow> 'a outcome) \<Rightarrow> 'a outcome" where
  "with_deferred q f = (case lq_deferred q of None \<Rightarrow> Panic | Some d \<Rightarrow> f d)"

definition deferred_add :: "bundle_ptr \<Rightarrow> forwarding_info \<Rightarrow> link_queues \<Rightarrow> (bool \<times> link_queues) outcome" where
  "deferred_add b info q = with_deferred q (\<lambda>(list, infos, count).
     if b \<in> set list then Done (False, q)
     else Done (True, q\<lparr>lq_deferred := Some (list @ [b], (if infos b = None then infos(b \<mapsto> info) else infos), Suc count)\<rparr>))"

definition deferred_del :: "bundle_ptr \<Rightarrow> link_queues \<Rightarrow> (bool \<times> link_queues) outcome" where
  "deferred_del b q = with_deferred q (\<lambda>(list, infos, count).
     if b \<notin> set list then Done (False, q)
     else assert_that (0 < count) (assert_that (infos b \<noteq> None)
       (Done (True, q\<lparr>lq_deferred := Some (remove1 b list, infos(b := None), count - 1)\<rparr>))))"

definition deferred_info :: "bundle_ptr \<Rightarrow> link_queues \<Rightarrow> forwarding_info outcome" where
  "deferred_info b q = with_deferred q (\<lambda>(list, infos, count). case infos b of None \<Rightarrow> Panic | Some i \<Rightarrow> Done i)"

definition is_deferred :: "bundle_ptr \<Rightarrow> link_queues \<Rightarrow> bool outcome" where
  "is_deferred b q = with_deferred q (\<lambda>(list, infos, count). Done (b \<in> set list))"

section \<open>The state of the router\<close>

record routed_bundle =
  rb_dest :: endpoint_id
  rb_singleton :: bool
  rb_log :: forwarding_log
  rb_blocks :: "link_ptr list"

text \<open>
  The previous hop is the answer of the reception cache.
\<close>

record router_state =
  rs_sys :: link_system
  rs_link :: "link_ptr \<Rightarrow> link_queues"
  rs_bundle :: "bundle_ptr \<Rightarrow> routed_bundle"
  rs_prevhop :: "bundle_ptr \<Rightarrow> string option"
  rs_table :: route_table

text \<open>
  What the router gets from elsewhere: the configuration, what the convergence layer of a link does at
  once when it is opened and whether it sends a bundle at once, the length of the formatted blocks of a
  bundle, and the order in which \<open>std::sort\<close> leaves routes of the same priority.
\<close>

record router_env =
  en_config :: route_config
  en_open :: "link_ptr \<Rightarrow> open_reaction"
  en_sends_now :: "link_ptr \<Rightarrow> bool"
  en_length :: "bundle_ptr \<Rightarrow> link_ptr \<Rightarrow> u64"
  en_sort :: "(route_entry \<Rightarrow> u32) \<Rightarrow> route_entry list \<Rightarrow> route_entry list"

definition link_name :: "link_ptr \<Rightarrow> router_state \<Rightarrow> string" where
  "link_name l s = lk_name (sy_link (rs_sys s) l)"

definition link_remote :: "link_ptr \<Rightarrow> router_state \<Rightarrow> string" where
  "link_remote l s = lk_remote_eid (sy_link (rs_sys s) l)"

definition set_queues :: "link_ptr \<Rightarrow> link_queues \<Rightarrow> router_state \<Rightarrow> router_state" where
  "set_queues l q s = s\<lparr>rs_link := (rs_link s)(l := q)\<rparr>"

definition set_bundle :: "bundle_ptr \<Rightarrow> routed_bundle \<Rightarrow> router_state \<Rightarrow> router_state" where
  "set_bundle b x s = s\<lparr>rs_bundle := (rs_bundle s)(b := x)\<rparr>"

section \<open>Queueing a bundle on a link\<close>

text \<open>A layer that sends at once takes the bundle off the queue again.\<close>

definition bundle_queued :: "router_env \<Rightarrow> bundle_ptr \<Rightarrow> link_ptr \<Rightarrow> link_queues \<Rightarrow> link_queues outcome" where
  "bundle_queued en b l q =
     (if en_sends_now en l
      then bind_outcome (del_from_queue b (en_length en b l) q) (\<lambda>(_, q1). Done (snd (add_to_inflight b (en_length en b l) q1)))
      else Done q)"

definition queue_bundle :: "router_env \<Rightarrow> bundle_ptr \<Rightarrow> link_ptr \<Rightarrow> fwd_action \<Rightarrow> custody_spec \<Rightarrow> router_state
    \<Rightarrow> (bool \<times> router_state) outcome" where
  "queue_bundle en b l action spec s =
     (if lk_deleted (sy_link (rs_sys s) l) then Done (False, s)
      else if l \<in> set (rb_blocks (rs_bundle s b)) then Done (False, s)
      else let x = (rs_bundle s b)\<lparr>rb_blocks := l # rb_blocks (rs_bundle s b)\<rparr>; s1 = set_bundle b x s; len = en_length en b l; q = rs_link s l
           in bind_outcome (latest_for_link (link_name l s) (link_remote l s) (rb_log x)) (\<lambda>r.
             if info_state r = QUEUED then Done (False, s1)
             else if lq_mtu q \<noteq> 0 \<and> ucast (lq_mtu q) < len then Done (False, s1)
             else if b \<in> set (lq_queue q) then Done (False, s1)
             else if b \<in> set (lq_inflight q) then Done (False, s1)
             else let s2 = set_bundle b (x\<lparr>rb_log := log_add_link (link_name l s) (link_remote l s) action QUEUED spec (rb_log x)\<rparr>) s1
                  in bind_outcome (bundle_queued en b l (snd (add_to_queue b len q))) (\<lambda>q1. Done (True, set_queues l q1 s2))))"

section \<open>Forwarding\<close>

definition router_open_link :: "router_env \<Rightarrow> link_ptr \<Rightarrow> router_state \<Rightarrow> router_state outcome" where
  "router_open_link en l s =
     (let k = sy_link (rs_sys s) l
      in if lk_state k \<noteq> UNAVAILABLE \<and> lk_state k \<noteq> OPEN \<and> lk_state k \<noteq> OPENING
         then bind_outcome (open_link (en_open en l) l (rs_sys s)) (\<lambda>sys. Done (s\<lparr>rs_sys := sys\<rparr>))
         else Done s)"

definition base_should_fwd :: "bundle_ptr \<Rightarrow> link_ptr \<Rightarrow> fwd_action \<Rightarrow> router_state \<Rightarrow> bool outcome" where
  "base_should_fwd b l action s =
     router_should_fwd (rb_singleton (rs_bundle s b)) (link_name l s) (link_remote l s) action (rb_log (rs_bundle s b))"

definition table_should_fwd :: "bundle_ptr \<Rightarrow> link_ptr \<Rightarrow> fwd_action \<Rightarrow> router_state \<Rightarrow> bool outcome" where
  "table_should_fwd b l action s =
     (if rs_prevhop s b = Some (link_remote l s) \<and> link_remote l s \<noteq> null_eid_str then Done False
      else base_should_fwd b l action s)"

definition fwd_to_nexthop :: "router_env \<Rightarrow> bundle_ptr \<Rightarrow> link_ptr \<Rightarrow> route_entry \<Rightarrow> router_state \<Rightarrow> (bool \<times> router_state) outcome" where
  "fwd_to_nexthop en b l route s =
     bind_outcome (router_open_link en l s) (\<lambda>s1.
       if lk_state (sy_link (rs_sys s1) l) = OPEN \<and> \<not> queue_is_full (rs_link s1 l)
       then bind_outcome (queue_bundle en b l (re_action route) (re_custody_spec route) s1) (\<lambda>(_, s2). Done (True, s2))
       else bind_outcome (deferred_add b
                \<lparr>fi_state = FWD_NONE, fi_action = re_action route, fi_link_name = link_name l s1, fi_regid = 0xffffffff,
                 fi_remote_eid = link_remote l s1, fi_custody_spec = re_custody_spec route\<rparr> (rs_link s1 l))
              (\<lambda>(_, q). Done (False, set_queues l q s1)))"

text \<open>Sending the deferred bundles of a link that is open and has space.\<close>

fun send_deferred :: "router_env \<Rightarrow> link_ptr \<Rightarrow> bundle_ptr list \<Rightarrow> router_state \<Rightarrow> router_state outcome" where
  "send_deferred en l [] s = Done s"
| "send_deferred en l (b # bs) s =
     (if queue_is_full (rs_link s l) then Done s
      else bind_outcome (deferred_info b (rs_link s l)) (\<lambda>info.
        bind_outcome (base_should_fwd b l (fi_action info) s) (\<lambda>fwd.
          if \<not> fwd then send_deferred en l bs s
          else bind_outcome (router_open_link en l s) (\<lambda>s1.
            bind_outcome (deferred_del b (rs_link s1 l)) (\<lambda>(_, q).
              bind_outcome (queue_bundle en b l (fi_action info) (fi_custody_spec info) (set_queues l q s1)) (\<lambda>(_, s2).
                send_deferred en l bs s2))))))"

definition check_next_hop :: "router_env \<Rightarrow> link_ptr \<Rightarrow> router_state \<Rightarrow> router_state outcome" where
  "check_next_hop en l s =
     (if lk_state (sy_link (rs_sys s) l) \<noteq> OPEN then Done s
      else if \<not> queue_has_space (rs_link s l) then Done s
      else with_deferred (rs_link s l) (\<lambda>(list, infos, count). send_deferred en l list s))"

text \<open>A route that was found has a link.\<close>

definition route_one :: "router_env \<Rightarrow> bundle_ptr \<Rightarrow> route_entry \<Rightarrow> nat \<times> router_state \<Rightarrow> (nat \<times> router_state) outcome" where
  "route_one en b route st =
     (case (re_next route, st) of
        (Route_To _, _) \<Rightarrow> Panic
      | (To_Link l, n, s) \<Rightarrow>
          bind_outcome (table_should_fwd b l (re_action route) s) (\<lambda>fwd.
            if \<not> fwd then Done (n, s)
            else bind_outcome (is_deferred b (rs_link s l)) (\<lambda>deferred.
              if deferred then Done (n, s)
              else bind_outcome (check_next_hop en l s) (\<lambda>s1.
                bind_outcome (fwd_to_nexthop en b l route s1) (\<lambda>(sent, s2). Done (if sent then Suc n else n, s2))))))"

definition route_bytes :: "router_state \<Rightarrow> route_entry \<Rightarrow> u32" where
  "route_bytes s route = (case re_next route of To_Link l \<Rightarrow> lq_bytes_queued (rs_link s l) | Route_To _ \<Rightarrow> 0)"

definition route_bundle :: "router_env \<Rightarrow> bundle_ptr \<Rightarrow> router_state \<Rightarrow> (nat \<times> router_state) outcome" where
  "route_bundle en b s =
     (if 0 < log_count_for wildcard_eid_str (state_bits SUPPRESSED) ANY_ACTION (rb_log (rs_bundle s b)) then Done (0, s)
      else bind_outcome (get_matching (en_config en) (rs_table s) (rb_dest (rs_bundle s b)) None []) (\<lambda>(matches, _, _).
        fold_outcome (route_one en b) (en_sort en (route_bytes s) matches) (0, s)))"

definition reroute_all_bundles :: "router_env \<Rightarrow> bundle_ptr list \<Rightarrow> router_state \<Rightarrow> router_state outcome" where
  "reroute_all_bundles en bs s =
     fold_outcome (\<lambda>b s. bind_outcome (route_bundle en b s) (\<lambda>(_, s1). Done s1)) bs s"

text \<open>The order \<open>RoutePrioritySort\<close>: higher priority first, then fewer bytes on the queue.\<close>

definition route_before :: "(route_entry \<Rightarrow> u32) \<Rightarrow> route_entry \<Rightarrow> route_entry \<Rightarrow> bool" where
  "route_before bytes a b =
     (if re_priority a < re_priority b then False
      else if re_priority b < re_priority a then True
      else bytes a < bytes b)"

section \<open>The end of a transmission\<close>

definition remove_deferred_from :: "bundle_ptr \<Rightarrow> u32 \<Rightarrow> link_ptr \<Rightarrow> router_state \<Rightarrow> router_state outcome" where
  "remove_deferred_from b actions l s =
     (case lq_deferred (rs_link s l) of
        None \<Rightarrow> Done s
      | Some (list, infos, count) \<Rightarrow>
          (case infos b of
             None \<Rightarrow> Done s
           | Some i \<Rightarrow> (if action_bits (fi_action i) AND actions \<noteq> 0
                      then bind_outcome (deferred_del b (rs_link s l)) (\<lambda>(_, q). Done (set_queues l q s)) else Done s)))"

definition remove_from_deferred :: "bundle_ptr \<Rightarrow> u32 \<Rightarrow> router_state \<Rightarrow> router_state outcome" where
  "remove_from_deferred b actions s = fold_outcome (remove_deferred_from b actions) (sy_managed (rs_sys s)) s"

definition router_bundle_transmitted :: "router_env \<Rightarrow> bundle_ptr \<Rightarrow> link_ptr \<Rightarrow> router_state \<Rightarrow> router_state outcome" where
  "router_bundle_transmitted en b l s =
     bind_outcome (remove_from_deferred b (action_bits FORWARD_ACTION) s) (check_next_hop en l)"

definition log_transmission :: "bundle_ptr \<Rightarrow> link_ptr \<Rightarrow> fwd_state \<Rightarrow> router_state \<Rightarrow> router_state outcome" where
  "log_transmission b l st s =
     bind_outcome (log_update (link_name l s) (link_remote l s) st (rb_log (rs_bundle s b))) (\<lambda>(_, log).
       Done (set_bundle b ((rs_bundle s b)\<lparr>rb_log := log\<rparr>) s))"

definition drop_blocks :: "bundle_ptr \<Rightarrow> link_ptr \<Rightarrow> router_state \<Rightarrow> router_state outcome" where
  "drop_blocks b l s =
     assert_that (l \<in> set (rb_blocks (rs_bundle s b)))
      (Done (set_bundle b ((rs_bundle s b)\<lparr>rb_blocks := remove1 l (rb_blocks (rs_bundle s b))\<rparr>) s))"

text \<open>
  The daemon, when a layer reports a transmission; \<open>unacked\<close> is the case of a reliable link that acknowledged
  nothing. Fragmentation, status reports and the custody timer are left out.
\<close>

definition daemon_transmitted :: "router_env \<Rightarrow> bundle_ptr \<Rightarrow> link_ptr \<Rightarrow> bool \<Rightarrow> router_state \<Rightarrow> router_state outcome" where
  "daemon_transmitted en b l unacked s =
     (if l \<notin> set (rb_blocks (rs_bundle s b)) then Done s
      else bind_outcome (del_from_inflight b (en_length en b l) (rs_link s l)) (\<lambda>(_, q1).
        bind_outcome (del_from_queue b (en_length en b l) q1) (\<lambda>(_, q2).
          let s1 = set_queues l q2 s
          in if unacked then bind_outcome (log_transmission b l TRANSMIT_FAILED s1) (drop_blocks b l)
             else bind_outcome (latest_for_link (link_name l s) (link_remote l s) (rb_log (rs_bundle s b))) (\<lambda>r.
               assert_that (r \<noteq> None) (bind_outcome (log_transmission b l TRANSMITTED s1) (drop_blocks b l))))))"

definition daemon_cancelled :: "bundle_ptr \<Rightarrow> link_ptr \<Rightarrow> router_state \<Rightarrow> router_state outcome" where
  "daemon_cancelled b l s =
     (if l \<notin> set (rb_blocks (rs_bundle s b)) then Done s
      else bind_outcome (drop_blocks b l s) (log_transmission b l CANCELLED))"

definition daemon_custody_timeout :: "bundle_ptr \<Rightarrow> link_ptr \<Rightarrow> router_state \<Rightarrow> router_state outcome" where
  "daemon_custody_timeout b l s = log_transmission b l CUSTODY_TIMEOUT s"

text \<open>The result says whether the daemon itself reports the cancellation.\<close>

definition cancel_bundle :: "router_env \<Rightarrow> bundle_ptr \<Rightarrow> link_ptr \<Rightarrow> router_state \<Rightarrow> (bool \<times> router_state) outcome" where
  "cancel_bundle en b l s =
     (if lk_deleted (sy_link (rs_sys s) l) then Done (False, s)
      else if l \<notin> set (rb_blocks (rs_bundle s b)) then Done (False, s)
      else bind_outcome (del_from_queue b (en_length en b l) (rs_link s l)) (\<lambda>(r, q). Done (r, set_queues l q s)))"

section \<open>Runs of the router\<close>

text \<open>A layer that sends in its own thread takes the bundle off the queue when it starts with it.\<close>

definition start_sending :: "router_env \<Rightarrow> bundle_ptr \<Rightarrow> link_ptr \<Rightarrow> router_state \<Rightarrow> router_state outcome" where
  "start_sending en b l s =
     bind_outcome (del_from_queue b (en_length en b l) (rs_link s l)) (\<lambda>(_, q).
       Done (set_queues l (snd (add_to_inflight b (en_length en b l) q)) s))"

text \<open>The router learns of a new link.\<close>

definition router_link_created :: "link_ptr \<Rightarrow> router_state \<Rightarrow> router_state outcome" where
  "router_link_created l s =
     assert_that (lq_deferred (rs_link s l) = None) (Done (set_queues l ((rs_link s l)\<lparr>lq_deferred := Some ([], \<lambda>_. None, 0)\<rparr>) s))"

definition log_reception :: "bundle_ptr \<Rightarrow> link_ptr \<Rightarrow> router_state \<Rightarrow> router_state" where
  "log_reception b l s =
     set_bundle b ((rs_bundle s b)\<lparr>rb_log :=
       log_add_link (link_name l s) (link_remote l s) FORWARD_ACTION RECEIVED default_custody_spec (rb_log (rs_bundle s b))\<rparr>) s"

definition new_routed_bundle :: "endpoint_id \<Rightarrow> bool \<Rightarrow> routed_bundle" where
  "new_routed_bundle dest singleton = \<lparr>rb_dest = dest, rb_singleton = singleton, rb_log = [], rb_blocks = []\<rparr>"

definition router_start :: router_state where
  "router_start = \<lparr>rs_sys = link_system_start, rs_link = (\<lambda>_. new_link_queues),
     rs_bundle = (\<lambda>_. new_routed_bundle empty_eid False), rs_prevhop = (\<lambda>_. None), rs_table = []\<rparr>"

text \<open>
  The function \<open>rem\<close> gives the remote endpoint that belongs to a name of a link: the log relies on that.
  The state of the links may change in any way that \<open>Link_Invariant\<close> allows. A transmission is reported for a bundle
  that is queued, as the daemon expects.
\<close>

inductive router_step :: "router_env \<Rightarrow> (string \<Rightarrow> string) \<Rightarrow> (link_system \<Rightarrow> bool) \<Rightarrow> router_state \<Rightarrow> router_state \<Rightarrow> bool"
  for en rem sys_ok where
  rt_route: "route_bundle en b s = Done (n, s') \<Longrightarrow> router_step en rem sys_ok s s'"
| rt_check: "check_next_hop en l s = Done s' \<Longrightarrow> l \<in> set (sy_links (rs_sys s)) \<Longrightarrow> lq_deferred (rs_link s l) \<noteq> None
    \<Longrightarrow> router_step en rem sys_ok s s'"
| rt_transmitted: "daemon_transmitted en b l unacked s = Done s'
    \<Longrightarrow> unacked \<or> latest_for_link (link_name l s) (link_remote l s) (rb_log (rs_bundle s b)) = Done (Some e) \<and> fi_state e = QUEUED
    \<Longrightarrow> router_step en rem sys_ok s s'"
| rt_remove_deferred: "remove_from_deferred b actions s = Done s' \<Longrightarrow> router_step en rem sys_ok s s'"
| rt_cancelled: "daemon_cancelled b l s = Done s' \<Longrightarrow> router_step en rem sys_ok s s'"
| rt_custody_timeout: "daemon_custody_timeout b l s = Done s' \<Longrightarrow> router_step en rem sys_ok s s'"
| rt_cancel: "cancel_bundle en b l s = Done (r, s') \<Longrightarrow> router_step en rem sys_ok s s'"
| rt_sending: "start_sending en b l s = Done s' \<Longrightarrow> router_step en rem sys_ok s s'"
| rt_received: "router_step en rem sys_ok s (log_reception b l s)"
| rt_links: "sys_ok sys \<Longrightarrow> set (sy_links (rs_sys s)) \<subseteq> set (sy_links sys)
    \<Longrightarrow> (\<And>l. lk_remote_eid (sy_link sys l) = rem (lk_name (sy_link sys l))) \<Longrightarrow> router_step en rem sys_ok s (s\<lparr>rs_sys := sys\<rparr>)"
| rt_link_created: "router_link_created l s = Done s' \<Longrightarrow> router_step en rem sys_ok s s'"
| rt_add_route: "re_ptr e \<notin> re_ptr ` set (rs_table s)
    \<Longrightarrow> (case re_next e of Route_To to \<Rightarrow> eid_str to \<noteq> []
          | To_Link l \<Rightarrow> l \<in> set (sy_links (rs_sys s)) \<and> lq_deferred (rs_link s l) \<noteq> None)
    \<Longrightarrow> router_step en rem sys_ok s (s\<lparr>rs_table := route_add e (rs_table s)\<rparr>)"
| rt_del_routes: "router_step en rem sys_ok s (s\<lparr>rs_table := snd (route_del_entries dest (rs_table s))\<rparr>)"
| rt_new_bundle: "router_step en rem sys_ok s
    (set_bundle b (new_routed_bundle dest singleton) (s\<lparr>rs_prevhop := (rs_prevhop s)(b := prevhop)\<rparr>))"

inductive router_reachable :: "router_env \<Rightarrow> (string \<Rightarrow> string) \<Rightarrow> (link_system \<Rightarrow> bool) \<Rightarrow> router_state \<Rightarrow> bool"
  for en rem sys_ok where
  rr_start: "router_reachable en rem sys_ok router_start"
| rr_step: "router_reachable en rem sys_ok s \<Longrightarrow> router_step en rem sys_ok s s' \<Longrightarrow> router_reachable en rem sys_ok s'"

end
