(* ===== verification/Router_Invariant.thy ===== *)
theory Router_Invariant
  imports Table_Router Link_Invariant "HOL-Library.Multiset"
begin

text \<open>
  The router never fails an assertion, forwards a bundle with one destination to at most one
  next hop at a time, and keeps the queues within their limits.
\<close>

section \<open>The invariant\<close>

definition deferred_ok :: "(bundle_ptr list \<times> (bundle_ptr \<Rightarrow> forwarding_info option) \<times> nat) \<Rightarrow> bool" where
  "deferred_ok d \<longleftrightarrow> (case d of (list, infos, cnt) \<Rightarrow> distinct list \<and> cnt = length list \<and> (\<forall>b. infos b \<noteq> None \<longleftrightarrow> b \<in> set list))"

definition queues_ok :: "link_queues \<Rightarrow> bool" where
  "queues_ok q \<longleftrightarrow> distinct (lq_queue q) \<and> unat (lq_bundles_queued q) = length (lq_queue q)
     \<and> length (lq_queue q) \<le> unat (lq_bundles_high q) + 1 \<and> unat (lq_bundles_high q) + 1 < 2 ^ 32
     \<and> (\<forall>d. lq_deferred q = Some d \<longrightarrow> deferred_ok d)"

text \<open>The transmissions that cnt against forwarding a bundle again.\<close>

definition forwardings :: "routed_bundle \<Rightarrow> nat" where
  "forwardings x = log_count SENT_STATES (action_bits FORWARD_ACTION) (rb_log x)"

definition bundle_ok :: "(string \<Rightarrow> string) \<Rightarrow> routed_bundle \<Rightarrow> bool" where
  "bundle_ok rem x \<longleftrightarrow> log_names_ok rem (rb_log x) \<and> (rb_singleton x \<longrightarrow> forwardings x \<le> 1)"

text \<open>A link that a route may name: it exists, and the router knows it.\<close>

definition routable :: "router_state \<Rightarrow> link_ptr \<Rightarrow> bool" where
  "routable s l \<longleftrightarrow> l \<in> set (sy_links (rs_sys s)) \<and> lq_deferred (rs_link s l) \<noteq> None"

definition routes_ok :: "router_state \<Rightarrow> bool" where
  "routes_ok s \<longleftrightarrow> route_table_ok (rs_table s) \<and> (\<forall>e\<in>set (rs_table s). \<forall>l. re_next e = To_Link l \<longrightarrow> routable s l)"

text \<open>\<open>rem\<close> gives the remote endpoint that belongs to the name of a link.\<close>

definition router_ok :: "(string \<Rightarrow> string) \<Rightarrow> router_state \<Rightarrow> bool" where
  "router_ok rem s \<longleftrightarrow> links_ok (rs_sys s) \<and> (\<forall>l. link_remote l s = rem (link_name l s)) \<and> (\<forall>l. queues_ok (rs_link s l))
     \<and> (\<forall>b. bundle_ok rem (rs_bundle s b)) \<and> routes_ok s"

definition env_ok :: "router_env \<Rightarrow> bool" where
  "env_ok en \<longleftrightarrow> (\<forall>b l. en_length en b l \<noteq> 0) \<and> (\<forall>f xs. mset (en_sort en f xs) = mset xs
     \<and> sorted_wrt (\<lambda>a b. \<not> route_before f b a) (en_sort en f xs))"

text \<open>What the router does not change.\<close>

definition keeps :: "router_state \<Rightarrow> router_state \<Rightarrow> bool" where
  "keeps s s' \<longleftrightarrow> rs_table s' = rs_table s \<and> (\<forall>l. routable s l \<longrightarrow> routable s' l)"

lemma keeps_refl [simp]: "keeps s s" by (simp add: keeps_def)

lemma keeps_trans: "keeps s s1 \<Longrightarrow> keeps s1 s2 \<Longrightarrow> keeps s s2" by (simp add: keeps_def)

lemma routes_ok_keeps: "routes_ok s \<Longrightarrow> keeps s s' \<Longrightarrow> routes_ok s'"
  by (auto simp: routes_ok_def keeps_def)

text \<open>An operation of the router that succeeds and keeps the invariant.\<close>

definition steps_ok :: "(string \<Rightarrow> string) \<Rightarrow> router_state \<Rightarrow> router_state outcome \<Rightarrow> bool" where
  "steps_ok rem s m \<longleftrightarrow> (\<exists>s'. m = Done s' \<and> router_ok rem s' \<and> keeps s s')"

lemma steps_ok_Done [simp]: "steps_ok rem s (Done s') \<longleftrightarrow> router_ok rem s' \<and> keeps s s'"
  by (simp add: steps_ok_def)

lemma steps_ok_bind:
  "steps_ok rem s m \<Longrightarrow> (\<And>s1. router_ok rem s1 \<Longrightarrow> keeps s s1 \<Longrightarrow> m = Done s1 \<Longrightarrow> steps_ok rem s1 (f s1)) \<Longrightarrow> steps_ok rem s (bind_outcome m f)"
  using keeps_trans by (fastforce simp: steps_ok_def)

lemma steps_okE: "steps_ok rem s m \<Longrightarrow> (\<And>s'. m = Done s' \<Longrightarrow> router_ok rem s' \<Longrightarrow> keeps s s' \<Longrightarrow> P) \<Longrightarrow> P"
  by (auto simp: steps_ok_def)

text \<open>The same for operations that also return a value.\<close>

definition results_ok :: "(string \<Rightarrow> string) \<Rightarrow> router_state \<Rightarrow> ('a \<times> router_state) outcome \<Rightarrow> bool" where
  "results_ok rem s m \<longleftrightarrow> (\<exists>r s'. m = Done (r, s') \<and> router_ok rem s' \<and> keeps s s')"

lemma results_ok_Done [simp]: "results_ok rem s (Done (r, s')) \<longleftrightarrow> router_ok rem s' \<and> keeps s s'"
  by (simp add: results_ok_def)

lemma results_steps: "results_ok rem s m \<Longrightarrow> (\<And>r s1. router_ok rem s1 \<Longrightarrow> keeps s s1 \<Longrightarrow> m = Done (r, s1) \<Longrightarrow> steps_ok rem s1 (f (r, s1)))
   \<Longrightarrow> steps_ok rem s (bind_outcome m f)"
  using keeps_trans by (fastforce simp: steps_ok_def results_ok_def)

lemma steps_results: "steps_ok rem s m \<Longrightarrow> (\<And>s1. router_ok rem s1 \<Longrightarrow> keeps s s1 \<Longrightarrow> m = Done s1 \<Longrightarrow> results_ok rem s1 (f s1))
   \<Longrightarrow> results_ok rem s (bind_outcome m f)"
  using keeps_trans by (fastforce simp: steps_ok_def results_ok_def)

lemma results_results: "results_ok rem s m \<Longrightarrow> (\<And>r s1. router_ok rem s1 \<Longrightarrow> keeps s s1 \<Longrightarrow> m = Done (r, s1) \<Longrightarrow> results_ok rem s1 (f (r, s1)))
   \<Longrightarrow> results_ok rem s (bind_outcome m f)"
  using keeps_trans by (fastforce simp: results_ok_def)

section \<open>Changing one part of the state\<close>

lemma links_of_set [simp]:
  "rs_sys (set_queues l q s) = rs_sys s" "rs_sys (set_bundle b x s) = rs_sys s"
  "rs_table (set_queues l q s) = rs_table s" "rs_table (set_bundle b x s) = rs_table s"
  "rs_link (set_bundle b x s) = rs_link s" "rs_bundle (set_queues l q s) = rs_bundle s"
  "rs_prevhop (set_queues l q s) = rs_prevhop s" "rs_prevhop (set_bundle b x s) = rs_prevhop s"
  "link_name j (set_queues l q s) = link_name j s" "link_name j (set_bundle b x s) = link_name j s"
  "link_remote j (set_queues l q s) = link_remote j s" "link_remote j (set_bundle b x s) = link_remote j s"
  "rs_link (set_queues l q s) j = (if j = l then q else rs_link s j)"
  "rs_bundle (set_bundle b x s) c = (if c = b then x else rs_bundle s c)"
  by (simp_all add: set_queues_def set_bundle_def link_name_def link_remote_def)

lemma set_bundle_ok: "router_ok rem s \<Longrightarrow> bundle_ok rem x \<Longrightarrow> router_ok rem (set_bundle b x s) \<and> keeps s (set_bundle b x s)"
  by (auto simp: router_ok_def keeps_def routes_ok_def routable_def)

lemma set_queues_ok:
  "router_ok rem s \<Longrightarrow> queues_ok q \<Longrightarrow> (lq_deferred (rs_link s l) \<noteq> None \<Longrightarrow> lq_deferred q \<noteq> None)
   \<Longrightarrow> router_ok rem (set_queues l q s) \<and> keeps s (set_queues l q s)"
  by (auto simp: router_ok_def keeps_def routes_ok_def routable_def)

lemma router_okD:
  assumes "router_ok rem s"
  shows "links_ok (rs_sys s)" "link_remote l s = rem (link_name l s)" "queues_ok (rs_link s l)" "bundle_ok rem (rs_bundle s b)" "routes_ok s"
    "log_names_ok rem (rb_log (rs_bundle s b))"
  using assms by (simp_all add: router_ok_def bundle_ok_def)

section \<open>Queues\<close>

lemma unat_add_one: "unat (x :: u32) + 1 < 2 ^ 32 \<Longrightarrow> unat (x + 1) = unat x + 1"
  by (simp add: unat_word_ariths)

lemma unat_sub_one: "0 < (x :: u32) \<Longrightarrow> unat (x - 1) = unat x - 1"
  by (simp add: unat_minus_one word_neq_0_conv)

lemma add_to_queue_ok:
  "queues_ok q \<Longrightarrow> \<not> queue_is_full q \<Longrightarrow> b \<notin> set (lq_queue q) \<Longrightarrow> queues_ok (snd (add_to_queue b len q))"
proof -
  assume a: "queues_ok q" "\<not> queue_is_full q" "b \<notin> set (lq_queue q)"
  then have "unat (lq_bundles_queued q) \<le> unat (lq_bundles_high q)"
    by (auto simp: queue_is_full_def word_less_nat_alt not_less)
  with a unat_add_one [of "lq_bundles_queued q"] show ?thesis
    by (auto simp: queues_ok_def add_to_queue_def)
qed

lemma del_from_queue_ok:
  assumes "queues_ok q" "len \<noteq> 0"
  obtains r q' where "del_from_queue b len q = Done (r, q')" "queues_ok q'" "lq_deferred q' = lq_deferred q"
    "lq_queue q' = remove1 b (lq_queue q)" "lq_inflight q' = lq_inflight q"
proof (cases "b \<in> set (lq_queue q)")
  case True
  then have "0 < length (lq_queue q)" by (cases "lq_queue q") auto
  then have pos: "0 < lq_bundles_queued q" using assms(1) by (auto simp: queues_ok_def word_less_nat_alt)
  let ?q = "q\<lparr>lq_queue := remove1 b (lq_queue q), lq_bundles_queued := lq_bundles_queued q - 1,
      lq_bytes_queued := (if len \<le> ucast (lq_bytes_queued q) then ucast (ucast (lq_bytes_queued q) - len) else lq_bytes_queued q)\<rparr>"
  have "queues_ok ?q"
    using assms(1) True pos unat_sub_one [OF pos] by (auto simp: queues_ok_def length_remove1)
  then show ?thesis using True pos assms(2) by (intro that [of True ?q]) (simp_all add: del_from_queue_def)
next
  case False
  then show ?thesis using assms(1) by (intro that [of False q]) (simp_all add: del_from_queue_def remove1_idem)
qed

lemma add_to_inflight_ok: "queues_ok q \<Longrightarrow> queues_ok (snd (add_to_inflight b len q))"
  by (auto simp: queues_ok_def add_to_inflight_def)

lemma queues_same [simp]:
  "lq_deferred (snd (add_to_queue b len q)) = lq_deferred q" "lq_deferred (snd (add_to_inflight b len q)) = lq_deferred q"
  by (simp_all add: add_to_queue_def add_to_inflight_def)

lemma bundle_queued_ok:
  assumes "queues_ok q" "env_ok en"
  obtains q' where "bundle_queued en b l q = Done q'" "queues_ok q'" "lq_deferred q' = lq_deferred q"
proof (cases "en_sends_now en l")
  case True
  have len: "en_length en b l \<noteq> 0" using assms(2) by (simp add: env_ok_def)
  obtain r q1 where q1: "del_from_queue b (en_length en b l) q = Done (r, q1)" "queues_ok q1" "lq_deferred q1 = lq_deferred q"
    by (rule del_from_queue_ok [OF assms(1) len]) blast
  then show ?thesis
    using True add_to_inflight_ok by (intro that [of "snd (add_to_inflight b (en_length en b l) q1)"]) (simp_all add: bundle_queued_def)
qed (use assms in \<open>auto simp: bundle_queued_def intro: that\<close>)

lemma deferred_add_ok:
  assumes "queues_ok q" "lq_deferred q \<noteq> None"
  obtains r q' where "deferred_add b info q = Done (r, q')" "queues_ok q'" "lq_deferred q' \<noteq> None"
proof -
  obtain list infos cnt where d: "lq_deferred q = Some (list, infos, cnt)" using assms(2) by auto
  then have ok: "deferred_ok (list, infos, cnt)" using assms(1) by (simp add: queues_ok_def)
  show ?thesis
  proof (cases "b \<in> set list")
    case True
    then show ?thesis using assms d by (intro that [of False q]) (simp_all add: deferred_add_def with_deferred_def)
  next
    case False
    then have "infos b = None" using ok by (auto simp: deferred_ok_def)
    then have run: "deferred_add b info q = Done (True, q\<lparr>lq_deferred := Some (list @ [b], infos(b \<mapsto> info), Suc cnt)\<rparr>)"
      using False d by (simp add: deferred_add_def with_deferred_def)
    have "deferred_ok (list @ [b], infos(b \<mapsto> info), Suc cnt)" using False ok by (auto simp: deferred_ok_def)
    then show ?thesis using assms(1) by (intro that [OF run]) (simp_all add: queues_ok_def)
  qed
qed

lemma deferred_del_ok:
  assumes "queues_ok q" "lq_deferred q = Some (list, infos, cnt)" "b \<in> set list"
  obtains q' where "deferred_del b q = Done (True, q')" "queues_ok q'" "lq_deferred q' = Some (remove1 b list, infos(b := None), cnt - 1)"
    "lq_bundles_queued q' = lq_bundles_queued q" "lq_bytes_queued q' = lq_bytes_queued q" "lq_queue q' = lq_queue q"
    "lq_bundles_high q' = lq_bundles_high q" "lq_bytes_high q' = lq_bytes_high q"
proof -
  have ok: "deferred_ok (list, infos, cnt)" using assms by (simp add: queues_ok_def)
  then have c: "0 < cnt" "infos b \<noteq> None" using assms(3) by (auto simp: deferred_ok_def)
  let ?q = "q\<lparr>lq_deferred := Some (remove1 b list, infos(b := None), cnt - 1)\<rparr>"
  have "deferred_ok (remove1 b list, infos(b := None), cnt - 1)"
    using ok assms(3) by (auto simp: deferred_ok_def length_remove1)
  then have "queues_ok ?q" using assms(1) by (simp add: queues_ok_def)
  then show ?thesis using assms c by (intro that [of ?q]) (simp_all add: deferred_del_def with_deferred_def)
qed

section \<open>Opening a link\<close>

definition same_links :: "link_system \<Rightarrow> link_system \<Rightarrow> bool" where
  "same_links s s' \<longleftrightarrow> sy_links s' = sy_links s \<and> (\<forall>l. lk_name (sy_link s' l) = lk_name (sy_link s l)
     \<and> lk_remote_eid (sy_link s' l) = lk_remote_eid (sy_link s l))"

lemma same_links_update:
  "(\<And>k. lk_name (f k) = lk_name k \<and> lk_remote_eid (f k) = lk_remote_eid k) \<Longrightarrow> same_links s (update_link l f s') \<longleftrightarrow> same_links s s'"
proof -
  assume "\<And>k. lk_name (f k) = lk_name k \<and> lk_remote_eid (f k) = lk_remote_eid k"
  then have "lk_name (sy_link (update_link l f s') j) = lk_name (sy_link s' j)"
    "lk_remote_eid (sy_link (update_link l f s') j) = lk_remote_eid (sy_link s' j)" for j
    by (simp_all add: update_link_def)
  then show ?thesis by (simp add: same_links_def)
qed

lemma same_links_post [simp]: "same_links s (post_at_tail e s') \<longleftrightarrow> same_links s s'"
  by (simp add: same_links_def post_at_tail_def)

lemma same_links_react [simp]: "same_links s (react_to_open react l c s') \<longleftrightarrow> same_links s s'"
  by (cases react) simp_all

lemma same_links_new_contact [simp]: "same_links s (new_contact l s') \<longleftrightarrow> same_links s s'"
  unfolding new_contact_def by (subst same_links_update) (simp_all add: same_links_def)

lemma open_link_same: "open_link react l s = Done s' \<Longrightarrow> same_links s s'"
  by (auto simp: open_link_def link_open_def set_link_state_def assert_that_def same_links_update Let_def split: if_splits)
    (simp_all add: same_links_def)

lemma set_sys_ok:
  assumes "router_ok rem s" "links_ok sys" "same_links (rs_sys s) sys"
  shows "router_ok rem (s\<lparr>rs_sys := sys\<rparr>) \<and> keeps s (s\<lparr>rs_sys := sys\<rparr>)"
  using assms by (auto simp: router_ok_def keeps_def routes_ok_def routable_def same_links_def link_name_def link_remote_def)

lemma router_open_link_ok:
  assumes ok: "router_ok rem s" and l: "l \<in> set (sy_links (rs_sys s))"
  shows "steps_ok rem s (router_open_link en l s)"
proof -
  have "runs_ok (rs_sys s) (open_link (en_open en l) l (rs_sys s))"
    using router_okD(1) [OF ok] l by (rule open_link_ok)
  then obtain sys where sys: "open_link (en_open en l) l (rs_sys s) = Done sys" "links_ok sys" by (auto simp: runs_ok_def)
  with open_link_same have "same_links (rs_sys s) sys" by blast
  from set_sys_ok [OF ok sys(2) this] show ?thesis using sys(1) ok by (simp add: router_open_link_def Let_def)
qed

section \<open>Forwarding\<close>

lemma base_should_fwd_ok: "router_ok rem s \<Longrightarrow> \<exists>fwd. base_should_fwd b l action s = Done fwd"
  unfolding base_should_fwd_def by (rule router_should_fwd_ok [OF router_okD(6)]) (simp_all add: router_okD(2))

text \<open>Whether a bundle may be forwarded: the count is of the log alone.\<close>

definition may_forward :: "bundle_ptr \<Rightarrow> fwd_action \<Rightarrow> router_state \<Rightarrow> bool" where
  "may_forward b action s \<longleftrightarrow> (rb_singleton (rs_bundle s b) \<and> action = FORWARD_ACTION \<longrightarrow> forwardings (rs_bundle s b) = 0)"

lemma base_should_fwd_may: "base_should_fwd b l action s = Done True \<Longrightarrow> may_forward b action s"
  by (auto simp: base_should_fwd_def may_forward_def forwardings_def dest!: router_should_fwd_single)

lemma table_should_fwd_may: "table_should_fwd b l action s = Done True \<Longrightarrow> may_forward b action s"
  using base_should_fwd_may by (auto simp: table_should_fwd_def split: if_splits)

lemma forwardings_queued:
  "forwardings (x\<lparr>rb_log := log_add_link name remote action QUEUED spec (rb_log x)\<rparr>) =
   forwardings x + (if action = FORWARD_ACTION then 1 else 0)"
  by (cases action) (simp_all add: forwardings_def log_add_link_def counted_def)

lemma bundle_ok_blocks [simp]: "bundle_ok rem (x\<lparr>rb_blocks := ls\<rparr>) = bundle_ok rem x"
  by (simp add: bundle_ok_def forwardings_def)

lemma bundle_ok_queued:
  assumes "bundle_ok rem x" "rem name = remote" "rb_singleton x \<and> action = FORWARD_ACTION \<longrightarrow> forwardings x = 0"
  shows "bundle_ok rem (x\<lparr>rb_log := log_add_link name remote action QUEUED spec (rb_log x)\<rparr>)"
  using assms log_names_ok_add [of rem "rb_log x" name remote QUEUED action spec]
  by (auto simp: bundle_ok_def forwardings_queued)

lemma queue_bundle_ok:
  assumes ok: "router_ok rem s" and en: "env_ok en" and space: "\<not> queue_is_full (rs_link s l)" and may: "may_forward b action s"
  shows "results_ok rem s (queue_bundle en b l action spec s)"
proof -
  let ?x = "(rs_bundle s b)\<lparr>rb_blocks := l # rb_blocks (rs_bundle s b)\<rparr>"
  let ?x2 = "?x\<lparr>rb_log := log_add_link (link_name l s) (link_remote l s) action QUEUED spec (rb_log ?x)\<rparr>"
  let ?q = "rs_link s l"
  have rem: "rem (link_name l s) = link_remote l s" using router_okD(2) [OF ok] by simp
  have s1: "router_ok rem (set_bundle b ?x s)" "keeps s (set_bundle b ?x s)"
    using set_bundle_ok [OF ok] router_okD(4) [OF ok] by simp_all
  obtain r where r: "latest_for_link (link_name l s) (link_remote l s) (rb_log ?x) = Done r"
    using latest_for_link_ok [OF router_okD(6) [OF ok] rem, of b] by simp
  show ?thesis
  proof (cases "lk_deleted (sy_link (rs_sys s) l) \<or> l \<in> set (rb_blocks (rs_bundle s b)) \<or> info_state r = QUEUED
      \<or> lq_mtu ?q \<noteq> 0 \<and> ucast (lq_mtu ?q) < en_length en b l \<or> b \<in> set (lq_queue ?q) \<or> b \<in> set (lq_inflight ?q)")
    case True
    then show ?thesis using ok s1 r by (auto simp: queue_bundle_def Let_def)
  next
    case False
    have x2: "bundle_ok rem ?x2"
      by (rule bundle_ok_queued) (use router_okD(4) [OF ok] rem may in \<open>auto simp: may_forward_def forwardings_def\<close>)
    let ?s2 = "set_bundle b ?x2 (set_bundle b ?x s)"
    have s2: "router_ok rem ?s2" "keeps s ?s2" using set_bundle_ok [OF s1(1) x2] keeps_trans [OF s1(2)] by blast+
    have "queues_ok (snd (add_to_queue b (en_length en b l) ?q))"
      using add_to_queue_ok router_okD(3) [OF ok] space False by blast
    then obtain q1 where q1: "bundle_queued en b l (snd (add_to_queue b (en_length en b l) ?q)) = Done q1" "queues_ok q1"
      "lq_deferred q1 = lq_deferred ?q"
      by (rule bundle_queued_ok [OF _ en]) simp
    have "router_ok rem (set_queues l q1 ?s2) \<and> keeps ?s2 (set_queues l q1 ?s2)"
      by (rule set_queues_ok [OF s2(1) q1(2)]) (simp add: q1(3))
    then have "router_ok rem (set_queues l q1 ?s2)" "keeps s (set_queues l q1 ?s2)"
      using keeps_trans [OF s2(2)] by blast+
    then show ?thesis using False r q1(1) by (auto simp: queue_bundle_def Let_def)
  qed
qed

lemma fwd_to_nexthop_ok:
  assumes ok: "router_ok rem s" and en: "env_ok en" and l: "routable s l" and may: "may_forward b (re_action route) s"
  shows "results_ok rem s (fwd_to_nexthop en b l route s)"
  unfolding fwd_to_nexthop_def
proof (rule steps_results)
  show "steps_ok rem s (router_open_link en l s)"
    using router_open_link_ok [OF ok] l by (simp add: routable_def)
  fix s1 assume s1: "router_ok rem s1" "keeps s s1" "router_open_link en l s = Done s1"
  have "rs_bundle s1 = rs_bundle s"
    using s1(3) by (auto simp: router_open_link_def bind_outcome_Done_iff Let_def split: if_splits)
  then have may1: "may_forward b (re_action route) s1" using may by (simp add: may_forward_def)
  have l1: "lq_deferred (rs_link s1 l) \<noteq> None" using l s1(2) by (simp add: keeps_def routable_def)
  show "results_ok rem s1 (if lk_state (sy_link (rs_sys s1) l) = OPEN \<and> \<not> queue_is_full (rs_link s1 l)
       then bind_outcome (queue_bundle en b l (re_action route) (re_custody_spec route) s1) (\<lambda>(_, s2). Done (True, s2))
       else bind_outcome (deferred_add b
                \<lparr>fi_state = FWD_NONE, fi_action = re_action route, fi_link_name = link_name l s1, fi_regid = 0xffffffff,
                 fi_remote_eid = link_remote l s1, fi_custody_spec = re_custody_spec route\<rparr> (rs_link s1 l))
              (\<lambda>(_, q). Done (False, set_queues l q s1)))" (is "results_ok rem s1 (if ?open then ?A else bind_outcome (deferred_add b ?i ?q) ?f)")
  proof (cases ?open)
    case True
    then show ?thesis using queue_bundle_ok [OF s1(1) en _ may1] by (simp add: results_results)
  next
    case False
    obtain r q where q: "deferred_add b ?i ?q = Done (r, q)" "queues_ok q" "lq_deferred q \<noteq> None"
      by (rule deferred_add_ok [OF router_okD(3) [OF s1(1)] l1]) blast
    then show ?thesis using False set_queues_ok [OF s1(1) q(2)] by auto
  qed
qed

text \<open>Sending the deferred bundles: those of the rest of the list stay on it.\<close>

definition deferred_list :: "link_ptr \<Rightarrow> router_state \<Rightarrow> bundle_ptr list" where
  "deferred_list l s = (case lq_deferred (rs_link s l) of None \<Rightarrow> [] | Some (list, _, _) \<Rightarrow> list)"

lemma queue_bundle_deferred:
  "queue_bundle en b l action spec s = Done (r, s') \<Longrightarrow> lq_deferred (rs_link s' j) = lq_deferred (rs_link s j)"
proof -
  have "lq_deferred q' = lq_deferred q" if "bundle_queued en b l q = Done q'" for q q'
    using that by (auto simp: bundle_queued_def del_from_queue_def assert_that_def split: if_splits)
  then show "queue_bundle en b l action spec s = Done (r, s') \<Longrightarrow> ?thesis"
    by (auto simp: queue_bundle_def bind_outcome_Done_iff Let_def split: if_splits)
qed

lemma router_open_link_same: "router_open_link en l s = Done s' \<Longrightarrow> rs_link s' = rs_link s \<and> rs_bundle s' = rs_bundle s"
  by (auto simp: router_open_link_def bind_outcome_Done_iff Let_def split: if_splits)

lemma send_deferred_ok:
  assumes en: "env_ok en"
  shows "router_ok rem s \<Longrightarrow> routable s l \<Longrightarrow> distinct bs \<Longrightarrow> set bs \<subseteq> set (deferred_list l s) \<Longrightarrow>
    steps_ok rem s (send_deferred en l bs s)"
proof (induction bs arbitrary: s)
  case (Cons b bs)
  let ?q = "rs_link s l"
  obtain list infos cnt where d: "lq_deferred ?q = Some (list, infos, cnt)" using Cons.prems(2) by (auto simp: routable_def)
  have b: "b \<in> set list" "set bs \<subseteq> set list" using Cons.prems(4) d by (auto simp: deferred_list_def)
  have "deferred_ok (list, infos, cnt)" using router_okD(3) [OF Cons.prems(1)] d by (auto simp: queues_ok_def)
  then obtain info where info: "infos b = Some info" using b(1) by (auto simp: deferred_ok_def)
  obtain fwd where fwd: "base_should_fwd b l (fi_action info) s = Done fwd" using base_should_fwd_ok [OF Cons.prems(1)] by blast
  consider "queue_is_full ?q" | "\<not> queue_is_full ?q" "\<not> fwd" | "\<not> queue_is_full ?q" "fwd" by blast
  then show ?case
  proof cases
    case 1
    then show ?thesis using Cons.prems(1) by simp
  next
    case 2
    then show ?thesis using Cons d info fwd b by (simp add: deferred_info_def with_deferred_def deferred_list_def)
  next
    case 3
    have may: "may_forward b (fi_action info) s" using fwd 3 base_should_fwd_may by simp
    have "steps_ok rem s (router_open_link en l s)"
      using router_open_link_ok [OF Cons.prems(1)] Cons.prems(2) by (simp add: routable_def)
    then obtain s1 where s1: "router_open_link en l s = Done s1" "router_ok rem s1" "keeps s s1" by (rule steps_okE) blast
    note same = router_open_link_same [OF s1(1)]
    obtain q where q: "deferred_del b ?q = Done (True, q)" "queues_ok q"
      "lq_deferred q = Some (remove1 b list, infos(b := None), cnt - 1)" "lq_bundles_queued q = lq_bundles_queued ?q"
      "lq_bytes_queued q = lq_bytes_queued ?q" "lq_bundles_high q = lq_bundles_high ?q" "lq_bytes_high q = lq_bytes_high ?q"
      by (rule deferred_del_ok [OF router_okD(3) [OF Cons.prems(1)] d b(1)]) blast
    let ?s2 = "set_queues l q s1"
    have s2: "router_ok rem ?s2" "keeps s1 ?s2" using set_queues_ok [OF s1(2) q(2)] q(3) by auto
    have "\<not> queue_is_full (rs_link ?s2 l)" using 3 q by (simp add: queue_is_full_def)
    moreover have "may_forward b (fi_action info) ?s2" using may same by (simp add: may_forward_def)
    ultimately have "results_ok rem ?s2 (queue_bundle en b l (fi_action info) (fi_custody_spec info) ?s2)"
      by (rule queue_bundle_ok [OF s2(1) en])
    then obtain r s3 where s3: "queue_bundle en b l (fi_action info) (fi_custody_spec info) ?s2 = Done (r, s3)" "router_ok rem s3" "keeps ?s2 s3"
      by (auto simp: results_ok_def)
    have k: "keeps s s3" using s1(3) s2(2) s3(3) keeps_trans by blast
    have "deferred_list l s3 = remove1 b list"
      using queue_bundle_deferred [OF s3(1), of l] q(3) by (simp add: deferred_list_def)
    moreover have "x \<in> set (remove1 b list)" if "x \<in> set bs" for x
      using that b(2) Cons.prems(3) by (subst in_set_remove1) auto
    ultimately have "set bs \<subseteq> set (deferred_list l s3)" by auto
    moreover have "routable s3 l" using Cons.prems(2) k by (simp add: keeps_def)
    ultimately have "steps_ok rem s3 (send_deferred en l bs s3)" using Cons.IH s3(2) Cons.prems(3) by simp
    moreover have "send_deferred en l (b # bs) s = send_deferred en l bs s3"
      using 3 d info fwd s1(1) same q(1) s3(1) by (simp add: deferred_info_def with_deferred_def)
    ultimately show ?thesis using k keeps_trans by (auto simp: steps_ok_def)
  qed
qed simp

lemma check_next_hop_ok:
  assumes ok: "router_ok rem s" and en: "env_ok en" and l: "routable s l"
  shows "steps_ok rem s (check_next_hop en l s)"
proof -
  obtain list infos cnt where d: "lq_deferred (rs_link s l) = Some (list, infos, cnt)" using l by (auto simp: routable_def)
  then have "distinct list" using router_okD(3) [OF ok, of l] by (auto simp: queues_ok_def deferred_ok_def)
  then have "steps_ok rem s (send_deferred en l list s)"
    by (intro send_deferred_ok [OF en ok l]) (simp_all add: deferred_list_def d)
  then show ?thesis using ok d by (simp add: check_next_hop_def with_deferred_def)
qed

text \<open>A bundle that is not deferred on the link is not sent by that.\<close>

lemma queue_bundle_other: "queue_bundle en c l action spec s = Done (r, s') \<Longrightarrow> b \<noteq> c \<Longrightarrow> rs_bundle s' b = rs_bundle s b"
  by (auto simp: queue_bundle_def bind_outcome_Done_iff Let_def split: if_splits)

lemma send_deferred_other: "send_deferred en l bs s = Done s' \<Longrightarrow> b \<notin> set bs \<Longrightarrow> rs_bundle s' b = rs_bundle s b"
proof (induction bs arbitrary: s)
  case (Cons c bs)
  show ?case
  proof (cases "queue_is_full (rs_link s l)")
    case True
    then show ?thesis using Cons.prems by simp
  next
    case False
    then obtain info fwd where run: "deferred_info c (rs_link s l) = Done info" "base_should_fwd c l (fi_action info) s = Done fwd"
      using Cons.prems(1) by (auto simp: bind_outcome_Done_iff)
    show ?thesis
    proof (cases fwd)
      case True
      then obtain s1 r q r2 s2 where "router_open_link en l s = Done s1" "deferred_del c (rs_link s1 l) = Done (r, q)"
        "queue_bundle en c l (fi_action info) (fi_custody_spec info) (set_queues l q s1) = Done (r2, s2)" "send_deferred en l bs s2 = Done s'"
        using Cons.prems(1) False run by (auto simp: bind_outcome_Done_iff)
      then show ?thesis
        using Cons.IH [of s2] Cons.prems(2) queue_bundle_other [of en c l _ _ "set_queues l q s1" r2 s2 b] router_open_link_same [of en l s s1] by simp
    next
      case fwd: False
      then show ?thesis using Cons False run by simp
    qed
  qed
qed simp

lemma check_next_hop_other:
  "check_next_hop en l s = Done s' \<Longrightarrow> is_deferred b (rs_link s l) = Done False \<Longrightarrow> rs_bundle s' b = rs_bundle s b"
  using send_deferred_other by (fastforce simp: check_next_hop_def is_deferred_def with_deferred_def split: if_splits option.splits)

lemma table_should_fwd_ok: "router_ok rem s \<Longrightarrow> \<exists>fwd. table_should_fwd b l action s = Done fwd"
  using base_should_fwd_ok by (auto simp: table_should_fwd_def)

lemma route_one_ok:
  assumes ok: "router_ok rem s" and en: "env_ok en" and route: "re_next route = To_Link l" and l: "routable s l"
  shows "results_ok rem s (route_one en b route (n, s))"
proof -
  obtain fwd where fwd: "table_should_fwd b l (re_action route) s = Done fwd" using table_should_fwd_ok [OF ok] by blast
  obtain deferred where d: "is_deferred b (rs_link s l) = Done deferred" using l by (auto simp: is_deferred_def with_deferred_def routable_def)
  show ?thesis
  proof (cases "fwd \<and> \<not> deferred")
    case True
    obtain s1 where s1: "check_next_hop en l s = Done s1" "router_ok rem s1" "keeps s s1"
      by (rule steps_okE [OF check_next_hop_ok [OF ok en l]]) blast
    have "rs_bundle s1 b = rs_bundle s b" using check_next_hop_other s1(1) d True by simp
    then have may: "may_forward b (re_action route) s1"
      using table_should_fwd_may [of b l "re_action route" s] fwd True by (simp add: may_forward_def)
    have "routable s1 l" using l s1(3) by (simp add: keeps_def)
    then have "results_ok rem s1 (fwd_to_nexthop en b l route s1)" by (rule fwd_to_nexthop_ok [OF s1(2) en _ may])
    then obtain sent s2 where "fwd_to_nexthop en b l route s1 = Done (sent, s2)" "router_ok rem s2" "keeps s1 s2" by (auto simp: results_ok_def)
    moreover have "route_one en b route (n, s) = Done (if sent then Suc n else n, s2)"
      using route fwd d True s1(1) calculation(1) by (simp add: route_one_def)
    ultimately show ?thesis using keeps_trans [OF s1(3)] by simp
  next
    case False
    then show ?thesis using ok route fwd d by (auto simp: route_one_def)
  qed
qed

lemma route_all_ok:
  assumes en: "env_ok en"
  shows "router_ok rem s \<Longrightarrow> \<forall>e\<in>set es. \<exists>l. re_next e = To_Link l \<and> routable s l \<Longrightarrow> results_ok rem s (fold_outcome (route_one en b) es (n, s))"
proof (induction es arbitrary: n s)
  case (Cons e es)
  then obtain l where l: "re_next e = To_Link l" "routable s l" by auto
  obtain m s1 where s1: "route_one en b e (n, s) = Done (m, s1)" "router_ok rem s1" "keeps s s1"
    using route_one_ok [OF Cons.prems(1) en l, of b n] by (auto simp: results_ok_def)
  have "\<forall>x\<in>set es. \<exists>l. re_next x = To_Link l \<and> routable s1 l"
    using Cons.prems(2) s1(3) by (fastforce simp: keeps_def)
  then have "results_ok rem s1 (fold_outcome (route_one en b) es (m, s1))" using Cons.IH s1(2) by blast
  then show ?case using s1 keeps_trans [OF s1(3)] by (auto simp: results_ok_def)
qed simp

lemma route_bundle_ok:
  assumes ok: "router_ok rem s" and en: "env_ok en"
  shows "results_ok rem s (route_bundle en b s)"
proof (cases "0 < log_count_for wildcard_eid_str (state_bits SUPPRESSED) ANY_ACTION (rb_log (rs_bundle s b))")
  case False
  have routes: "route_table_ok (rs_table s)" "\<And>e l. e \<in> set (rs_table s) \<Longrightarrow> re_next e = To_Link l \<Longrightarrow> routable s l"
    using router_okD(5) [OF ok] by (auto simp: routes_ok_def)
  let ?cf = "en_config en" and ?dest = "rb_dest (rs_bundle s b)"
  have "lookup_adds ?cf (rs_table s) None (contributes ?cf (rs_table s) (rc_max_chain ?cf) ?dest (rs_table s))
      (overruns ?cf (rs_table s) (rc_max_chain ?cf) ?dest (rs_table s)) ([], False, 0) (get_matching ?cf (rs_table s) ?dest None [])"
    unfolding get_matching_def by (rule matching_helper_spec [OF routes(1)]) (simp_all add: lookup_ready_def)
  then obtain es loop cnt where es: "get_matching ?cf (rs_table s) ?dest None [] = Done (es, loop, cnt)"
    "set es \<subseteq> {e. reaches ?cf (rs_table s) (rc_max_chain ?cf) ?dest e}"
    by (auto simp: lookup_adds_def contributes_table)
  have "mset (en_sort en (route_bytes s) es) = mset es" using en by (simp add: env_ok_def)
  then have sorted: "set (en_sort en (route_bytes s) es) = set es" by (rule mset_eq_setD)
  have "\<forall>e\<in>set (en_sort en (route_bytes s) es). \<exists>l. re_next e = To_Link l \<and> routable s l"
  proof
    fix e assume "e \<in> set (en_sort en (route_bytes s) es)"
    then have "reaches ?cf (rs_table s) (rc_max_chain ?cf) ?dest e" using sorted es(2) by auto
    then obtain l where "e \<in> set (rs_table s)" "re_next e = To_Link l" using reaches_in_table by blast
    then show "\<exists>l. re_next e = To_Link l \<and> routable s l" using routes(2) by blast
  qed
  then show ?thesis using route_all_ok [OF en ok] False es(1) by (simp add: route_bundle_def)
qed (use ok in \<open>simp add: route_bundle_def\<close>)

section \<open>The other steps\<close>

lemma log_transmission_ok:
  assumes ok: "router_ok rem s" and run: "log_transmission b l st s = Done s'" and st: "st \<noteq> FWD_NONE"
    and sent: "state_bits st AND SENT_STATES \<noteq> 0 \<Longrightarrow>
      \<exists>e. latest_for_link (link_name l s) (link_remote l s) (rb_log (rs_bundle s b)) = Done (Some e) \<and> fi_state e = QUEUED"
  shows "router_ok rem s' \<and> keeps s s'"
proof -
  let ?x = "rs_bundle s b"
  have names: "log_names_ok rem (rb_log ?x)" "rem (link_name l s) = link_remote l s"
    using router_okD(6) [OF ok] router_okD(2) [OF ok] by simp_all
  obtain r log where u: "log_update (link_name l s) (link_remote l s) st (rb_log ?x) = Done (r, log)" "s' = set_bundle b (?x\<lparr>rb_log := log\<rparr>) s"
    using run by (auto simp: log_transmission_def bind_outcome_Done_iff)
  have "log_count SENT_STATES (action_bits FORWARD_ACTION) log \<le> log_count SENT_STATES (action_bits FORWARD_ACTION) (rb_log ?x)"
  proof (rule log_update_count [OF names u(1)])
    assume "state_bits st AND SENT_STATES \<noteq> 0"
    from sent [OF this] show "\<exists>e. find (\<lambda>e. fi_link_name e = link_name l s) (rev (rb_log ?x)) = Some e \<and> state_bits (fi_state e) AND SENT_STATES \<noteq> 0"
      using latest_for_link_ok [OF names] by auto
  qed
  moreover have "log_names_ok rem log" by (rule log_update_names [OF names u(1) st])
  ultimately have "bundle_ok rem (?x\<lparr>rb_log := log\<rparr>)"
    using router_okD(4) [OF ok, of b] by (auto simp: bundle_ok_def forwardings_def)
  then show ?thesis using set_bundle_ok [OF ok] u(2) by simp
qed

lemma drop_blocks_ok: "router_ok rem s \<Longrightarrow> drop_blocks b l s = Done s' \<Longrightarrow> router_ok rem s' \<and> keeps s s'"
  using set_bundle_ok router_okD(4) by (auto simp: drop_blocks_def assert_that_def split: if_splits)

lemma del_from_queue_Done:
  assumes "queues_ok q" "del_from_queue b len q = Done (r, q')"
  shows "queues_ok q' \<and> lq_deferred q' = lq_deferred q"
proof (cases "b \<in> set (lq_queue q)")
  case True
  then have "len \<noteq> 0" using assms(2) by (auto simp: del_from_queue_def assert_that_def split: if_splits)
  then obtain r1 q1 where "del_from_queue b len q = Done (r1, q1)" "queues_ok q1" "lq_deferred q1 = lq_deferred q"
    by (rule del_from_queue_ok [OF assms(1), where b = b]) blast
  then show ?thesis using assms(2) by simp
next
  case False
  then show ?thesis using assms by (simp add: del_from_queue_def)
qed

lemma del_from_inflight_Done: "queues_ok q \<Longrightarrow> del_from_inflight b len q = Done (r, q') \<Longrightarrow> queues_ok q' \<and> lq_deferred q' = lq_deferred q"
  by (auto simp: del_from_inflight_def assert_that_def queues_ok_def split: if_splits)

lemma daemon_transmitted_ok:
  assumes ok: "router_ok rem s" and run: "daemon_transmitted en b l unacked s = Done s'"
    and sent: "unacked \<or> latest_for_link (link_name l s) (link_remote l s) (rb_log (rs_bundle s b)) = Done (Some e) \<and> fi_state e = QUEUED"
  shows "router_ok rem s' \<and> keeps s s'"
proof (cases "l \<in> set (rb_blocks (rs_bundle s b))")
  case True
  then obtain r1 q1 r2 q2 s2 where q: "del_from_inflight b (en_length en b l) (rs_link s l) = Done (r1, q1)"
    "del_from_queue b (en_length en b l) q1 = Done (r2, q2)"
    and s2: "log_transmission b l (if unacked then TRANSMIT_FAILED else TRANSMITTED) (set_queues l q2 s) = Done s2" "drop_blocks b l s2 = Done s'"
    using run by (cases unacked) (auto simp: daemon_transmitted_def bind_outcome_Done_iff Let_def assert_that_def split: if_splits)
  have "queues_ok q2 \<and> lq_deferred q2 = lq_deferred (rs_link s l)"
    using del_from_inflight_Done [OF router_okD(3) [OF ok] q(1)] del_from_queue_Done [OF _ q(2)] by simp
  then have s1: "router_ok rem (set_queues l q2 s) \<and> keeps s (set_queues l q2 s)" using set_queues_ok [OF ok] by simp
  have "router_ok rem s2 \<and> keeps (set_queues l q2 s) s2"
    by (rule log_transmission_ok [OF conjunct1 [OF s1] s2(1)]) (use sent in \<open>auto split: if_splits\<close>)
  then show ?thesis using drop_blocks_ok s2(2) s1 keeps_trans by blast
qed (use ok run in \<open>simp add: daemon_transmitted_def\<close>)

lemma daemon_cancelled_ok:
  assumes ok: "router_ok rem s" and run: "daemon_cancelled b l s = Done s'"
  shows "router_ok rem s' \<and> keeps s s'"
proof (cases "l \<in> set (rb_blocks (rs_bundle s b))")
  case True
  then obtain s1 where s1: "drop_blocks b l s = Done s1" "log_transmission b l CANCELLED s1 = Done s'"
    using run by (auto simp: daemon_cancelled_def bind_outcome_Done_iff)
  note d = drop_blocks_ok [OF ok s1(1)]
  have "router_ok rem s' \<and> keeps s1 s'" by (rule log_transmission_ok [OF conjunct1 [OF d] s1(2)]) simp_all
  then show ?thesis using d keeps_trans by blast
qed (use ok run in \<open>simp add: daemon_cancelled_def\<close>)

lemma remove_deferred_from_ok:
  assumes ok: "router_ok rem s" and run: "remove_deferred_from b actions l s = Done s'"
  shows "router_ok rem s' \<and> keeps s s'"
proof (cases "lq_deferred (rs_link s l)")
  case None
  then show ?thesis using ok run by (simp add: remove_deferred_from_def)
next
  case (Some d)
  obtain list infos cnt where d: "lq_deferred (rs_link s l) = Some (list, infos, cnt)" using Some by (cases d) simp
  show ?thesis
  proof (cases "b \<in> set list")
    case True
    obtain q where q: "deferred_del b (rs_link s l) = Done (True, q)" "queues_ok q" "lq_deferred q = Some (remove1 b list, infos(b := None), cnt - 1)"
      by (rule deferred_del_ok [OF router_okD(3) [OF ok] d True]) blast
    have "router_ok rem (set_queues l q s) \<and> keeps s (set_queues l q s)"
      by (rule set_queues_ok [OF ok q(2)]) (simp add: q(3))
    then show ?thesis using ok run d q(1) by (auto simp: remove_deferred_from_def split: option.splits if_splits)
  next
    case False
    then have "infos b = None" using router_okD(3) [OF ok, of l] d by (auto simp: queues_ok_def deferred_ok_def)
    then show ?thesis using ok run d by (simp add: remove_deferred_from_def)
  qed
qed

lemma remove_from_deferred_ok:
  "router_ok rem s \<Longrightarrow> remove_from_deferred b actions s = Done s' \<Longrightarrow> router_ok rem s' \<and> keeps s s'"
proof -
  have "router_ok rem s2 \<and> keeps s1 s2"
    if "router_ok rem s1" "fold_outcome (remove_deferred_from b actions) ls s1 = Done s2" for ls s1 s2
    using that
  proof (induction ls arbitrary: s1)
    case (Cons l ls)
    then obtain s3 where s3: "remove_deferred_from b actions l s1 = Done s3" "fold_outcome (remove_deferred_from b actions) ls s3 = Done s2"
      by (auto simp: bind_outcome_Done_iff)
    with remove_deferred_from_ok [OF Cons.prems(1) s3(1)] Cons.IH show ?case using keeps_trans by blast
  qed simp
  then show "router_ok rem s \<Longrightarrow> remove_from_deferred b actions s = Done s' \<Longrightarrow> ?thesis" by (simp add: remove_from_deferred_def)
qed

lemma routes_table_ok:
  "router_ok rem s \<Longrightarrow> route_table_ok t \<Longrightarrow> (\<And>e l. e \<in> set t \<Longrightarrow> re_next e = To_Link l \<Longrightarrow> routable s l) \<Longrightarrow> router_ok rem (s\<lparr>rs_table := t\<rparr>)"
  by (simp add: router_ok_def routes_ok_def routable_def link_name_def link_remote_def)

lemma route_table_ok_filter: "route_table_ok t \<Longrightarrow> route_table_ok (filter P t)"
  by (auto simp: route_table_ok_def distinct_map_filter)

lemma router_step_ok:
  assumes "router_step en rem links_ok s s'" "router_ok rem s" "env_ok en"
  shows "router_ok rem s'"
  using assms
proof (induction rule: router_step.induct)
  case (rt_route b s n s')
  then show ?case using route_bundle_ok [of rem s en b] by (simp add: results_ok_def)
next
  case (rt_check l s s')
  then show ?case using check_next_hop_ok [of rem s en l] by (simp add: steps_ok_def routable_def)
next
  case (rt_transmitted b l unacked s s' e)
  then show ?case using daemon_transmitted_ok by blast
next
  case (rt_remove_deferred b actions s s')
  then show ?case using remove_from_deferred_ok by blast
next
  case (rt_cancelled b l s s')
  then show ?case using daemon_cancelled_ok by blast
next
  case (rt_custody_timeout b l s s')
  then show ?case using log_transmission_ok [of rem s b l CUSTODY_TIMEOUT s'] by (simp add: daemon_custody_timeout_def)
next
  case (rt_cancel b l s r s')
  show ?case
  proof (cases "s' = s")
    case False
    then obtain q where q: "del_from_queue b (en_length en b l) (rs_link s l) = Done (r, q)" "s' = set_queues l q s"
      using rt_cancel by (auto simp: cancel_bundle_def bind_outcome_Done_iff split: if_splits)
    then show ?thesis using set_queues_ok [of rem s q l] del_from_queue_Done [OF router_okD(3) q(1)] rt_cancel.prems by simp
  qed (use rt_cancel in simp)
next
  case (rt_sending b l s s')
  then obtain r q where q: "del_from_queue b (en_length en b l) (rs_link s l) = Done (r, q)"
    "s' = set_queues l (snd (add_to_inflight b (en_length en b l) q)) s"
    by (auto simp: start_sending_def bind_outcome_Done_iff)
  then show ?case
    using set_queues_ok [of rem s "snd (add_to_inflight b (en_length en b l) q)" l] del_from_queue_Done [OF router_okD(3) q(1)]
      add_to_inflight_ok [of q b "en_length en b l"] rt_sending.prems by simp
next
  case (rt_received s b l)
  let ?x = "(rs_bundle s b)\<lparr>rb_log := log_add_link (link_name l s) (link_remote l s) FORWARD_ACTION RECEIVED default_custody_spec (rb_log (rs_bundle s b))\<rparr>"
  have "forwardings ?x = forwardings (rs_bundle s b)" by (simp add: forwardings_def log_add_link_def counted_def)
  then have "bundle_ok rem ?x"
    using router_okD(4,2) [OF rt_received.prems(1)] log_names_ok_add [of rem "rb_log (rs_bundle s b)" "link_name l s" "link_remote l s" RECEIVED]
    by (simp add: bundle_ok_def)
  then show ?case using set_bundle_ok [OF rt_received.prems(1)] by (simp add: log_reception_def)
next
  case (rt_links sys s)
  then show ?case by (auto simp: router_ok_def routes_ok_def routable_def link_name_def link_remote_def)
next
  case (rt_link_created l s s')
  let ?q = "(rs_link s l)\<lparr>lq_deferred := Some ([], \<lambda>_. None, 0)\<rparr>"
  have "queues_ok ?q" using router_okD(3) [OF rt_link_created.prems(1), of l] by (simp add: queues_ok_def deferred_ok_def)
  then show ?case
    using set_queues_ok [OF rt_link_created.prems(1), of ?q l] rt_link_created.hyps
    by (auto simp: router_link_created_def assert_that_def split: if_splits)
next
  case (rt_add_route e s)
  show ?case
  proof (rule routes_table_ok [OF rt_add_route.prems(1)])
    show "route_table_ok (route_add e (rs_table s))"
      using router_okD(5) [OF rt_add_route.prems(1)] rt_add_route.hyps
      by (auto simp: routes_ok_def route_table_ok_def route_add_def split: next_hop.splits)
    show "routable s l" if "x \<in> set (route_add e (rs_table s))" "re_next x = To_Link l" for x l
      using that router_okD(5) [OF rt_add_route.prems(1)] rt_add_route.hyps
      by (auto simp: routes_ok_def route_add_def routable_def)
  qed
next
  case (rt_del_routes s dest)
  let ?t = "snd (route_del_entries dest (rs_table s))"
  have t: "?t = rs_table s \<or> (\<exists>P. ?t = filter P (rs_table s))"
    by (auto simp: route_del_entries_def route_del_matching_def Let_def)
  show ?case
  proof (rule routes_table_ok [OF rt_del_routes.prems(1)])
    show "route_table_ok ?t" using t router_okD(5) [OF rt_del_routes.prems(1)] route_table_ok_filter by (auto simp: routes_ok_def)
    show "routable s l" if "x \<in> set ?t" "re_next x = To_Link l" for x l
      using that t router_okD(5) [OF rt_del_routes.prems(1)] by (auto simp: routes_ok_def)
  qed
next
  case (rt_new_bundle s b dest singleton prevhop)
  let ?x = "new_routed_bundle dest singleton"
  have "bundle_ok rem ?x" by (simp add: bundle_ok_def new_routed_bundle_def forwardings_def log_names_ok_def log_count_def)
  moreover have "router_ok rem (s\<lparr>rs_prevhop := (rs_prevhop s)(b := prevhop)\<rparr>)"
    using rt_new_bundle.prems(1) by (simp add: router_ok_def routes_ok_def routable_def link_name_def link_remote_def)
  ultimately show ?case using set_bundle_ok by blast
qed

lemma router_start_ok: "rem [] = null_eid_str \<Longrightarrow> router_ok rem router_start"
  using start_ok
  by (simp add: router_ok_def router_start_def link_system_ok_def link_name_def link_remote_def link_system_start_def no_link_def new_link_def
      queues_ok_def new_link_queues_def bundle_ok_def new_routed_bundle_def forwardings_def log_names_ok_def log_count_def routes_ok_def route_table_ok_def)

lemma router_reachable_ok: "router_reachable en rem links_ok s \<Longrightarrow> env_ok en \<Longrightarrow> rem [] = null_eid_str \<Longrightarrow> router_ok rem s"
proof (induction rule: router_reachable.induct)
  case rr_start
  then show ?case by (simp add: router_start_ok)
next
  case (rr_step s s')
  then show ?case using router_step_ok by blast
qed

section \<open>An example\<close>

text \<open>A stable sort is one of the orders \<open>std::sort\<close> may produce.\<close>

definition route_key :: "(route_entry \<Rightarrow> u32) \<Rightarrow> route_entry \<Rightarrow> nat" where
  "route_key bytes e = (2 ^ 32 - unat (re_priority e)) * 2 ^ 32 + unat (bytes e)"

definition sort_routes :: "(route_entry \<Rightarrow> u32) \<Rightarrow> route_entry list \<Rightarrow> route_entry list" where
  "sort_routes bytes = sort_key (route_key bytes)"

lemma route_before_key: "route_before bytes a b \<Longrightarrow> route_key bytes a < route_key bytes b"
proof -
  assume r: "route_before bytes a b"
  have pa: "unat (re_priority a) < 2 ^ 32" and ba: "unat (bytes a) < 2 ^ 32"
    using unsigned_less [of "re_priority a"] unsigned_less [of "bytes a"] by simp_all
  show ?thesis
  proof (cases "re_priority b < re_priority a")
    case True
    then have "2 ^ 32 - unat (re_priority a) + 1 \<le> 2 ^ 32 - unat (re_priority b)" using pa by (simp add: word_less_nat_alt)
    then have "(2 ^ 32 - unat (re_priority a) + 1) * 2 ^ 32 \<le> (2 ^ 32 - unat (re_priority b)) * (2 ^ 32 :: nat)" by (rule mult_le_mono1)
    then show ?thesis using ba by (simp add: route_key_def)
  next
    case False
    then have "re_priority a = re_priority b" "bytes a < bytes b" using r by (auto simp: route_before_def split: if_splits)
    then show ?thesis by (simp add: route_key_def word_less_nat_alt)
  qed
qed

lemma sort_routes_ok: "mset (sort_routes bytes xs) = mset xs \<and> sorted_wrt (\<lambda>a b. \<not> route_before bytes b a) (sort_routes bytes xs)"
proof
  have "sorted_wrt (\<lambda>a b. route_key bytes a \<le> route_key bytes b) (sort_routes bytes xs)"
    using sorted_sort_key [of "route_key bytes" xs] by (simp add: sort_routes_def sorted_map)
  then show "sorted_wrt (\<lambda>a b. \<not> route_before bytes b a) (sort_routes bytes xs)"
    by (rule sorted_wrt_mono_rel [rotated]) (use route_before_key in fastforce)
qed (simp add: sort_routes_def)

definition example_router_env :: router_env where
  "example_router_env = \<lparr>en_config = example_config, en_open = (\<lambda>_. Post_Nothing), en_sends_now = (\<lambda>_. False),
     en_length = (\<lambda>_ _. 100), en_sort = sort_routes\<rparr>"

lemma example_router_env_ok: "env_ok example_router_env"
  by (simp add: env_ok_def example_router_env_def sort_routes_ok)

definition example_rem :: "string \<Rightarrow> string" where
  "example_rem name = (if name = ''peer'' then ''dtn://peer'' else null_eid_str)"

definition example_sys :: link_system where
  "example_sys = link_system_start\<lparr>sy_link := (\<lambda>_. no_link)(0 := (new_link ''peer'' ONDEMAND 0 ''host'' 5 600)
      \<lparr>lk_remote_eid := ''dtn://peer'', lk_state := OPEN, lk_contact := Some 0\<rparr>), sy_links := [0], sy_next_contact := 1, sy_managed := [0]\<rparr>"

definition example_routed :: router_state where
  "example_routed = router_start\<lparr>rs_sys := example_sys, rs_link := (\<lambda>_. new_link_queues)(0 := new_link_queues\<lparr>lq_deferred := Some ([], \<lambda>_. None, 0)\<rparr>),
     rs_table := [example_hop 3 ''b'' (To_Link 0)], rs_bundle := (\<lambda>_. new_routed_bundle empty_eid False)(1 := new_routed_bundle (string_eid ''b'') True)\<rparr>"

lemma example_sys_ok: "links_ok example_sys"
  by (auto simp: links_ok_def link_ok_def example_sys_def new_link_def no_link_def link_system_start_def Let_def)

lemma example_routed_reachable: "router_reachable example_router_env example_rem links_ok example_routed"
proof -
  let ?s1 = "router_start\<lparr>rs_sys := example_sys\<rparr>"
  have r1: "router_reachable example_router_env example_rem links_ok ?s1"
    by (intro rr_step [OF rr_start] rt_links example_sys_ok)
      (simp_all add: router_start_def link_system_start_def example_sys_def example_rem_def new_link_def no_link_def)
  let ?s2 = "set_queues 0 (new_link_queues\<lparr>lq_deferred := Some ([], \<lambda>_. None, 0)\<rparr>) ?s1"
  have r2: "router_reachable example_router_env example_rem links_ok ?s2"
    by (rule rr_step [OF r1 rt_link_created [of 0]]) (simp add: router_link_created_def router_start_def new_link_queues_def)
  let ?s3 = "?s2\<lparr>rs_table := route_add (example_hop 3 ''b'' (To_Link 0)) (rs_table ?s2)\<rparr>"
  have r3: "router_reachable example_router_env example_rem links_ok ?s3"
    by (rule rr_step [OF r2 rt_add_route]) (simp_all add: router_start_def example_hop_def example_sys_def)
  let ?s4 = "set_bundle 1 (new_routed_bundle (string_eid ''b'') True) (?s3\<lparr>rs_prevhop := (rs_prevhop ?s3)(1 := None)\<rparr>)"
  have r4: "router_reachable example_router_env example_rem links_ok ?s4" by (rule rr_step [OF r3 rt_new_bundle])
  have "?s4 = example_routed"
    by (simp add: example_routed_def set_bundle_def set_queues_def router_start_def route_add_def fun_eq_iff)
  with r4 show ?thesis by simp
qed

text \<open>Routing the bundle queues it.\<close>

lemma example_match: "entry_matches example_config (example_hop p s nh) (string_eid s') \<longleftrightarrow> s = s'"
  by (simp add: entry_matches_def eid_match_def string_match_def example_hop_def string_eid_def new_uri_def uri_valid_def eid_str_def)

lemma example_hop_fields:
  "re_next (example_hop p s nh) = nh" "re_action (example_hop p s nh) = FORWARD_ACTION" "re_priority (example_hop p s nh) = 0"
  by (simp_all add: example_hop_def)

lemma example_matching: "get_matching example_config [example_hop 3 ''b'' (To_Link 0)] (string_eid ''b'') None [] = Done ([example_hop 3 ''b'' (To_Link 0)], False, 1)"
  by (simp add: get_matching_def example_match add_match_def example_hop_fields)

lemma example_route_bundle: "\<exists>s. route_bundle example_router_env 1 example_routed = Done (1, s) \<and> lq_queue (rs_link s 0) = [1]
    \<and> map fi_state (rb_log (rs_bundle s 1)) = [QUEUED] \<and> rb_singleton (rs_bundle s 1)"
proof -
  have m: "get_matching (en_config example_router_env) (rs_table example_routed) (rb_dest (rs_bundle example_routed 1)) None [] =
      Done ([example_hop 3 ''b'' (To_Link 0)], False, 1)"
    using example_matching by (simp add: example_router_env_def example_routed_def new_routed_bundle_def)
  have o: "en_sort example_router_env f [x] = [x]" for f x by (simp add: example_router_env_def sort_routes_def)
  have l: "log_count_for e a b (rb_log (rs_bundle example_routed 1)) = 0" for e a b
    by (simp add: example_routed_def new_routed_bundle_def log_count_for_def)
  have "\<exists>s. route_one example_router_env 1 (example_hop 3 ''b'' (To_Link 0)) (0, example_routed) = Done (1, s) \<and> lq_queue (rs_link s 0) = [1]
      \<and> map fi_state (rb_log (rs_bundle s 1)) = [QUEUED] \<and> rb_singleton (rs_bundle s 1)"
    by (simp add: route_one_def example_hop_fields table_should_fwd_def base_should_fwd_def router_should_fwd_def latest_for_link_def
        log_count_for_def log_count_def info_state_def is_deferred_def with_deferred_def check_next_hop_def queue_has_space_def fwd_to_nexthop_def
        router_open_link_def queue_is_full_def queue_bundle_def bundle_queued_def add_to_queue_def log_add_link_def
        example_routed_def example_router_env_def example_sys_def new_routed_bundle_def new_link_queues_def new_link_def router_start_def
        link_system_start_def link_name_def link_remote_def Let_def)
  then show ?thesis unfolding route_bundle_def m by (simp add: o l del: One_nat_def)
qed

section \<open>Properties\<close>

text \<open>
  C37. However bundles are routed, deferred, sent, acknowledged, cancelled and timed out, and however the links change, a bundle with one
  destination has at most one entry in its log that forwards it and is queued or transmitted.
\<close>

theorem single_forwarding:
  assumes "router_reachable en rem links_ok s" "env_ok en" "rem [] = null_eid_str" "rb_singleton (rs_bundle s b)"
  shows "log_count (state_bits TRANSMITTED OR state_bits QUEUED) (action_bits FORWARD_ACTION) (rb_log (rs_bundle s b)) \<le> 1"
  using router_okD(4) [OF router_reachable_ok [OF assms(1-3)], of b] assms(4) by (simp add: bundle_ok_def forwardings_def)

theorem single_forwarding_witness:
  "\<exists>s. router_reachable example_router_env example_rem links_ok s \<and> map fi_state (rb_log (rs_bundle s 1)) = [QUEUED]
    \<and> log_count (state_bits TRANSMITTED OR state_bits QUEUED) (action_bits FORWARD_ACTION) (rb_log (rs_bundle s 1)) \<le> 1"
proof -
  obtain s where s: "route_bundle example_router_env 1 example_routed = Done (1, s)" "map fi_state (rb_log (rs_bundle s 1)) = [QUEUED]"
    "rb_singleton (rs_bundle s 1)"
    using example_route_bundle by (elim exE conjE) (rule that)
  have r: "router_reachable example_router_env example_rem links_ok s" by (rule rr_step [OF example_routed_reachable rt_route [OF s(1)]])
  have "example_rem [] = null_eid_str" by (simp add: example_rem_def)
  note c = single_forwarding [OF r example_router_env_ok this s(3)]
  show ?thesis by (intro exI [of _ s] conjI r s(2) c)
qed





text \<open>
  C40. A new bundle overtakes the deferred ones when the queue is between its two marks: the deferred bundles are then not
  sent, because that needs the queue below the low mark, and the new one is queued, because that
  only needs the queue not to be above the high mark.
\<close>

theorem new_bundle_overtakes:
  assumes "lk_state (sy_link (rs_sys s) l) = OPEN" "\<not> lk_deleted (sy_link (rs_sys s) l)" "\<not> queue_has_space (rs_link s l)"
    "\<not> queue_is_full (rs_link s l)" "lq_mtu (rs_link s l) = 0" "b \<notin> set (lq_queue (rs_link s l))" "b \<notin> set (lq_inflight (rs_link s l))"
    "l \<notin> set (rb_blocks (rs_bundle s b))" "table_should_fwd b l (re_action route) s = Done True" "re_next route = To_Link l"
    "is_deferred b (rs_link s l) = Done False" "is_deferred c (rs_link s l) = Done True" "\<not> en_sends_now en l"
  shows "\<exists>s'. route_one en b route (n, s) = Done (Suc n, s') \<and> lq_queue (rs_link s' l) = lq_queue (rs_link s l) @ [b]
    \<and> is_deferred c (rs_link s' l) = Done True"
proof -
  obtain r where r: "latest_for_link (link_name l s) (link_remote l s) (rb_log (rs_bundle s b)) = Done r" "info_state r \<noteq> QUEUED"
  proof -
    have f: "base_should_fwd b l (re_action route) s = Done True" using assms(9) by (simp add: table_should_fwd_def split: if_splits)
    then obtain r where r: "latest_for_link (link_name l s) (link_remote l s) (rb_log (rs_bundle s b)) = Done r"
      by (auto simp: base_should_fwd_def router_should_fwd_def bind_outcome_Done_iff)
    from router_should_fwd_not_sent [OF f [unfolded base_should_fwd_def] r] show ?thesis using that r by blast
  qed
  show ?thesis
    using assms r
    by (auto simp: route_one_def check_next_hop_def fwd_to_nexthop_def router_open_link_def queue_bundle_def bundle_queued_def
        add_to_queue_def is_deferred_def with_deferred_def Let_def split: option.splits)
qed

definition overtaking_example :: router_state where
  "overtaking_example = example_routed\<lparr>rs_link := (\<lambda>_. new_link_queues)(0 := new_link_queues
     \<lparr>lq_queue := [11, 12, 13, 14, 15, 16], lq_bundles_queued := 6, lq_bytes_queued := 600,
      lq_deferred := Some ([7], (\<lambda>_. None)(7 \<mapsto> \<lparr>fi_state = FWD_NONE, fi_action = FORWARD_ACTION, fi_link_name = ''peer'', fi_regid = 0xffffffff,
        fi_remote_eid = ''dtn://peer'', fi_custody_spec = default_custody_spec\<rparr>), 1)\<rparr>)\<rparr>"

theorem new_bundle_overtakes_witness:
  "\<exists>s. route_one example_router_env 1 (example_hop 3 ''b'' (To_Link 0)) (0, overtaking_example) = Done (1, s)
    \<and> lq_queue (rs_link s 0) = [11, 12, 13, 14, 15, 16, 1] \<and> is_deferred 7 (rs_link s 0) = Done True"
  using new_bundle_overtakes [of overtaking_example 0 1 "example_hop 3 ''b'' (To_Link 0)" 7 example_router_env 0]
  by (simp add: overtaking_example_def example_hop_fields table_should_fwd_def base_should_fwd_def router_should_fwd_def latest_for_link_def
      log_count_for_def log_count_def info_state_def is_deferred_def with_deferred_def queue_has_space_def queue_is_full_def
      example_routed_def example_router_env_def example_sys_def new_routed_bundle_def new_link_queues_def new_link_def router_start_def
      link_system_start_def link_name_def link_remote_def Let_def)

end
