(* ===== verification/Spec2Isabelle.thy ===== *)
theory Spec2Isabelle
  imports Sdnv Sequence_Id Endpoint_Id Uri_Layout Oasys_Glob Bundle_Reception Consume_Progress
    Admin_Records Fragment_Roundtrip Stream_Reception Bundle_List
    Link_Invariant Router_Invariant
begin

text \<open>
  A verification library for the C++ node of this repository, the DTN reference
  implementation under \<open>src/dtn_agent/dtn-2.7.0\<close>, and for the parts of \<open>oasys-1.4.0\<close> that it
  computes with. A node names endpoints by URIs, reads bundles from the bytes of its
  convergence layers, keeps them, routes and fragments them, and writes them out again. The
  library follows a bundle from the text of its identifiers to its bytes and back.

  Conventions. A failed \<open>ASSERT\<close>, \<open>PANIC\<close> or \<open>NOTREACHED\<close> and a read behind a buffer is the
  value \<open>Panic\<close> of the type \<open>outcome\<close> (theory Dtn_Prelude); a theorem that the outcome is
  \<open>Done\<close> shows that the daemon survives. Machine integers are words where their width
  matters. Objects are records, member functions return the changed record, and a return
  value comes first in a tuple. Locking, logging and reference counting of temporaries are
  left out.

  The theories, in the order in which the code uses them:

  \<^item> Dtn_Prelude: outcomes, bytes, scanning lemmas.
  \<^item> Sdnv: \<open>SDNV.cc\<close>, the variable-length numbers of the protocol.
  \<^item> Sequence_Id: \<open>SequenceID.cc\<close>, version vectors, their comparison and update.
  \<^item> Oasys_Uri, Uri_Layout: \<open>URI.cc\<close>; the parser, and the layout of what it accepts.
  \<^item> Oasys_Glob: \<open>Glob.cc\<close>, the matcher of wildcard patterns.
  \<^item> Endpoint_Id: \<open>servlib/naming\<close>, endpoint identifiers, schemes and patterns.
  \<^item> Dictionary: \<open>Dictionary.cc\<close>, the table of strings in the primary block.
  \<^item> Block_Info: \<open>BlockInfo.cc\<close> and \<open>BlockProcessor.cc\<close>, blocks and the default processor.
  \<^item> Bundle_Payload: \<open>BundlePayload.cc\<close>, payloads in memory or in a file.
  \<^item> Metadata_Block: \<open>MetadataBlock.cc\<close>, metadata and its changes for each link.
  \<^item> Dtn_Bundle: \<open>Bundle.cc\<close>, \<open>BundleTimestamp.cc\<close>, \<open>GbofId.cc\<close>.
  \<^item> Primary_Block: \<open>PrimaryBlockProcessor.cc\<close>.
  \<^item> Block_Processors, Block_Output: the processors of the other blocks, receiving and sending.
  \<^item> Bundle_Protocol: \<open>BundleProtocol.cc\<close>, which drives the processors.
  \<^item> Bundle_Transfer, Bundle_Reception: any part of a formatted bundle, any pieces at the
    receiver, and the round trip of a bundle.
  \<^item> Consume_Progress: the loop of \<open>BundleProtocol::consume\<close> ends.
  \<^item> Admin_Records: \<open>CustodySignal.cc\<close>, \<open>BundleStatusReport.cc\<close> and \<open>AdminRegistration.cc\<close>.
  \<^item> Fragmentation, Reassembly, Fragment_Roundtrip: \<open>FragmentManager.cc\<close> and
    \<open>FragmentState.cc\<close>; the operations, the order-independence of reassembly, and the
    round trip of fragmentation. The loop of \<open>proactively_fragment\<close> is a
    \<open>partial_function\<close>, because for some limits it does not end.
  \<^item> Bundle_List: \<open>BundleList.cc\<close> and the reference counts of bundles, over a store of
    shared bundles; it refines plain lists.
  \<^item> Sparse_Bitmap: \<open>SparseBitmap.tcc\<close>, the sets of octets that the convergence layers keep.
  \<^item> Stream_Layer, Stream_Thread: \<open>StreamConvergenceLayer.cc\<close> and \<open>CLConnection.cc\<close>, one
    connection that sends bundles in segments and acknowledges those of its peer, its thread,
    and the closing of the contact.
  \<^item> Stream_Reception: all bundles that are sent over an established connection are reported,
    once and in order, for any segments and any sizes of reads.
  \<^item> Link_Contact, Link_Invariant: \<open>contacts/Link.cc\<close>, \<open>ContactManager.cc\<close> and the link and
    contact handlers of \<open>BundleDaemon.cc\<close>; the queue of events, the retry timers, and what
    holds of the links in every reachable state.
  \<^item> Forwarding_Log, Route_Table, Table_Router, Router_Invariant: \<open>ForwardingLog.cc\<close>,
    \<open>BundleRouter.cc\<close>, \<open>RouteTable.cc\<close>, \<open>TableBasedRouter.cc\<close>, the queues of \<open>Link.cc\<close> and \<open>BundleActions.cc\<close>:
    the log that says where a bundle went, the lookup of routes, forwarding and deferring; a bundle with
    one destination is never on its way to two next hops.

  Loops are recursive functions with a measure. The loop of \<open>consume\<close> is a
  \<open>partial_function\<close>, because a processor might take no bytes; the theorems about it state
  that it returns.
\<close>

end
